(* ===== verification/Prelude.thy ===== *)
theory Prelude
  imports Main "HOL-Library.Word" "HOL-Library.Multiset" "HOL-Library.Monad_Syntax"
begin

text \<open>
  Shared vocabulary of the development: the machine types of the Rust sources, the few
  operations of the Rust standard library that the sources use on integers and vectors, and
  the loop combinator behind every \<open>for\<close> loop whose body changes state.

  A panic is the value \<^term>\<open>None\<close> of an option; an \<open>Err\<close> is the left summand of a sum.
\<close>

named_theorems word_nat \<open>facts that read a word operation on natural numbers\<close>
named_theorems loop_simps \<open>equations of the loop combinators\<close>

section \<open>Machine types\<close>

type_synonym u8 = "8 word"
type_synonym u16 = "16 word"
type_synonym u32 = "32 word"
type_synonym u64 = "64 word"
type_synonym u256 = "256 word"
type_synonym address = "160 word"
type_synonym b256 = "256 word"
type_synonym byte = "8 word"

text \<open>\<open>u64::saturating_sub\<close>.\<close>

definition saturating_sub :: "'a::len word \<Rightarrow> 'a word \<Rightarrow> 'a word" where
  "saturating_sub a b = (if a < b then 0 else a - b)"

lemma unat_saturating_sub [word_nat]: "unat (saturating_sub a b) = unat a - unat b"
  by (auto simp: saturating_sub_def word_less_nat_alt unat_sub_if')

lemma saturating_sub_le: "saturating_sub a b \<le> a"
  by (simp add: word_le_nat_alt unat_saturating_sub)

lemma saturating_sub_mono: "a \<le> b \<Longrightarrow> saturating_sub a n \<le> saturating_sub b n"
  by (simp add: word_le_nat_alt unat_saturating_sub diff_le_mono)

lemma unat_sub_less: "b < a \<Longrightarrow> unat (a - b) = unat a - unat (b :: 'a::len word)"
  by (simp add: unat_sub order_less_imp_le)

section \<open>Vectors and iterators\<close>

text \<open>\<open>Iterator::position\<close>: the index of the first element that satisfies the predicate.\<close>

fun position :: "('a \<Rightarrow> bool) \<Rightarrow> 'a list \<Rightarrow> nat option" where
  "position P [] = None"
| "position P (x # xs) = (if P x then Some 0 else map_option Suc (position P xs))"

lemma position_Some:
  "position P xs = Some i \<Longrightarrow> i < length xs \<and> P (xs ! i) \<and> (\<forall>j < i. \<not> P (xs ! j))"
proof (induction xs arbitrary: i)
  case (Cons x xs)
  then show ?case
    by (cases i) (auto simp: less_Suc_eq_0_disj split: if_splits)
qed simp

lemma position_None: "position P xs = None \<longleftrightarrow> (\<forall>x \<in> set xs. \<not> P x)"
  by (induction xs) auto

text \<open>
  \<open>Vec::swap_remove\<close>: takes the element at an index out and puts the last element in its
  place; \<^term>\<open>None\<close> is the panic at an index out of range.
\<close>

definition swap_remove :: "nat \<Rightarrow> 'a list \<Rightarrow> ('a \<times> 'a list) option" where
  "swap_remove i xs =
     (if i < length xs then Some (xs ! i, butlast (xs[i := last xs])) else None)"

lemma swap_remove_mset:
  assumes "swap_remove i xs = Some (x, ys)"
  shows "mset xs = add_mset x (mset ys)"
proof -
  from assms have i: "i < length xs" and x: "x = xs ! i" and ys: "ys = butlast (xs[i := last xs])"
    by (auto simp: swap_remove_def split: if_splits)
  from i have ne: "xs \<noteq> []" by auto
  have "mset (xs[i := last xs]) = add_mset (last (xs[i := last xs])) (mset ys)"
    using ne by (metis append_butlast_last_id list_update_nonempty mset_append mset_single_iff_right
        add_mset_add_single mset.simps(2) ys)
  moreover have "last (xs[i := last xs]) = last xs"
    using ne by (simp add: last_list_update)
  moreover have "mset (xs[i := last xs]) = add_mset (last xs) (mset xs - {# xs ! i #})"
    using i by (simp add: mset_update)
  ultimately have "mset ys = mset xs - {# xs ! i #}" by simp
  moreover have "xs ! i \<in># mset xs" using i by simp
  ultimately show ?thesis using x by simp
qed

text \<open>
  A loop that returns at the first element for which the body produces a value
  (\<open>Iterator::find_map\<close>, or \<open>for\<close> with \<open>continue\<close> and \<open>return\<close>).
\<close>

fun first_match :: "('a \<Rightarrow> 'b option) \<Rightarrow> 'a list \<Rightarrow> 'b option" where
  "first_match f [] = None"
| "first_match f (x # xs) = (case f x of None \<Rightarrow> first_match f xs | Some y \<Rightarrow> Some y)"

lemma first_match_None: "first_match f xs = None \<longleftrightarrow> (\<forall>x \<in> set xs. f x = None)"
  by (induction xs) (auto split: option.splits)

lemma first_match_append:
  "first_match f (xs @ ys) = (case first_match f xs of None \<Rightarrow> first_match f ys | Some y \<Rightarrow> Some y)"
  by (induction xs) (auto split: option.splits)

lemma first_match_SomeD:
  "first_match f xs = Some y \<Longrightarrow>
     \<exists>pre x post. xs = pre @ x # post \<and> (\<forall>z \<in> set pre. f z = None) \<and> f x = Some y"
proof (induction xs)
  case (Cons x xs)
  show ?case
  proof (cases "f x")
    case None
    with Cons obtain pre x' post where "xs = pre @ x' # post"
      "\<forall>z \<in> set pre. f z = None" "f x' = Some y" by auto
    with None show ?thesis
      by (intro exI [of _ "x # pre"] exI [of _ x'] exI [of _ post]) auto
  next
    case (Some y')
    with Cons.prems show ?thesis by (intro exI [of _ "[]"]) auto
  qed
qed simp

lemma first_match_SomeI:
  "\<forall>z \<in> set pre. f z = None \<Longrightarrow> f x = Some y \<Longrightarrow> first_match f (pre @ x # post) = Some y"
  by (simp add: first_match_append first_match_None [THEN iffD2])

lemma first_match_in: "first_match f xs = Some y \<Longrightarrow> \<exists>x \<in> set xs. f x = Some y"
  by (auto dest!: first_match_SomeD)

section \<open>Loops\<close>

text \<open>
  \<open>for x in xs { body }\<close> over a state; the body may panic, which stops the loop.
\<close>

fun for_each :: "('a \<Rightarrow> 's \<Rightarrow> 's option) \<Rightarrow> 'a list \<Rightarrow> 's \<Rightarrow> 's option" where
  "for_each f [] s = Some s"
| "for_each f (x # xs) s = (case f x s of None \<Rightarrow> None | Some s' \<Rightarrow> for_each f xs s')"

declare for_each.simps [loop_simps]

lemma for_each_append:
  "for_each f (xs @ ys) s = Option.bind (for_each f xs s) (for_each f ys)"
  by (induction xs arbitrary: s) (auto split: option.splits)

text \<open>The state in which the loop stands when it is over: the last one before a panic, if there is one.\<close>

fun loop_state :: "('a \<Rightarrow> 's \<Rightarrow> 's option) \<Rightarrow> 'a list \<Rightarrow> 's \<Rightarrow> 's" where
  "loop_state f [] s = s"
| "loop_state f (x # xs) s = (case f x s of None \<Rightarrow> s | Some s' \<Rightarrow> loop_state f xs s')"

lemma loop_state_prefix: "\<exists>ys zs. xs = ys @ zs \<and> for_each f ys s = Some (loop_state f xs s)"
proof (induction xs arbitrary: s)
  case (Cons x xs)
  show ?case
  proof (cases "f x s")
    case None
    then show ?thesis by (intro exI [of _ "[]"] exI [of _ "x # xs"]) simp
  next
    case (Some s')
    from Cons.IH [of s'] obtain ys zs where "xs = ys @ zs" "for_each f ys s' = Some (loop_state f xs s')" by blast
    then show ?thesis using Some by (intro exI [of _ "x # ys"] exI [of _ zs]) simp
  qed
qed simp

lemma loop_state_over: "for_each f xs s = Some s' \<Longrightarrow> loop_state f xs s = s'"
  by (induction xs arbitrary: s) (auto split: option.splits)

text \<open>
  The contract every handler and loop body of the server shares: it keeps an invariant
  on admissible inputs (\<open>loop_body\<close>), and it may also promise to return on them
  (\<open>total_body\<close>), that is, not to panic.
\<close>

locale loop_body =
  fixes body :: "'a \<Rightarrow> 's \<Rightarrow> 's option"
    and inv :: "'s \<Rightarrow> bool"
    and ok :: "'a \<Rightarrow> bool"
  assumes body_inv: "inv s \<Longrightarrow> ok x \<Longrightarrow> body x s = Some s' \<Longrightarrow> inv s'"
begin

lemma loop_inv: "inv s \<Longrightarrow> \<forall>x \<in> set xs. ok x \<Longrightarrow> for_each body xs s = Some s' \<Longrightarrow> inv s'"
proof (induction xs arbitrary: s)
  case (Cons x xs)
  then show ?case by (auto split: option.splits dest: body_inv)
qed simp

end

locale total_body = loop_body +
  assumes body_total: "inv s \<Longrightarrow> ok x \<Longrightarrow> \<exists>s'. body x s = Some s'"
begin

lemma loop_total: "inv s \<Longrightarrow> \<forall>x \<in> set xs. ok x \<Longrightarrow> \<exists>s'. for_each body xs s = Some s'"
proof (induction xs arbitrary: s)
  case (Cons x xs)
  then obtain s' where s': "body x s = Some s'" using body_total by fastforce
  then have "inv s'" using Cons.prems body_inv by auto
  then show ?case using Cons s' by auto
qed simp

end

end
