(* ===== verification/Collections.thy ===== *)
theory Collections
  imports Prelude "HOL-Library.AList"
begin

text \<open>
  The collections of the Rust standard library as the sources use them. A \<open>HashMap\<close> is an
  association list with distinct keys. Its iteration order is unspecified, so every loop
  over one takes the order from a rank function of the environment (\<open>hm_iter\<close>): as that
  function ranges over all functions, every order is covered. A \<open>BTreeMap\<close> from block
  numbers to event lists is an association list with strictly increasing keys.
\<close>

section \<open>The interface of a keyed store\<close>

locale keyed_store =
  fixes get :: "'m \<Rightarrow> 'k \<Rightarrow> 'v option"
    and put :: "'k \<Rightarrow> 'v \<Rightarrow> 'm \<Rightarrow> 'm"
    and retain :: "('k \<Rightarrow> 'v \<Rightarrow> bool) \<Rightarrow> 'm \<Rightarrow> 'm"
    and wf :: "'m \<Rightarrow> bool"
  assumes get_put: "get (put k v m) j = (if j = k then Some v else get m j)"
    and wf_put: "wf m \<Longrightarrow> wf (put k v m)"
    and get_retain: "wf m \<Longrightarrow>
      get (retain P m) j = (case get m j of None \<Rightarrow> None | Some v \<Rightarrow> if P j v then Some v else None)"
    and wf_retain: "wf m \<Longrightarrow> wf (retain P m)"
begin

lemma get_retain_Some:
  "wf m \<Longrightarrow> get (retain P m) j = Some v \<longleftrightarrow> get m j = Some v \<and> P j v"
  by (auto simp: get_retain split: option.splits)

lemma retain_put:
  "wf m \<Longrightarrow> P k v \<Longrightarrow> get (retain P (put k v m)) k = Some v"
  by (simp add: get_retain wf_put get_put)

lemma put_put: "get (put k v (put k v' m)) j = get (put k v m) j"
  by (simp add: get_put)

lemma retain_idem: "wf m \<Longrightarrow> get (retain P (retain P m)) j = get (retain P m) j"
  by (auto simp: get_retain wf_retain split: option.splits)

end

section \<open>\<open>HashMap\<close>\<close>

type_synonym ('k, 'v) hash_map = "('k \<times> 'v) list"

definition hm_wf :: "('k, 'v) hash_map \<Rightarrow> bool" where
  "hm_wf m = distinct (map fst m)"

definition hm_get :: "('k, 'v) hash_map \<Rightarrow> 'k \<Rightarrow> 'v option" where
  "hm_get m k = map_of m k"

definition hm_insert :: "'k \<Rightarrow> 'v \<Rightarrow> ('k, 'v) hash_map \<Rightarrow> ('k, 'v) hash_map" where
  "hm_insert k v m = AList.update k v m"

definition hm_retain :: "('k \<Rightarrow> 'v \<Rightarrow> bool) \<Rightarrow> ('k, 'v) hash_map \<Rightarrow> ('k, 'v) hash_map" where
  "hm_retain P m = filter (\<lambda>(k, v). P k v) m"

text \<open>\<open>get_mut\<close> followed by an assignment through the reference.\<close>

definition hm_modify :: "'k \<Rightarrow> ('v \<Rightarrow> 'v) \<Rightarrow> ('k, 'v) hash_map \<Rightarrow> ('k, 'v) hash_map" where
  "hm_modify k f m = map (\<lambda>(j, v). (j, if j = k then f v else v)) m"

text \<open>Iteration in the order that a rank of the keys gives.\<close>

definition hm_iter :: "('k \<Rightarrow> nat) \<Rightarrow> ('k, 'v) hash_map \<Rightarrow> ('k \<times> 'v) list" where
  "hm_iter rank m = sort_key (\<lambda>(k, _). rank k) m"

lemma map_of_filter_distinct:
  "distinct (map fst m) \<Longrightarrow>
   map_of (filter (\<lambda>(k, v). P k v) m) j =
     (case map_of m j of None \<Rightarrow> None | Some v \<Rightarrow> if P j v then Some v else None)"
proof (induction m)
  case (Cons p m)
  obtain k v where p: "p = (k, v)" by fastforce
  from Cons.prems p have "k \<notin> fst ` set m" by auto
  then have "map_of m k = None" by (simp add: map_of_eq_None_iff)
  with Cons p show ?case by (auto split: option.splits)
qed simp

interpretation hm: keyed_store hm_get hm_insert hm_retain hm_wf
proof unfold_locales
  show "hm_get (hm_insert k v m) j = (if j = k then Some v else hm_get m j)" for k v m j
    by (simp add: hm_get_def hm_insert_def update_conv')
  show "hm_wf m \<Longrightarrow> hm_wf (hm_insert k v m)" for k v m
    by (simp add: hm_wf_def hm_insert_def distinct_update)
  show "hm_wf m \<Longrightarrow> hm_get (hm_retain P m) j =
      (case hm_get m j of None \<Rightarrow> None | Some v \<Rightarrow> if P j v then Some v else None)" for m P j
    by (simp add: hm_wf_def hm_get_def hm_retain_def map_of_filter_distinct)
  show "hm_wf m \<Longrightarrow> hm_wf (hm_retain P m)" for m P
    by (auto simp: hm_wf_def hm_retain_def intro: distinct_map_filter)
qed

lemma hm_wf_Nil [simp]: "hm_wf []"
  by (simp add: hm_wf_def)

lemma hm_get_Nil [simp]: "hm_get [] k = None"
  by (simp add: hm_get_def)

lemma hm_modify_keys [simp]: "map fst (hm_modify k f m) = map fst m"
  by (auto simp: hm_modify_def)

lemma hm_wf_modify [simp]: "hm_wf (hm_modify k f m) = hm_wf m"
  by (simp add: hm_wf_def)

lemma hm_get_modify:
  "hm_get (hm_modify k f m) j = (if j = k then map_option f (hm_get m j) else hm_get m j)"
  by (induction m) (auto simp: hm_get_def hm_modify_def)

lemma hm_iter_mset [simp]: "mset (hm_iter rank m) = mset m"
  by (simp add: hm_iter_def)

lemma hm_iter_set [simp]: "set (hm_iter rank m) = set m"
  by (simp add: hm_iter_def)

lemma hm_iter_distinct: "hm_wf m \<Longrightarrow> distinct (map fst (hm_iter rank m))"
proof -
  assume "hm_wf m"
  then have "distinct (map fst m)" by (simp add: hm_wf_def)
  moreover have "mset (map fst (hm_iter rank m)) = mset (map fst m)" by simp
  ultimately show ?thesis by (metis mset_eq_imp_distinct_iff)
qed

lemma hm_get_in_set: "hm_wf m \<Longrightarrow> (k, v) \<in> set m \<longleftrightarrow> hm_get m k = Some v"
  by (simp add: hm_wf_def hm_get_def)

lemma hm_get_SomeD: "hm_get m k = Some v \<Longrightarrow> (k, v) \<in> set m"
  by (simp add: hm_get_def map_of_SomeD)

lemma hm_get_None: "hm_get m k = None \<longleftrightarrow> k \<notin> fst ` set m"
  by (simp add: hm_get_def map_of_eq_None_iff)

lemma hm_keys_insert: "fst ` set (hm_insert k v m) = insert k (fst ` set m)"
  by (simp add: hm_insert_def dom_update)

lemma hm_set_insert:
  "hm_wf m \<Longrightarrow> (j, x) \<in> set (hm_insert k v m) \<longleftrightarrow>
     (if j = k then x = v else (j, x) \<in> set m)"
  by (auto simp: hm_get_in_set hm.wf_put hm.get_put)

lemma hm_set_insertD:
  "(j, x) \<in> set (hm_insert k v m) \<Longrightarrow> (j = k \<and> x = v) \<or> (j, x) \<in> set m"
  by (induction m) (auto simp: hm_insert_def split: if_splits)

section \<open>\<open>BTreeMap\<close> of event lists\<close>

type_synonym ('k, 'v) btree = "('k \<times> 'v list) list"

definition bt_wf :: "('k::linorder, 'v) btree \<Rightarrow> bool" where
  "bt_wf m = sorted_wrt (<) (map fst m)"

text \<open>\<open>entry(k).or_default().push(v)\<close>.\<close>

fun bt_push :: "'k::linorder \<Rightarrow> 'v \<Rightarrow> ('k, 'v) btree \<Rightarrow> ('k, 'v) btree" where
  "bt_push k v [] = [(k, [v])]"
| "bt_push k v ((j, vs) # m) =
     (if k < j then (k, [v]) # (j, vs) # m
      else if k = j then (j, vs @ [v]) # m
      else (j, vs) # bt_push k v m)"

text \<open>The part \<open>split_off(&k)\<close> returns: the entries at \<open>k\<close> and above.\<close>

definition bt_split_off :: "'k::linorder \<Rightarrow> ('k, 'v) btree \<Rightarrow> ('k, 'v) btree" where
  "bt_split_off k m = filter (\<lambda>(j, _). k \<le> j) m"

definition bt_values :: "('k, 'v) btree \<Rightarrow> 'v list list" where
  "bt_values m = map snd m"

lemma bt_push_keys: "fst ` set (bt_push k v m) = insert k (fst ` set m)"
  by (induction k v m rule: bt_push.induct) auto

lemma bt_wf_push: "bt_wf m \<Longrightarrow> bt_wf (bt_push k v m)"
proof (induction k v m rule: bt_push.induct)
  case (2 k v j vs m)
  from "2.prems" have wf: "bt_wf m" and above: "\<forall>i \<in> fst ` set m. j < i"
    by (auto simp: bt_wf_def)
  show ?case
  proof (cases "k < j \<or> k = j")
    case True
    with "2.prems" show ?thesis by (auto simp: bt_wf_def)
  next
    case False
    with "2.IH" wf have "bt_wf (bt_push k v m)" by auto
    moreover have "\<forall>i \<in> fst ` set (bt_push k v m). j < i"
      using above False by (auto simp: bt_push_keys)
    ultimately show ?thesis using False by (auto simp: bt_wf_def)
  qed
qed (simp add: bt_wf_def)

lemma bt_wf_split_off: "bt_wf m \<Longrightarrow> bt_wf (bt_split_off k m)"
proof (induction m)
  case (Cons p m)
  then show ?case by (auto simp: bt_wf_def bt_split_off_def)
qed (simp add: bt_wf_def bt_split_off_def)

lemma bt_push_items:
  "mset (concat (bt_values (bt_push k v m))) = add_mset v (mset (concat (bt_values m)))"
  by (induction k v m rule: bt_push.induct) (auto simp: bt_values_def)

lemma bt_push_entries:
  "(j, vs) \<in> set (bt_push k v m) \<Longrightarrow>
     (j, vs) \<in> set m \<or> j = k \<and> (vs = [v] \<or> (\<exists>us. (j, us) \<in> set m \<and> vs = us @ [v]))"
  by (induction k v m rule: bt_push.induct) (auto split: if_splits)

end
