(* ===== verification/Domain.thy ===== *)
theory Domain
  imports Collections
begin

text \<open>
  The data that the tracker receives from the crates it depends on (orders, outputs, logs,
  errors, system constants) and the environment it runs against. Everything that is not code
  of this repository is a field of the record \<open>env\<close>: the pure functions of dependencies
  (ABI decoding, Keccak, integer and duration conversions) and the queries whose answer comes
  from a node, the transaction cache or the clock. A query threads a world of an arbitrary
  type, so an answer may depend on every query made before it: a theorem that holds for all
  environments holds for every behaviour of the nodes, failures included.
\<close>

section \<open>Orders, outputs and logs\<close>

text \<open>\<open>RollupOrders::Output\<close>.\<close>

record ru_output =
  out_token :: address
  out_amount :: u256
  out_recipient :: address
  out_chain_id :: u32

record token_permission =
  tp_token :: address
  tp_amount :: u256

text \<open>
  \<open>SignedOrder\<close>, as far as the sources read it: \<open>order_hash()\<close>, \<open>permit().owner\<close>,
  \<open>permit().permit.permitted\<close>, \<open>permit().permit.deadline\<close> and \<open>outputs()\<close>.
\<close>

record signed_order =
  so_hash :: b256
  so_owner :: address
  so_permitted :: "token_permission list"
  so_deadline :: u256
  so_outputs :: "ru_output list"

text \<open>Which chain a transaction was observed on (\<open>order_status.rs\<close>).\<close>

datatype chain = Rollup | Host

record rpc_log =
  log_address :: address
  log_topics :: "b256 list"
  log_data :: "byte list"
  log_block_number :: "u64 option"
  log_transaction_hash :: "b256 option"
  log_removed :: bool

record log_filter =
  lf_address :: address
  lf_events :: "b256 list"
  lf_from_block :: "u64 option"
  lf_to_block :: "u64 option"

text \<open>An error of a dependency: what its \<open>Display\<close> prints and its \<open>source()\<close>.\<close>

datatype ext_error = Ext_Error (ext_message: string) (ext_source: "ext_error option")

record system_constants =
  c_ru_chain_id :: u64
  c_host_chain_id :: u64
  c_ru_orders :: address
  c_host_orders :: address
  c_ru_weth :: address
  c_ru_wbtc :: address
  c_host_weth :: address
  c_host_wbtc :: address
  c_host_usdc :: address
  c_host_usdt :: address

section \<open>The environment\<close>

record 'w env =
  e_constants :: system_constants
  e_permit2 :: address
  e_to_u64 :: "u256 \<Rightarrow> u64 option"
  e_from_nanos :: "int \<Rightarrow> int option"
  e_filled_sig :: b256
  e_order_sig :: b256
  e_decode_filled :: "address \<Rightarrow> b256 list \<Rightarrow> byte list \<Rightarrow> ext_error + ru_output list"
  e_decode_order :: "address \<Rightarrow> b256 list \<Rightarrow> byte list \<Rightarrow> ext_error + (u256 \<times> ru_output list)"
  e_abi_encode :: "ru_output list \<Rightarrow> byte list"
  e_keccak256 :: "byte list \<Rightarrow> b256"
  e_ne_bytes :: "u64 \<Rightarrow> byte list"
  e_hash_rank :: "'w \<Rightarrow> b256 \<Rightarrow> nat"
  q_clock :: "'w \<Rightarrow> int \<times> 'w"
  q_nonce_consumed :: "signed_order \<Rightarrow> 'w \<Rightarrow> (ext_error + bool) \<times> 'w"
  q_balance_of :: "chain \<Rightarrow> address \<Rightarrow> address \<Rightarrow> 'w \<Rightarrow> (ext_error + u256) \<times> 'w"
  q_allowance :: "chain \<Rightarrow> address \<Rightarrow> address \<Rightarrow> address \<Rightarrow> 'w \<Rightarrow> (ext_error + u256) \<times> 'w"
  q_symbol :: "chain \<Rightarrow> address \<Rightarrow> 'w \<Rightarrow> (ext_error + string) \<times> 'w"
  q_block_number :: "chain \<Rightarrow> 'w \<Rightarrow> (ext_error + u64) \<times> 'w"
  q_logs :: "chain \<Rightarrow> log_filter \<Rightarrow> 'w \<Rightarrow> (ext_error + rpc_log list) \<times> 'w"
  q_stream_orders :: "'w \<Rightarrow> (ext_error + signed_order) list \<times> 'w"

text \<open>
  Documented behaviour of two conversions, used as named hypotheses. \<open>Uint::to::<u64>\<close> is the
  identity on values below \<open>2^64\<close> and panics above; \<open>SignedDuration::from_nanos_i128\<close> keeps
  every duration whose whole seconds fit an \<open>i64\<close>.
\<close>

definition to_u64_checked :: "'w env \<Rightarrow> bool" where
  "to_u64_checked env \<longleftrightarrow>
     (\<forall>v. e_to_u64 env v = (if unat v < 2 ^ 64 then Some (ucast v) else None))"

definition from_nanos_checked :: "'w env \<Rightarrow> bool" where
  "from_nanos_checked env \<longleftrightarrow>
     (\<forall>n. e_from_nanos env n = (if \<bar>n\<bar> div 10 ^ 9 < 2 ^ 63 then Some n else None))"

lemma to_u64_checked_Some:
  "to_u64_checked env \<Longrightarrow> e_to_u64 env v = Some d \<longleftrightarrow> unat v < 2 ^ 64 \<and> d = ucast v"
  by (auto simp: to_u64_checked_def split: if_splits)

lemma to_u64_checked_None:
  "to_u64_checked env \<Longrightarrow> e_to_u64 env v = None \<longleftrightarrow> 2 ^ 64 \<le> unat v"
  by (auto simp: to_u64_checked_def split: if_splits)

lemma to_u64_checked_unat:
  "to_u64_checked env \<Longrightarrow> e_to_u64 env v = Some d \<Longrightarrow> unat d = unat v"
  by (auto simp: to_u64_checked_Some unsigned_ucast_eq take_bit_nat_def)

section \<open>A concrete environment\<close>

text \<open>
  The environment of the witnesses. Its world is a list of instants for the clock (the last
  one repeats); every query succeeds, no nonce is consumed, every balance and allowance is
  100, the rollup tip is block 500 and no log is found.
\<close>

definition demo_constants :: system_constants where
  "demo_constants = \<lparr>c_ru_chain_id = 519, c_host_chain_id = 1, c_ru_orders = 0xA1,
     c_host_orders = 0xA2, c_ru_weth = 0xB1, c_ru_wbtc = 0xB2, c_host_weth = 0xB3,
     c_host_wbtc = 0xB4, c_host_usdc = 0xB5, c_host_usdt = 0xB6\<rparr>"

fun demo_clock :: "int list \<Rightarrow> int \<times> int list" where
  "demo_clock [] = (0, [])"
| "demo_clock [t] = (t, [t])"
| "demo_clock (t # ts) = (t, ts)"

definition demo_env :: "int list env" where
  "demo_env = \<lparr>e_constants = demo_constants, e_permit2 = 0xCC,
     e_to_u64 = (\<lambda>v. if unat v < 2 ^ 64 then Some (ucast v) else None),
     e_from_nanos = (\<lambda>n. if \<bar>n\<bar> div 10 ^ 9 < 2 ^ 63 then Some n else None),
     e_filled_sig = 0xF1, e_order_sig = 0xF2,
     e_decode_filled = (\<lambda>_ ts _. if ts = [0xF1] then Inr [] else Inl (Ext_Error ''sig'' None)),
     e_decode_order = (\<lambda>_ ts _. if ts = [0xF2] then Inr (2000, []) else Inl (Ext_Error ''sig'' None)),
     e_abi_encode = map (\<lambda>x. ucast (out_amount x)),
     e_keccak256 = (\<lambda>bs. fold (\<lambda>b h. h * 256 + ucast b) bs 1),
     e_ne_bytes = (\<lambda>d. [ucast d]),
     e_hash_rank = (\<lambda>_ h. unat h),
     q_clock = demo_clock,
     q_nonce_consumed = (\<lambda>_ w. (Inr False, w)),
     q_balance_of = (\<lambda>_ _ _ w. (Inr 100, w)),
     q_allowance = (\<lambda>_ _ _ _ w. (Inr 100, w)),
     q_symbol = (\<lambda>_ _ w. (Inr ''SYM'', w)),
     q_block_number = (\<lambda>_ w. (Inr (500 - of_nat (length w)), tl w)),
     q_logs = (\<lambda>_ _ w. (Inr [], w)),
     q_stream_orders = (\<lambda>w. ([], w))\<rparr>"

definition demo_order :: "b256 \<Rightarrow> u256 \<Rightarrow> signed_order" where
  "demo_order h d = \<lparr>so_hash = h, so_owner = 7, so_permitted = [\<lparr>tp_token = 0xB1, tp_amount = 50\<rparr>],
     so_deadline = d, so_outputs = [\<lparr>out_token = 0xB3, out_amount = 9, out_recipient = 7, out_chain_id = 1\<rparr>]\<rparr>"

lemma demo_env_checked: "to_u64_checked demo_env" "from_nanos_checked demo_env"
  by (simp_all add: to_u64_checked_def from_nanos_checked_def demo_env_def)

end
