(* ===== verification/Status.thy ===== *)
theory Status
  imports Domain "HOL-Library.Product_Lexorder"
begin

text \<open>
  The output types of the library crate (\<open>order_status.rs\<close>, \<open>order_diagnostics.rs\<close>,
  \<open>amount.rs\<close>, \<open>timestamp.rs\<close>, \<open>pretty_duration.rs\<close>): the status of an order with the
  diagnostics of its pending and expired variants and the fill details of its filled one.
\<close>

section \<open>Wrapper types\<close>

datatype amount = Amount (amount_raw: u256)

datatype timestamp = Timestamp (as_secs: u64)

text \<open>A \<open>SignedDuration\<close> is its number of nanoseconds.\<close>

datatype pretty_duration = PrettyDuration (pd_nanos: int)

text \<open>The three derive \<open>PartialOrd\<close> and \<open>Ord\<close>: they are ordered as the value they wrap.\<close>

instantiation amount :: linorder
begin

definition less_eq_amount :: "amount \<Rightarrow> amount \<Rightarrow> bool" where
  "less_eq_amount a b \<longleftrightarrow> amount_raw a \<le> amount_raw b"

definition less_amount :: "amount \<Rightarrow> amount \<Rightarrow> bool" where
  "less_amount a b \<longleftrightarrow> amount_raw a < amount_raw b"

instance
  by standard (auto simp: less_eq_amount_def less_amount_def amount.expand)

end

instantiation timestamp :: linorder
begin

definition less_eq_timestamp :: "timestamp \<Rightarrow> timestamp \<Rightarrow> bool" where
  "less_eq_timestamp a b \<longleftrightarrow> as_secs a \<le> as_secs b"

definition less_timestamp :: "timestamp \<Rightarrow> timestamp \<Rightarrow> bool" where
  "less_timestamp a b \<longleftrightarrow> as_secs a < as_secs b"

instance
  by standard (auto simp: less_eq_timestamp_def less_timestamp_def timestamp.expand)

end

instantiation pretty_duration :: linorder
begin

definition less_eq_pretty_duration :: "pretty_duration \<Rightarrow> pretty_duration \<Rightarrow> bool" where
  "less_eq_pretty_duration a b \<longleftrightarrow> pd_nanos a \<le> pd_nanos b"

definition less_pretty_duration :: "pretty_duration \<Rightarrow> pretty_duration \<Rightarrow> bool" where
  "less_pretty_duration a b \<longleftrightarrow> pd_nanos a < pd_nanos b"

instance
  by standard (auto simp: less_eq_pretty_duration_def less_pretty_duration_def pretty_duration.expand)

end

text \<open>
  \<open>Duration::from_secs\<close> as a number of nanoseconds (below \<open>2^94\<close>, so the cast to \<open>i128\<close>
  keeps it), and \<open>PrettyDuration::new\<close>, which panics where the conversion does.
\<close>

definition duration_from_secs :: "u64 \<Rightarrow> nat" where
  "duration_from_secs s = unat s * 10 ^ 9"

definition pretty_duration_new :: "'w env \<Rightarrow> nat \<Rightarrow> pretty_duration option" where
  "pretty_duration_new env d = map_option PrettyDuration (e_from_nanos env (int d))"

section \<open>Diagnostics\<close>

datatype maybe_bool = MB_False | MB_True | MB_Unknown

definition maybe_bool_from :: "bool \<Rightarrow> maybe_bool" where
  "maybe_bool_from value = (if value then MB_True else MB_False)"

record deadline_check =
  dc_expires_in :: pretty_duration
  dc_deadline :: timestamp
  dc_checked_at :: timestamp

record allowance_check =
  ac_sufficient :: bool
  ac_token_contract :: address
  ac_token_symbol :: string
  ac_allowance :: amount
  ac_required :: amount

record allowance_checks =
  acs_all_sufficient :: maybe_bool
  acs_checked_at :: timestamp
  acs_checks :: "allowance_check list"

record balance_check =
  bc_sufficient :: bool
  bc_token_contract :: address
  bc_token_symbol :: string
  bc_balance :: amount
  bc_required :: amount

record balance_checks =
  bcs_all_sufficient :: maybe_bool
  bcs_checked_at :: timestamp
  bcs_checks :: "balance_check list"

record order_diagnostics =
  od_is_in_cache :: maybe_bool
  od_deadline_check :: deadline_check
  od_allowance_checks :: allowance_checks
  od_balance_checks :: balance_checks

section \<open>Order status\<close>

definition chain_as_str :: "chain \<Rightarrow> string" where
  "chain_as_str c = (case c of Rollup \<Rightarrow> ''rollup'' | Host \<Rightarrow> ''host'')"

record chain_transaction =
  ct_chain :: chain
  ct_tx_hash :: b256

record fill_output =
  fo_token_contract :: address
  fo_token_symbol :: string
  fo_amount :: amount
  fo_recipient :: address
  fo_chain :: chain

record fill_info =
  fi_block_number :: u64
  fi_rollup_initiation_tx :: "b256 option"
  fi_fill_tx :: "chain_transaction option"
  fi_outputs :: "fill_output list"

datatype order_status =
    Pending b256 address order_diagnostics
  | Filled b256 address "fill_info option"
  | Expired b256 address order_diagnostics

fun status_order_hash :: "order_status \<Rightarrow> b256" where
  "status_order_hash (Pending h _ _) = h"
| "status_order_hash (Filled h _ _) = h"
| "status_order_hash (Expired h _ _) = h"

fun status_owner :: "order_status \<Rightarrow> address" where
  "status_owner (Pending _ w _) = w"
| "status_owner (Filled _ w _) = w"
| "status_owner (Expired _ w _) = w"

fun is_terminal :: "order_status \<Rightarrow> bool" where
  "is_terminal (Filled _ _ _) = True"
| "is_terminal (Expired _ _ _) = True"
| "is_terminal (Pending _ _ _) = False"

text \<open>\<open>std::mem::discriminant\<close>.\<close>

datatype status_kind = K_Pending | K_Filled | K_Expired

fun discriminant :: "order_status \<Rightarrow> status_kind" where
  "discriminant (Pending _ _ _) = K_Pending"
| "discriminant (Filled _ _ _) = K_Filled"
| "discriminant (Expired _ _ _) = K_Expired"

fun is_pending :: "order_status \<Rightarrow> bool" where
  "is_pending (Pending _ _ _) = True"
| "is_pending (Filled _ _ _) = False"
| "is_pending (Expired _ _ _) = False"

lemma is_pending_not_terminal: "is_pending st \<longleftrightarrow> \<not> is_terminal st"
  by (cases st) auto

lemma discriminant_pending: "discriminant st = K_Pending \<longleftrightarrow> \<not> is_terminal st"
  by (cases st) auto

lemma discriminant_neq_terminal: "\<not> is_terminal st \<Longrightarrow> discriminant st \<noteq> discriminant st' \<longleftrightarrow> is_terminal st'"
  by (cases st; cases st') auto

end
