(* ===== verification/TokenSymbols.thy ===== *)
theory TokenSymbols
  imports Status
begin

text \<open>
  The token symbol cache (\<open>token_symbol_cache.rs\<close>): a map from addresses to symbols, seeded
  from the system constants and filled by \<open>symbol()\<close> calls; a failed call is cached as
  \<open>unknown\<close>. A tracker's mutable state is this cache and the world it queries.

  The lock of the cache is not held across the query, and the tracker of the HTTP service is
  shared by all requests (\<open>AppState::tracker\<close> in \<open>service.rs\<close>). A call of \<open>resolve\<close> is
  therefore given twice: as one operation, for a tracker that a single task uses (that of the
  state manager), and as its two steps, which several calls can interleave.
\<close>

type_synonym 'w tracker = "(address \<rightharpoonup> string) \<times> 'w"

definition unknown :: string where
  "unknown = ''unknown''"

definition token_symbols_new :: "system_constants \<Rightarrow> (address \<rightharpoonup> string)" where
  "token_symbols_new cs =
     Map.empty(c_ru_weth cs \<mapsto> ''WETH'', c_ru_wbtc cs \<mapsto> ''WBTC'',
       c_host_weth cs \<mapsto> ''WETH'', c_host_wbtc cs \<mapsto> ''WBTC'',
       c_host_usdc cs \<mapsto> ''USDC'', c_host_usdt cs \<mapsto> ''USDT'')"

definition token_resolve ::
  "'w env \<Rightarrow> chain \<Rightarrow> address \<Rightarrow> 'w tracker \<Rightarrow> string \<times> 'w tracker" where
  "token_resolve env provider a s =
     (case s of (cache, w) \<Rightarrow>
       (case cache a of
          Some cached \<Rightarrow> (cached, s)
        | None \<Rightarrow>
            (case q_symbol env provider a w of (r, w') \<Rightarrow>
               let symbol = (case r of Inr symbol \<Rightarrow> symbol | Inl _ \<Rightarrow> unknown)
               in (symbol, (cache(a \<mapsto> symbol), w')))))"

section \<open>Concurrent calls\<close>

text \<open>
  A call looks the token up and, when it is not there, queries its symbol; then it stores what
  the query gave and returns it. Between the two steps the lock is free.
\<close>

datatype resolving = Looking | Storing string | Resolved string

definition resolve_step ::
  "'w env \<Rightarrow> chain \<Rightarrow> address \<Rightarrow> resolving \<times> 'w tracker \<Rightarrow> resolving \<times> 'w tracker" where
  "resolve_step env provider a c =
     (case c of
        (Looking, (cache, w)) \<Rightarrow>
          (case cache a of
             Some cached \<Rightarrow> (Resolved cached, (cache, w))
           | None \<Rightarrow>
               (case q_symbol env provider a w of (r, w') \<Rightarrow>
                  (Storing (case r of Inr symbol \<Rightarrow> symbol | Inl _ \<Rightarrow> unknown), (cache, w'))))
      | (Storing symbol, (cache, w)) \<Rightarrow> (Resolved symbol, (cache(a \<mapsto> symbol), w))
      | (Resolved symbol, s) \<Rightarrow> (Resolved symbol, s))"

text \<open>Calls that share a cache, each with its provider and token; the schedule picks who goes on.\<close>

record resolve_call =
  rc_provider :: chain
  rc_token :: address
  rc_phase :: resolving

fun resolve_calls ::
  "'w env \<Rightarrow> nat list \<Rightarrow> resolve_call list \<times> 'w tracker \<Rightarrow> resolve_call list \<times> 'w tracker" where
  "resolve_calls env [] cs = cs"
| "resolve_calls env (i # schedule) (calls, s) =
     (if i < length calls
      then case resolve_step env (rc_provider (calls ! i)) (rc_token (calls ! i)) (rc_phase (calls ! i), s) of
          (phase, s') \<Rightarrow> resolve_calls env schedule (calls[i := (calls ! i)\<lparr>rc_phase := phase\<rparr>], s')
      else resolve_calls env schedule (calls, s))"

text \<open>Undisturbed, the two steps are the operation.\<close>

lemma resolve_steps:
  "token_resolve env provider a s = (symbol, s') \<Longrightarrow>
     resolve_step env provider a (resolve_step env provider a (Looking, s)) = (Resolved symbol, s')"
  by (cases s) (auto simp: token_resolve_def resolve_step_def Let_def split: option.splits prod.splits)

text \<open>
  What the interleaving keeps, with \<open>start\<close> the cache at the beginning: entries of \<open>start\<close> stay
  as they are, a call that stores has found no entry there, and what a call has returned is the
  entry of \<open>start\<close> if there is one, and otherwise some entry is there.
\<close>

definition call_ok :: "(address \<rightharpoonup> string) \<Rightarrow> (address \<rightharpoonup> string) \<Rightarrow> resolve_call \<Rightarrow> bool" where
  "call_ok start cache c =
     (case rc_phase c of
        Looking \<Rightarrow> True
      | Storing _ \<Rightarrow> start (rc_token c) = None
      | Resolved symbol \<Rightarrow> rc_token c \<in> dom cache \<and>
          (case start (rc_token c) of Some old \<Rightarrow> symbol = old | None \<Rightarrow> True))"

lemma call_ok_mono: "call_ok start cache c \<Longrightarrow> dom cache \<subseteq> dom cache' \<Longrightarrow> call_ok start cache' c"
  by (auto simp: call_ok_def split: resolving.splits)

lemma resolve_step_keeps:
  assumes "resolve_step env (rc_provider c) (rc_token c) (rc_phase c, s) = (phase, s')"
    and "start \<subseteq>\<^sub>m fst s" "call_ok start (fst s) c"
  shows "start \<subseteq>\<^sub>m fst s' \<and> dom (fst s) \<subseteq> dom (fst s') \<and> call_ok start (fst s') (c\<lparr>rc_phase := phase\<rparr>)"
proof (cases s)
  case (Pair cache w)
  show ?thesis
  proof (cases "rc_phase c")
    case Looking
    then show ?thesis using assms Pair
      by (auto simp: resolve_step_def call_ok_def map_le_def dom_def split: option.splits prod.splits)
  next
    case (Storing symbol)
    then show ?thesis using assms Pair by (auto simp: resolve_step_def call_ok_def map_le_def dom_def)
  next
    case (Resolved symbol)
    then have "phase = Resolved symbol" "s' = s" using assms(1) Pair by (auto simp: resolve_step_def)
    then show ?thesis using assms(2,3) Resolved by (simp add: call_ok_def)
  qed
qed

lemma resolve_calls_keep:
  assumes "resolve_calls env schedule (calls, s) = (calls', s')" "start \<subseteq>\<^sub>m fst s"
    and "list_all (call_ok start (fst s)) calls"
  shows "start \<subseteq>\<^sub>m fst s' \<and> dom (fst s) \<subseteq> dom (fst s') \<and> list_all (call_ok start (fst s')) calls'"
  using assms
proof (induction schedule arbitrary: calls s)
  case (Cons i schedule)
  show ?case
  proof (cases "i < length calls")
    case True
    let ?c = "calls ! i"
    obtain phase s1 where st: "resolve_step env (rc_provider ?c) (rc_token ?c) (rc_phase ?c, s) = (phase, s1)"
      by (rule prod.exhaust)
    from True Cons.prems(3) have "call_ok start (fst s) ?c" by (simp add: list_all_length)
    with resolve_step_keeps [OF st Cons.prems(2)] have keeps: "start \<subseteq>\<^sub>m fst s1" "dom (fst s) \<subseteq> dom (fst s1)"
      and ok: "call_ok start (fst s1) (?c\<lparr>rc_phase := phase\<rparr>)" by simp_all
    have "list_all (call_ok start (fst s1)) (calls[i := ?c\<lparr>rc_phase := phase\<rparr>])"
      using Cons.prems(3) keeps(2) ok True by (auto simp: list_all_length nth_list_update intro: call_ok_mono)
    from Cons.IH [OF _ keeps(1) this] Cons.prems(1) st True keeps(2) show ?thesis by auto
  qed (use Cons in simp)
qed auto

section \<open>The contract of a caching resolver\<close>

text \<open>Resolving several queries in order.\<close>

fun resolve_all :: "('q \<Rightarrow> 's \<Rightarrow> 'v \<times> 's) \<Rightarrow> 'q list \<Rightarrow> 's \<Rightarrow> 'v list \<times> 's" where
  "resolve_all r [] s = ([], s)"
| "resolve_all r (q # qs) s =
     (case r q s of (v, s') \<Rightarrow> case resolve_all r qs s' of (vs, s'') \<Rightarrow> (v # vs, s''))"

locale caching_resolver =
  fixes resolve :: "'q \<Rightarrow> 's \<Rightarrow> 'v \<times> 's"
    and known :: "'s \<Rightarrow> 'q \<Rightarrow> 'v option"
  assumes hit: "known s q = Some v \<Longrightarrow> resolve q s = (v, s)"
    and learns: "resolve q s = (v, s') \<Longrightarrow> known s' q = Some v"
    and keeps: "known s q = Some v \<Longrightarrow> resolve p s = (u, s') \<Longrightarrow> known s' q = Some v"
begin

lemma resolve_again: "resolve q s = (v, s') \<Longrightarrow> resolve q s' = (v, s')"
  by (blast intro: hit learns)

lemma resolve_all_keeps:
  "known s q = Some v \<Longrightarrow> resolve_all resolve qs s = (vs, s') \<Longrightarrow> known s' q = Some v"
  by (induction qs arbitrary: s vs) (auto split: prod.splits dest: keeps)

lemma resolve_all_known:
  "resolve_all resolve qs s = (vs, s') \<Longrightarrow> map (known s') qs = map Some vs"
proof (induction qs arbitrary: s vs)
  case (Cons q qs)
  from Cons.prems obtain v s1 vs' where
    r: "resolve q s = (v, s1)" and rs: "resolve_all resolve qs s1 = (vs', s')" and vs: "vs = v # vs'"
    by (auto split: prod.splits)
  from r have "known s1 q = Some v" by (rule learns)
  then have "known s' q = Some v" using rs by (rule resolve_all_keeps)
  moreover have "map (known s') qs = map Some vs'" using rs by (rule Cons.IH)
  ultimately show ?case using vs by simp
qed simp

lemma resolve_all_hits:
  "map (known s) qs = map Some vs \<Longrightarrow> resolve_all resolve qs s = (vs, s)"
  by (induction qs arbitrary: vs) (auto simp: hit)

lemma resolve_all_again:
  "resolve_all resolve qs s = (vs, s') \<Longrightarrow> resolve_all resolve qs s' = (vs, s')"
  by (blast intro: resolve_all_hits resolve_all_known)

end

definition token_known :: "'w tracker \<Rightarrow> address \<Rightarrow> string option" where
  "token_known s a = fst s a"

interpretation tok: caching_resolver "token_resolve env provider" token_known for env provider
  by unfold_locales
    (auto simp: token_resolve_def token_known_def Let_def split: option.splits prod.splits if_splits)

lemma token_resolve_miss:
  "cache a = None \<Longrightarrow> q_symbol env provider a w = (r, w') \<Longrightarrow>
   token_resolve env provider a (cache, w) =
     ((case r of Inr s \<Rightarrow> s | Inl _ \<Rightarrow> unknown),
      (cache(a \<mapsto> (case r of Inr s \<Rightarrow> s | Inl _ \<Rightarrow> unknown)), w'))"
  by (simp add: token_resolve_def Let_def)

text \<open>The seeds are never queried.\<close>

lemma token_symbols_new_dom:
  "dom (token_symbols_new cs) =
     {c_ru_weth cs, c_ru_wbtc cs, c_host_weth cs, c_host_wbtc cs, c_host_usdc cs, c_host_usdt cs}"
  by (auto simp: token_symbols_new_def)

section \<open>Properties\<close>

text \<open>
  In one task, a symbol is resolved once. After \<open>resolve\<close> has answered for a token, every later call
  for that token, through any provider, gives the same answer without a query and leaves the
  tracker's state as it is; and no call changes the symbol of a token that has one.
\<close>

theorem token_resolve_once:
  assumes "token_resolve env provider a s = (symbol, s')"
  shows "token_resolve env' provider' a s' = (symbol, s') \<and>
    (\<forall>b old. token_known s b = Some old \<longrightarrow> token_known s' b = Some old)"
  using tok.hit [OF tok.learns [OF assms]] tok.keeps [OF _ assms] by blast

theorem token_resolve_once_witness:
  "token_resolve demo_env Host 1 (Map.empty, []) = (''SYM'', (Map.empty(1 \<mapsto> ''SYM''), [])) \<and>
   token_resolve demo_env Rollup 1 (Map.empty(1 \<mapsto> ''SYM''), []) = (''SYM'', (Map.empty(1 \<mapsto> ''SYM''), []))"
proof -
  have "token_resolve demo_env Host 1 (Map.empty, []) = (''SYM'', (Map.empty(1 \<mapsto> ''SYM''), []))"
    by (simp add: token_resolve_def demo_env_def Let_def)
  with token_resolve_once [OF this, of demo_env Rollup] show ?thesis by blast
qed

text \<open>
  A failed lookup is remembered for both chains. The cache is keyed by the address alone, so
  when the symbol of an uncached token cannot be read through the host provider (which is the
  one used for all outputs of a fill), the token is \<open>unknown\<close> from then on also where it is
  read through the rollup provider, whatever that provider would answer.
\<close>

theorem symbol_failure_is_sticky:
  assumes "cache a = None" "q_symbol env Host a w = (Inl e, w')"
  shows "token_resolve env Rollup a (snd (token_resolve env Host a (cache, w))) =
    (unknown, (cache(a \<mapsto> unknown), w'))"
  using assms by (simp add: token_resolve_def)

theorem symbol_failure_is_sticky_witness:
  "\<exists>env :: unit env. fst (q_symbol env Rollup 1 ()) = Inr ''USDS'' \<and>
     token_resolve env Rollup 1 (snd (token_resolve env Host 1 (Map.empty, ()))) =
       (unknown, (Map.empty(1 \<mapsto> unknown), ()))"
proof -
  define env :: "unit env" where "env = undefined\<lparr>q_symbol := (\<lambda>provider _ w.
    (if provider = Host then Inl (Ext_Error ''no code'' None) else Inr ''USDS'', w))\<rparr>"
  have "token_resolve env Rollup 1 (snd (token_resolve env Host 1 (Map.empty, ()))) =
       (unknown, (Map.empty(1 \<mapsto> unknown), ()))"
    by (rule symbol_failure_is_sticky) (simp_all add: env_def)
  moreover have "fst (q_symbol env Rollup 1 ()) = Inr ''USDS''" by (simp add: env_def)
  ultimately show ?thesis by blast
qed

text \<open>
  C31: concurrent look-ups keep what is known. However calls of \<open>resolve\<close> for any tokens and
  through any providers interleave on one cache, an entry that was there before they began is
  never changed, and every call for that token returns it; no token that has an entry loses it;
  and a token that some call has resolved has one. (Among calls that all missed the token, the
  last one to store decides the entry, below.)
\<close>

theorem concurrent_resolve_keeps:
  assumes "resolve_calls env schedule (calls, s) = (calls', s')" and "\<forall>c \<in> set calls. rc_phase c = Looking"
  shows "(\<forall>a old. token_known s a = Some old \<longrightarrow> token_known s' a = Some old \<and>
      (\<forall>c \<in> set calls'. \<forall>symbol. rc_token c = a \<and> rc_phase c = Resolved symbol \<longrightarrow> symbol = old)) \<and>
    (\<forall>c \<in> set calls'. \<forall>symbol. rc_phase c = Resolved symbol \<longrightarrow> token_known s' (rc_token c) \<noteq> None)"
proof -
  have "list_all (call_ok (fst s) (fst s)) calls" using assms(2) by (auto simp: list_all_iff call_ok_def)
  from resolve_calls_keep [OF assms(1) _ this] have "fst s \<subseteq>\<^sub>m fst s'"
    and ok: "\<And>c. c \<in> set calls' \<Longrightarrow> call_ok (fst s) (fst s') c" by (auto simp: list_all_iff)
  then show ?thesis by (auto simp: token_known_def map_le_def dom_def call_ok_def dest!: ok)
qed

definition demo_call :: "address \<Rightarrow> resolve_call" where
  "demo_call a = \<lparr>rc_provider = Rollup, rc_token = a, rc_phase = Looking\<rparr>"

theorem concurrent_resolve_keeps_witness:
  "\<exists>calls' s'. resolve_calls demo_env [0, 1, 2, 1, 0] ([demo_call 1, demo_call 1, demo_call 2], ([2 \<mapsto> ''OLD''], [])) = (calls', s') \<and>
     map rc_phase calls' = [Resolved ''SYM'', Resolved ''SYM'', Resolved ''OLD''] \<and>
     token_known s' 2 = Some ''OLD''"
proof -
  let ?calls = "[demo_call 1, demo_call 1, demo_call 2]"
  obtain calls' s' where r: "resolve_calls demo_env [0, 1, 2, 1, 0] (?calls, ([2 \<mapsto> ''OLD''], [])) = (calls', s')"
    by (rule prod.exhaust)
  from r have phases: "map rc_phase calls' = [Resolved ''SYM'', Resolved ''SYM'', Resolved ''OLD'']"
    by (auto simp: resolve_step_def demo_call_def demo_env_def)
  have old: "token_known s' 2 = Some ''OLD''"
    using concurrent_resolve_keeps [OF r] by (auto simp: demo_call_def token_known_def)
  show ?thesis by (intro exI conjI) (fact r phases old)+
qed

text \<open>
  A late failure forgets a symbol. Two requests look up a token that is not cached; the query of
  the first gives its symbol and that of the second fails (a query per call, where one would
  do). When the second stores last, the token is \<open>unknown\<close> from then on, although its symbol had
  been read and cached.
\<close>

theorem late_failure_overwrites:
  assumes "cache a = None" and "q_symbol env p a w = (Inr symbol, w1)" and "q_symbol env q a w1 = (Inl e, w2)"
  shows "resolve_calls env [0, 1, 0, 1]
      ([\<lparr>rc_provider = p, rc_token = a, rc_phase = Looking\<rparr>, \<lparr>rc_provider = q, rc_token = a, rc_phase = Looking\<rparr>], (cache, w)) =
    ([\<lparr>rc_provider = p, rc_token = a, rc_phase = Resolved symbol\<rparr>, \<lparr>rc_provider = q, rc_token = a, rc_phase = Resolved unknown\<rparr>],
     (cache(a \<mapsto> unknown), w2))"
  using assms by (simp add: resolve_step_def)

theorem late_failure_overwrites_witness:
  "\<exists>env :: bool env. snd (resolve_calls env [0, 1, 0, 1] ([demo_call 1, demo_call 1], (Map.empty, True))) =
     (Map.empty(1 \<mapsto> unknown), False)"
proof -
  define env :: "bool env" where "env = undefined\<lparr>q_symbol := (\<lambda>_ _ ok.
    (if ok then Inr ''USDS'' else Inl (Ext_Error ''timed out'' None), False))\<rparr>"
  have "resolve_calls env [0, 1, 0, 1] ([demo_call 1, demo_call 1], (Map.empty, True)) =
      ([\<lparr>rc_provider = Rollup, rc_token = 1, rc_phase = Resolved ''USDS''\<rparr>,
        \<lparr>rc_provider = Rollup, rc_token = 1, rc_phase = Resolved unknown\<rparr>], (Map.empty(1 \<mapsto> unknown), False))"
    unfolding demo_call_def by (rule late_failure_overwrites [where ?w1.0 = False]) (simp_all add: env_def)
  then show ?thesis by (auto intro: exI [of _ env])
qed

end
