(* ===== verification/ErrorDisplay.thy ===== *)
theory ErrorDisplay
  imports Domain
begin

text \<open>
  The error type of the library crate (\<open>error.rs\<close>): its variants, its \<open>Display\<close> with the
  alternate form that appends the chain of causes, its \<open>source\<close> and its conversions. How a
  hash prints is a parameter.
\<close>

datatype tracker_error =
    OrderNotFound b256
  | NonceCheck ext_error
  | BalanceQuery ext_error
  | AllowanceQuery ext_error
  | FilledEventQuery ext_error
  | TxCacheFailed ext_error

fun error_source :: "tracker_error \<Rightarrow> ext_error option" where
  "error_source (OrderNotFound _) = None"
| "error_source (NonceCheck e) = Some e"
| "error_source (BalanceQuery e) = Some e"
| "error_source (AllowanceQuery e) = Some e"
| "error_source (FilledEventQuery e) = Some e"
| "error_source (TxCacheFailed e) = Some e"

fun error_head :: "(b256 \<Rightarrow> string) \<Rightarrow> tracker_error \<Rightarrow> string" where
  "error_head show (OrderNotFound h) = ''order '' @ show h @ '' not found in tx-cache''"
| "error_head show (NonceCheck _) = ''failed to check Permit2 nonce''"
| "error_head show (BalanceQuery _) = ''failed to query ERC-20 balance''"
| "error_head show (AllowanceQuery _) = ''failed to query ERC-20 allowance''"
| "error_head show (FilledEventQuery _) = ''failed to query Filled event logs''"
| "error_head show (TxCacheFailed _) = ''tx-cache request failed''"

text \<open>The loop \<open>while let Some(cause) = source\<close>.\<close>

fun write_causes :: "ext_error option \<Rightarrow> string" where
  "write_causes None = []"
| "write_causes (Some (Ext_Error m src)) = '': '' @ m @ write_causes src"

definition error_display :: "(b256 \<Rightarrow> string) \<Rightarrow> bool \<Rightarrow> tracker_error \<Rightarrow> string" where
  "error_display show alternate e =
     error_head show e @ (if alternate then write_causes (error_source e) else [])"

definition from_permit2_error :: "ext_error \<Rightarrow> tracker_error" where
  "from_permit2_error e = NonceCheck e"

definition from_rpc_error :: "ext_error \<Rightarrow> tracker_error" where
  "from_rpc_error e = FilledEventQuery e"

definition from_tx_cache_error :: "ext_error \<Rightarrow> tracker_error" where
  "from_tx_cache_error e = TxCacheFailed e"

text \<open>The messages of an error and of everything below it, outermost first.\<close>

fun cause_messages :: "ext_error option \<Rightarrow> string list" where
  "cause_messages None = []"
| "cause_messages (Some (Ext_Error m src)) = m # cause_messages src"

lemma write_causes_concat: "write_causes src = concat (map (\<lambda>m. '': '' @ m) (cause_messages src))"
  by (induction src rule: write_causes.induct) auto

lemma cause_messages_ne_Nil: "cause_messages src = [] \<longleftrightarrow> src = None"
  by (cases src rule: cause_messages.cases) auto

end
