(* ===== verification/FillSearch.thy ===== *)
theory FillSearch
  imports Status ErrorDisplay
begin

text \<open>
  The search for the events of an order (\<open>fill_search.rs\<close>): the ERC-20 queries, the scan of
  \<open>Filled\<close> and \<open>Order\<close> logs, and the comparison of a fill's outputs with those an order
  expects, which the server also uses on the events it receives.
\<close>

section \<open>Comparing outputs\<close>

definition same_output :: "ru_output \<Rightarrow> ru_output \<Rightarrow> bool" where
  "same_output fill expected \<longleftrightarrow>
     out_token fill = out_token expected \<and> out_amount fill = out_amount expected \<and>
     out_recipient fill = out_recipient expected"

text \<open>
  The closure of \<open>all\<close>: it looks for a fill output equal to the expected one among those
  still available and swap-removes it, so that no fill output serves twice.
\<close>

fun all_available :: "ru_output list \<Rightarrow> ru_output list \<Rightarrow> bool" where
  "all_available available [] = True"
| "all_available available (expected # rest) =
     (case position (\<lambda>fill. same_output fill expected) available of
        None \<Rightarrow> False
      | Some idx \<Rightarrow>
          (case swap_remove idx available of
             None \<Rightarrow> False
           | Some (_, available') \<Rightarrow> all_available available' rest))"

definition fill_outputs_are_superset_of_order_outputs ::
  "ru_output list \<Rightarrow> ru_output list \<Rightarrow> bool" where
  "fill_outputs_are_superset_of_order_outputs fill_outputs order_outputs =
     all_available fill_outputs order_outputs"

text \<open>What is compared of an output: everything but the chain.\<close>

definition output_key :: "ru_output \<Rightarrow> address \<times> u256 \<times> address" where
  "output_key x = (out_token x, out_amount x, out_recipient x)"

definition output_keys :: "ru_output list \<Rightarrow> (address \<times> u256 \<times> address) multiset" where
  "output_keys xs = image_mset output_key (mset xs)"

lemma same_output_key: "same_output f e \<longleftrightarrow> output_key f = output_key e"
  by (simp add: same_output_def output_key_def)

lemma output_keys_simps [simp]:
  "output_keys [] = {#}"
  "output_keys (x # xs) = add_mset (output_key x) (output_keys xs)"
  "output_keys (xs @ ys) = output_keys xs + output_keys ys"
  by (simp_all add: output_keys_def)

lemma output_keys_swap_remove:
  "swap_remove i xs = Some (x, ys) \<Longrightarrow> output_keys xs = add_mset (output_key x) (output_keys ys)"
  by (auto simp: output_keys_def dest: swap_remove_mset)

lemma all_available_subset:
  "all_available fills orders \<longleftrightarrow> output_keys orders \<subseteq># output_keys fills"
proof (induction orders arbitrary: fills)
  case (Cons e es)
  show ?case
  proof (cases "position (\<lambda>f. same_output f e) fills")
    case None
    then have "output_key e \<notin># output_keys fills"
      by (auto simp: position_None same_output_key output_keys_def)
    then show ?thesis using None by (auto dest: mset_subset_eq_insertD)
  next
    case (Some i)
    from position_Some [OF Some] have i: "i < length fills" and eq: "output_key (fills ! i) = output_key e"
      by (auto simp: same_output_key)
    then obtain rest where rem: "swap_remove i fills = Some (fills ! i, rest)"
      by (auto simp: swap_remove_def)
    then have "output_keys fills = add_mset (output_key e) (output_keys rest)"
      using eq by (auto dest: output_keys_swap_remove)
    then show ?thesis using Some rem Cons.IH [of rest] by simp
  qed
qed simp

text \<open>The contract of a cover test: what the callers rely on.\<close>

locale output_cover =
  fixes covers :: "'o list \<Rightarrow> 'o list \<Rightarrow> bool"
    and same :: "'o \<Rightarrow> 'o \<Rightarrow> bool"
  assumes covers_refl: "covers xs xs"
    and covers_trans: "covers xs ys \<Longrightarrow> covers ys zs \<Longrightarrow> covers xs zs"
    and covers_append: "covers xs ys \<Longrightarrow> covers xs' ys' \<Longrightarrow> covers (xs @ xs') (ys @ ys')"
    and covers_Nil: "covers xs []"
    and covers_perm: "mset xs = mset xs' \<Longrightarrow> covers xs ys \<longleftrightarrow> covers xs' ys"
    and covers_length: "covers xs ys \<Longrightarrow> length ys \<le> length xs"
    and covers_elem: "covers xs ys \<Longrightarrow> y \<in> set ys \<Longrightarrow> \<exists>x \<in> set xs. same x y"
begin

text \<open>A fill aggregates orders: more outputs never hurt, and a batch covers its parts.\<close>

lemma covers_extra: "covers xs ys \<Longrightarrow> covers (xs @ extra) ys"
  using covers_append [OF _ covers_Nil, of xs ys extra] by simp

lemma covers_batch_left: "covers xs (ys @ zs) \<Longrightarrow> covers xs ys"
proof -
  assume "covers xs (ys @ zs)"
  moreover have "covers (ys @ zs) ys" by (rule covers_extra [OF covers_refl])
  ultimately show ?thesis by (rule covers_trans)
qed

lemma covers_batch_right: "covers xs (ys @ zs) \<Longrightarrow> covers xs zs"
proof -
  assume "covers xs (ys @ zs)"
  moreover have "covers (ys @ zs) zs"
    using covers_append [OF covers_Nil covers_refl, of ys zs] by simp
  ultimately show ?thesis by (rule covers_trans)
qed

lemma covers_empty_fill: "covers [] ys \<longleftrightarrow> ys = []"
  using covers_length [of "[]" ys] covers_refl by (cases ys) auto

end

lemmas superset_iff = fill_outputs_are_superset_of_order_outputs_def all_available_subset

interpretation cover: output_cover fill_outputs_are_superset_of_order_outputs same_output
proof unfold_locales
  let ?c = fill_outputs_are_superset_of_order_outputs
  show "?c xs xs" for xs by (simp add: superset_iff)
  show "?c xs ys \<Longrightarrow> ?c ys zs \<Longrightarrow> ?c xs zs" for xs ys zs
    by (auto simp: superset_iff intro: subset_mset.trans)
  show "?c xs ys \<Longrightarrow> ?c xs' ys' \<Longrightarrow> ?c (xs @ xs') (ys @ ys')" for xs ys xs' ys'
    by (auto simp: superset_iff intro: subset_mset.add_mono)
  show "?c xs []" for xs by (simp add: superset_iff)
  show "mset xs = mset xs' \<Longrightarrow> ?c xs ys \<longleftrightarrow> ?c xs' ys" for xs xs' ys
    by (simp add: superset_iff output_keys_def)
  show "?c xs ys \<Longrightarrow> length ys \<le> length xs" for xs ys
    by (auto simp: superset_iff output_keys_def dest: size_mset_mono)
  show "\<exists>x \<in> set xs. same_output x y" if "?c xs ys" "y \<in> set ys" for xs ys y
  proof -
    have "output_key y \<in># output_keys ys" using that(2) by (simp add: output_keys_def)
    then have "output_key y \<in># output_keys xs"
      using that(1) by (auto simp: superset_iff dest: mset_subset_eqD)
    then show ?thesis by (auto simp: output_keys_def same_output_key)
  qed
qed

section \<open>ERC-20 queries\<close>

definition balance_of ::
  "'w env \<Rightarrow> chain \<Rightarrow> address \<Rightarrow> address \<Rightarrow> 'w \<Rightarrow> (tracker_error + u256) \<times> 'w" where
  "balance_of env provider token owner w =
     (case q_balance_of env provider token owner w of
        (Inl e, w') \<Rightarrow> (Inl (BalanceQuery e), w')
      | (Inr v, w') \<Rightarrow> (Inr v, w'))"

definition allowance ::
  "'w env \<Rightarrow> chain \<Rightarrow> address \<Rightarrow> address \<Rightarrow> address \<Rightarrow> 'w \<Rightarrow> (tracker_error + u256) \<times> 'w" where
  "allowance env provider token owner spender w =
     (case q_allowance env provider token owner spender w of
        (Inl e, w') \<Rightarrow> (Inl (AllowanceQuery e), w')
      | (Inr v, w') \<Rightarrow> (Inr v, w'))"

section \<open>Filled events\<close>

text \<open>The body of \<open>FillInfo\<close> a matching log gives; symbols are filled in later.\<close>

definition fill_info_of ::
  "chain \<Rightarrow> (u32 \<Rightarrow> chain) \<Rightarrow> u64 \<Rightarrow> b256 \<Rightarrow> ru_output list \<Rightarrow> fill_info" where
  "fill_info_of chain resolve_chain_id block_number tx_hash outputs =
     \<lparr>fi_block_number = block_number, fi_rollup_initiation_tx = None,
      fi_fill_tx = Some \<lparr>ct_chain = chain, ct_tx_hash = tx_hash\<rparr>,
      fi_outputs = map (\<lambda>x. \<lparr>fo_token_contract = out_token x, fo_token_symbol = [],
        fo_amount = Amount (out_amount x), fo_recipient = out_recipient x,
        fo_chain = resolve_chain_id (out_chain_id x)\<rparr>) outputs\<rparr>"

fun scan_filled_logs ::
  "'w env \<Rightarrow> signed_order \<Rightarrow> chain \<Rightarrow> (u32 \<Rightarrow> chain) \<Rightarrow> rpc_log list \<Rightarrow> fill_info option" where
  "scan_filled_logs env order chain resolve_chain_id [] = None"
| "scan_filled_logs env order chain resolve_chain_id (log # logs) =
     (case log_transaction_hash log of
        None \<Rightarrow> scan_filled_logs env order chain resolve_chain_id logs
      | Some tx_hash \<Rightarrow>
     (case log_block_number log of
        None \<Rightarrow> scan_filled_logs env order chain resolve_chain_id logs
      | Some block_number \<Rightarrow>
     (case e_decode_filled env (log_address log) (log_topics log) (log_data log) of
        Inl _ \<Rightarrow> scan_filled_logs env order chain resolve_chain_id logs
      | Inr outputs \<Rightarrow>
          if fill_outputs_are_superset_of_order_outputs outputs (so_outputs order)
          then Some (fill_info_of chain resolve_chain_id block_number tx_hash outputs)
          else scan_filled_logs env order chain resolve_chain_id logs)))"

definition filled_filter :: "'w env \<Rightarrow> address \<Rightarrow> u64 \<Rightarrow> u64 \<Rightarrow> log_filter" where
  "filled_filter env orders_contract from_block to_block =
     \<lparr>lf_address = orders_contract, lf_events = [e_filled_sig env],
      lf_from_block = Some from_block, lf_to_block = Some to_block\<rparr>"

definition find_fill_events ::
  "'w env \<Rightarrow> chain \<Rightarrow> signed_order \<Rightarrow> address \<Rightarrow> chain \<Rightarrow> (u32 \<Rightarrow> chain) \<Rightarrow> u64 \<times> u64 \<Rightarrow> 'w \<Rightarrow>
     (tracker_error + fill_info option) \<times> 'w" where
  "find_fill_events env provider order orders_contract chain resolve_chain_id block_range w =
     (case q_logs env provider (filled_filter env orders_contract (fst block_range) (snd block_range)) w of
        (Inl e, w') \<Rightarrow> (Inl (FilledEventQuery e), w')
      | (Inr logs, w') \<Rightarrow> (Inr (scan_filled_logs env order chain resolve_chain_id logs), w'))"

text \<open>
  What one log contributes on its own: the transaction, block and outputs of a mined log that
  decodes and covers the order.
\<close>

definition filled_match :: "'w env \<Rightarrow> signed_order \<Rightarrow> rpc_log \<Rightarrow> (u64 \<times> b256 \<times> ru_output list) option" where
  "filled_match env order log =
     (case (log_transaction_hash log, log_block_number log,
            e_decode_filled env (log_address log) (log_topics log) (log_data log)) of
        (Some tx_hash, Some block_number, Inr outputs) \<Rightarrow>
          if fill_outputs_are_superset_of_order_outputs outputs (so_outputs order)
          then Some (block_number, tx_hash, outputs) else None
      | _ \<Rightarrow> None)"

lemma scan_filled_logs_first_match:
  "scan_filled_logs env order chain res logs =
     map_option (\<lambda>(b, t, outs). fill_info_of chain res b t outs)
       (first_match (filled_match env order) logs)"
  by (induction logs) (auto simp: filled_match_def split: option.splits sum.splits)

lemma filled_match_Some:
  "filled_match env order log = Some (b, t, outs) \<longleftrightarrow>
     log_transaction_hash log = Some t \<and> log_block_number log = Some b \<and>
     e_decode_filled env (log_address log) (log_topics log) (log_data log) = Inr outs \<and>
     fill_outputs_are_superset_of_order_outputs outs (so_outputs order)"
  by (auto simp: filled_match_def split: option.splits sum.splits)

section \<open>Order events\<close>

record order_initiation =
  oi_block_number :: u64
  oi_tx_hash :: b256

fun scan_order_logs :: "'w env \<Rightarrow> u256 \<Rightarrow> rpc_log list \<Rightarrow> order_initiation option" where
  "scan_order_logs env deadline [] = None"
| "scan_order_logs env deadline (log # logs) =
     (case log_block_number log of
        None \<Rightarrow> scan_order_logs env deadline logs
      | Some block_number \<Rightarrow>
     (case log_transaction_hash log of
        None \<Rightarrow> scan_order_logs env deadline logs
      | Some tx_hash \<Rightarrow>
     (case e_decode_order env (log_address log) (log_topics log) (log_data log) of
        Inl _ \<Rightarrow> scan_order_logs env deadline logs
      | Inr decoded \<Rightarrow>
          if fst decoded = deadline
          then Some \<lparr>oi_block_number = block_number, oi_tx_hash = tx_hash\<rparr>
          else scan_order_logs env deadline logs)))"

definition initiation_filter :: "'w env \<Rightarrow> address \<Rightarrow> u64 \<Rightarrow> u64 \<Rightarrow> log_filter" where
  "initiation_filter env orders_contract from_block to_block =
     \<lparr>lf_address = orders_contract, lf_events = [e_order_sig env],
      lf_from_block = Some from_block, lf_to_block = Some to_block\<rparr>"

definition find_order_initiation ::
  "'w env \<Rightarrow> chain \<Rightarrow> signed_order \<Rightarrow> address \<Rightarrow> u64 \<times> u64 \<Rightarrow> 'w \<Rightarrow>
     (tracker_error + order_initiation option) \<times> 'w" where
  "find_order_initiation env provider order orders_contract block_range w =
     (case q_logs env provider (initiation_filter env orders_contract (fst block_range) (snd block_range)) w of
        (Inl e, w') \<Rightarrow> (Inl (FilledEventQuery e), w')
      | (Inr logs, w') \<Rightarrow> (Inr (scan_order_logs env (so_deadline order) logs), w'))"

definition order_match :: "'w env \<Rightarrow> u256 \<Rightarrow> rpc_log \<Rightarrow> order_initiation option" where
  "order_match env deadline log =
     (case (log_block_number log, log_transaction_hash log,
            e_decode_order env (log_address log) (log_topics log) (log_data log)) of
        (Some b, Some t, Inr decoded) \<Rightarrow>
          if fst decoded = deadline then Some \<lparr>oi_block_number = b, oi_tx_hash = t\<rparr> else None
      | _ \<Rightarrow> None)"

lemma scan_order_logs_first_match:
  "scan_order_logs env deadline logs = first_match (order_match env deadline) logs"
  by (induction logs) (auto simp: order_match_def split: option.splits sum.splits)

lemma order_match_Some:
  "order_match env deadline log = Some oi \<longleftrightarrow>
     log_block_number log = Some (oi_block_number oi) \<and>
     log_transaction_hash log = Some (oi_tx_hash oi) \<and>
     (\<exists>outs. e_decode_order env (log_address log) (log_topics log) (log_data log) = Inr (deadline, outs))"
  by (auto simp: order_match_def split: option.splits sum.splits)

section \<open>Properties\<close>

text \<open>
  C14: the comparison of outputs is multiset inclusion. A fill covers an order exactly when the
  order's outputs, each taken as token, amount and recipient, are a sub-multiset of the fill's:
  each fill output serves at most once, extra fill outputs and the chain id do not matter, and
  neither does the order of either list nor the position at which the search removes a match.
\<close>

theorem superset_is_multiset_inclusion:
  "fill_outputs_are_superset_of_order_outputs fill_outputs order_outputs \<longleftrightarrow>
     image_mset (\<lambda>x. (out_token x, out_amount x, out_recipient x)) (mset order_outputs) \<subseteq>#
     image_mset (\<lambda>x. (out_token x, out_amount x, out_recipient x)) (mset fill_outputs)"
proof -
  have "output_key = (\<lambda>x. (out_token x, out_amount x, out_recipient x))"
    by (simp add: fun_eq_iff output_key_def)
  then show ?thesis by (simp add: superset_iff output_keys_def)
qed

text \<open>
  Fills aggregate orders. A fill that covers the concatenated outputs of two orders covers
  each of them, and goes on covering them whatever further outputs it has; a fill with no
  outputs covers only orders with no outputs.
\<close>

theorem superset_of_batch:
  assumes "fill_outputs_are_superset_of_order_outputs fill (order1 @ order2)"
  shows "fill_outputs_are_superset_of_order_outputs (fill @ extra) order1 \<and>
    fill_outputs_are_superset_of_order_outputs (fill @ extra) order2 \<and>
    (fill = [] \<longrightarrow> order1 = [] \<and> order2 = [])"
proof (intro conjI impI)
  show "fill_outputs_are_superset_of_order_outputs (fill @ extra) order1"
    by (rule cover.covers_extra [OF cover.covers_batch_left [OF assms]])
  show "fill_outputs_are_superset_of_order_outputs (fill @ extra) order2"
    by (rule cover.covers_extra [OF cover.covers_batch_right [OF assms]])
  assume "fill = []"
  then have "order1 @ order2 = []" using assms by (simp only: cover.covers_empty_fill)
  then show "order1 = []" "order2 = []" by simp_all
qed

theorem superset_of_batch_witness:
  "\<exists>a b. out_amount a \<noteq> out_amount b \<and> fill_outputs_are_superset_of_order_outputs [b, a] ([a] @ [b]) \<and>
     fill_outputs_are_superset_of_order_outputs ([b, a] @ [a]) [b]"
proof -
  let ?a = "\<lparr>out_token = 1, out_amount = 5, out_recipient = 7, out_chain_id = 1\<rparr>"
  let ?b = "\<lparr>out_token = 1, out_amount = 6, out_recipient = 7, out_chain_id = 1\<rparr>"
  have "fill_outputs_are_superset_of_order_outputs [?b, ?a] ([?a] @ [?b])"
    by (simp add: fill_outputs_are_superset_of_order_outputs_def same_output_def swap_remove_def)
  moreover from superset_of_batch [OF this, of "[?a]"]
  have "fill_outputs_are_superset_of_order_outputs ([?b, ?a] @ [?a]) [?b]" by blast
  ultimately show ?thesis by (intro exI [of _ ?a] exI [of _ ?b]) simp
qed

text \<open>
  The scan of \<open>Filled\<close> logs returns the first match. A failed log query is returned as
  \<open>FilledEventQuery\<close>; otherwise the result is \<open>None\<close> exactly when no log of the answer is
  mined, decodable and covering, and else the details of the first log that is: its block, its
  transaction on the chain that was asked for, and its outputs in order, each on the chain its
  own chain id resolves to.
\<close>

theorem find_fill_events_first_match:
  "find_fill_events env provider order contract chain res (from_block, to_block) w =
     (case q_logs env provider \<lparr>lf_address = contract, lf_events = [e_filled_sig env],
         lf_from_block = Some from_block, lf_to_block = Some to_block\<rparr> w of
        (Inl e, w') \<Rightarrow> (Inl (FilledEventQuery e), w')
      | (Inr logs, w') \<Rightarrow>
          (Inr (case filter (\<lambda>log. filled_match env order log \<noteq> None) logs of
              [] \<Rightarrow> None
            | log # _ \<Rightarrow> (case filled_match env order log of
                Some (b, t, outs) \<Rightarrow> Some (fill_info_of chain res b t outs) | None \<Rightarrow> None)), w'))"
proof -
  have "map_option (\<lambda>(b, t, outs). fill_info_of chain res b t outs) (first_match (filled_match env order) logs) =
     (case filter (\<lambda>log. filled_match env order log \<noteq> None) logs of
        [] \<Rightarrow> None
      | log # _ \<Rightarrow> (case filled_match env order log of
          Some (b, t, outs) \<Rightarrow> Some (fill_info_of chain res b t outs) | None \<Rightarrow> None))" for logs
    by (induction logs) (auto split: option.splits)
  then show ?thesis
    by (simp add: find_fill_events_def filled_filter_def scan_filled_logs_first_match
        split: prod.split sum.split)
qed

end
