(* ===== verification/OrderTracker.thy ===== *)
theory OrderTracker
  imports TokenSymbols FillSearch
begin

text \<open>
  The order tracker (\<open>order_tracker.rs\<close>): one definition per method, in the order of the
  file. A method that may panic returns an option. The state \<open>'w tracker\<close> is the symbol cache
  and the world; the providers, the transaction cache and the constants are the environment.
\<close>

section \<open>Clock and deadline\<close>

text \<open>\<open>now_unix\<close>: panics when the system clock is before the epoch.\<close>

definition now_unix :: "'w env \<Rightarrow> 'w \<Rightarrow> (u64 \<times> 'w) option" where
  "now_unix env w =
     (case q_clock env w of (t, w') \<Rightarrow> if t < 0 then None else Some (word_of_int t, w'))"

definition check_deadline :: "'w env \<Rightarrow> signed_order \<Rightarrow> u64 \<Rightarrow> deadline_check option" where
  "check_deadline env order checked_at = do {
     deadline \<leftarrow> e_to_u64 env (so_deadline order);
     let expires_in = (if checked_at < deadline then duration_from_secs (deadline - checked_at) else 0);
     expires_in' \<leftarrow> pretty_duration_new env expires_in;
     Some \<lparr>dc_expires_in = expires_in', dc_deadline = Timestamp deadline,
       dc_checked_at = Timestamp checked_at\<rparr>
   }"

definition is_nonce_consumed ::
  "'w env \<Rightarrow> signed_order \<Rightarrow> 'w \<Rightarrow> (tracker_error + bool) \<times> 'w" where
  "is_nonce_consumed env order w =
     (case q_nonce_consumed env order w of
        (Inl e, w') \<Rightarrow> (Inl (NonceCheck e), w')
      | (Inr consumed, w') \<Rightarrow> (Inr consumed, w'))"

section \<open>Balances and allowances\<close>

fun balance_loop ::
  "'w env \<Rightarrow> address \<Rightarrow> token_permission list \<Rightarrow> maybe_bool \<Rightarrow> balance_check list \<Rightarrow> 'w tracker \<Rightarrow>
     maybe_bool \<times> balance_check list \<times> 'w tracker" where
  "balance_loop env owner [] all_sufficient checks s = (all_sufficient, checks, s)"
| "balance_loop env owner (permitted # rest) all_sufficient checks (cache, w) =
     (case balance_of env Rollup (tp_token permitted) owner w of
        (Inl _, w') \<Rightarrow> balance_loop env owner rest MB_Unknown checks (cache, w')
      | (Inr balance, w') \<Rightarrow>
          (case token_resolve env Rollup (tp_token permitted) (cache, w') of
             (token_symbol, s') \<Rightarrow>
               let sufficient = tp_amount permitted \<le> balance
               in balance_loop env owner rest
                    (if \<not> sufficient then MB_False else all_sufficient)
                    (checks @ [\<lparr>bc_sufficient = sufficient, bc_token_contract = tp_token permitted,
                       bc_token_symbol = token_symbol, bc_balance = Amount balance,
                       bc_required = Amount (tp_amount permitted)\<rparr>])
                    s'))"

definition check_balances ::
  "'w env \<Rightarrow> signed_order \<Rightarrow> timestamp \<Rightarrow> 'w tracker \<Rightarrow> balance_checks \<times> 'w tracker" where
  "check_balances env order checked_at s =
     (case balance_loop env (so_owner order) (so_permitted order) MB_True [] s of
        (all_sufficient, checks, s') \<Rightarrow>
          (\<lparr>bcs_all_sufficient = (if checks = [] then MB_Unknown else all_sufficient),
            bcs_checked_at = checked_at, bcs_checks = checks\<rparr>, s'))"

fun allowance_loop ::
  "'w env \<Rightarrow> address \<Rightarrow> token_permission list \<Rightarrow> maybe_bool \<Rightarrow> allowance_check list \<Rightarrow> 'w tracker \<Rightarrow>
     maybe_bool \<times> allowance_check list \<times> 'w tracker" where
  "allowance_loop env owner [] all_sufficient checks s = (all_sufficient, checks, s)"
| "allowance_loop env owner (permitted # rest) all_sufficient checks (cache, w) =
     (case allowance env Rollup (tp_token permitted) owner (e_permit2 env) w of
        (Inl _, w') \<Rightarrow> allowance_loop env owner rest MB_Unknown checks (cache, w')
      | (Inr allowance_amount, w') \<Rightarrow>
          (case token_resolve env Rollup (tp_token permitted) (cache, w') of
             (token_symbol, s') \<Rightarrow>
               let sufficient = tp_amount permitted \<le> allowance_amount
               in allowance_loop env owner rest
                    (if \<not> sufficient then MB_False else all_sufficient)
                    (checks @ [\<lparr>ac_sufficient = sufficient, ac_token_contract = tp_token permitted,
                       ac_token_symbol = token_symbol, ac_allowance = Amount allowance_amount,
                       ac_required = Amount (tp_amount permitted)\<rparr>])
                    s'))"

definition check_allowances ::
  "'w env \<Rightarrow> signed_order \<Rightarrow> timestamp \<Rightarrow> 'w tracker \<Rightarrow> allowance_checks \<times> 'w tracker" where
  "check_allowances env order checked_at s =
     (case allowance_loop env (so_owner order) (so_permitted order) MB_True [] s of
        (all_sufficient, checks, s') \<Rightarrow>
          (\<lparr>acs_all_sufficient = (if checks = [] then MB_Unknown else all_sufficient),
            acs_checked_at = checked_at, acs_checks = checks\<rparr>, s'))"

section \<open>Finding the fill\<close>

definition resolve_chain_id :: "'w env \<Rightarrow> u32 \<Rightarrow> chain" where
  "resolve_chain_id env chain_id =
     (let chain_id' = ucast chain_id :: u64
      in if chain_id' = c_host_chain_id (e_constants env) then Host
         else if chain_id' = c_ru_chain_id (e_constants env) then Rollup
         else Host)"

fun resolve_fill_output_symbols ::
  "'w env \<Rightarrow> fill_output list \<Rightarrow> 'w tracker \<Rightarrow> fill_output list \<times> 'w tracker" where
  "resolve_fill_output_symbols env [] s = ([], s)"
| "resolve_fill_output_symbols env (x # xs) s =
     (case token_resolve env Host (fo_token_contract x) s of (symbol, s') \<Rightarrow>
      case resolve_fill_output_symbols env xs s' of (xs', s'') \<Rightarrow>
        (x\<lparr>fo_token_symbol := symbol\<rparr> # xs', s''))"

text \<open>
  The two searches of \<open>join!\<close> make one query each, the rollup's first; both results are
  complete before either is looked at, and the argument of \<open>or\<close> is evaluated (and its
  error returned) whether or not the rollup had a fill.
\<close>

definition find_fill ::
  "'w env \<Rightarrow> signed_order \<Rightarrow> 'w tracker \<Rightarrow> (tracker_error + fill_info option) \<times> 'w tracker" where
  "find_fill env order s =
     (let cache = fst s;
          ru_orders = c_ru_orders (e_constants env);
          host_orders = c_host_orders (e_constants env)
      in case q_block_number env Rollup (snd s) of
           (Inl e, w1) \<Rightarrow> (Inl (FilledEventQuery e), (cache, w1))
         | (Inr ru_tip, w1) \<Rightarrow>
      (let ru_start = saturating_sub ru_tip 300
       in case find_order_initiation env Rollup order ru_orders (ru_start, ru_tip) w1 of
            (Inl e, w2) \<Rightarrow> (Inl e, (cache, w2))
          | (Inr None, w2) \<Rightarrow> (Inr None, (cache, w2))
          | (Inr (Some initiation), w2) \<Rightarrow>
      (let block = oi_block_number initiation
       in case find_fill_events env Rollup order ru_orders Rollup (resolve_chain_id env) (block, block) w2 of
            (ru_result, w3) \<Rightarrow>
          case find_fill_events env Host order host_orders Host (resolve_chain_id env) (block, block) w3 of
            (host_result, w4) \<Rightarrow>
      (case ru_result of
         Inl e \<Rightarrow> (Inl e, (cache, w4))
       | Inr ru_fill \<Rightarrow>
      (case host_result of
         Inl e \<Rightarrow> (Inl e, (cache, w4))
       | Inr host_fill \<Rightarrow>
      (case (case ru_fill of Some info \<Rightarrow> Some info | None \<Rightarrow> host_fill) of
         None \<Rightarrow> (Inr None, (cache, w4))
       | Some info \<Rightarrow>
          (case resolve_fill_output_symbols env (fi_outputs info) (cache, w4) of
             (outputs, s') \<Rightarrow>
               (Inr (Some (info\<lparr>fi_rollup_initiation_tx := Some (oi_tx_hash initiation),
                  fi_outputs := outputs\<rparr>)), s'))))))))"

section \<open>Order status\<close>

definition build_pending_unknown_nonce ::
  "'w env \<Rightarrow> b256 \<Rightarrow> address \<Rightarrow> maybe_bool \<Rightarrow> deadline_check \<Rightarrow> 'w \<Rightarrow> (order_status \<times> 'w) option" where
  "build_pending_unknown_nonce env order_hash owner is_in_cache deadline_check w = do {
     (now, w') \<leftarrow> now_unix env w;
     let now_ts = Timestamp now;
     Some (Pending order_hash owner
       \<lparr>od_is_in_cache = is_in_cache, od_deadline_check = deadline_check,
        od_allowance_checks =
          \<lparr>acs_all_sufficient = MB_Unknown, acs_checked_at = now_ts, acs_checks = []\<rparr>,
        od_balance_checks =
          \<lparr>bcs_all_sufficient = MB_Unknown, bcs_checked_at = now_ts, bcs_checks = []\<rparr>\<rparr>, w')
   }"

definition status_for_order ::
  "'w env \<Rightarrow> signed_order \<Rightarrow> bool \<Rightarrow> 'w tracker \<Rightarrow> (order_status \<times> 'w tracker) option" where
  "status_for_order env order is_in_cache s = do {
     let order_hash = so_hash order;
     let owner = so_owner order;
     (now, w1) \<leftarrow> now_unix env (snd s);
     deadline_check \<leftarrow> check_deadline env order now;
     let in_cache = maybe_bool_from is_in_cache;
     (case is_nonce_consumed env order w1 of
        (Inl _, w2) \<Rightarrow> do {
          (status, w3) \<leftarrow> build_pending_unknown_nonce env order_hash owner in_cache deadline_check w2;
          Some (status, (fst s, w3))
        }
      | (Inr True, w2) \<Rightarrow>
          (case find_fill env order (fst s, w2) of (result, s') \<Rightarrow>
             let fill_info = (case result of Inr info \<Rightarrow> info | Inl _ \<Rightarrow> None)
             in Some (Filled order_hash owner fill_info, s'))
      | (Inr False, w2) \<Rightarrow>
          (case check_balances env order (Timestamp now) (fst s, w2) of (balance_checks, s3) \<Rightarrow>
           case check_allowances env order (Timestamp now) s3 of (allowance_checks, s4) \<Rightarrow>
             let diagnostics = \<lparr>od_is_in_cache = in_cache, od_deadline_check = deadline_check,
                   od_allowance_checks = allowance_checks, od_balance_checks = balance_checks\<rparr>
             in Some (if as_secs (dc_deadline deadline_check) < now
                      then Expired order_hash owner diagnostics
                      else Pending order_hash owner diagnostics, s4)))
   }"

text \<open>
  \<open>filter_orders(..)\<close> and \<open>try_next()\<close> on the order stream: the first item that is an error
  or a matching order.
\<close>

fun try_next_order :: "(signed_order \<Rightarrow> bool) \<Rightarrow> (ext_error + signed_order) list \<Rightarrow>
    ext_error + signed_order option" where
  "try_next_order P [] = Inr None"
| "try_next_order P (Inl e # items) = Inl e"
| "try_next_order P (Inr order # items) =
     (if P order then Inr (Some order) else try_next_order P items)"

definition fetch_order :: "'w env \<Rightarrow> b256 \<Rightarrow> 'w \<Rightarrow> (tracker_error + signed_order) \<times> 'w" where
  "fetch_order env order_hash w =
     (case q_stream_orders env w of (items, w') \<Rightarrow>
        (case try_next_order (\<lambda>order. so_hash order = order_hash) items of
           Inl e \<Rightarrow> (Inl (TxCacheFailed e), w')
         | Inr None \<Rightarrow> (Inl (OrderNotFound order_hash), w')
         | Inr (Some order) \<Rightarrow> (Inr order, w')))"

definition status :: "'w env \<Rightarrow> b256 \<Rightarrow> 'w tracker \<Rightarrow>
    ((tracker_error + order_status) \<times> 'w tracker) option" where
  "status env order_hash s =
     (case fetch_order env order_hash (snd s) of
        (Inl e, w') \<Rightarrow> Some (Inl e, (fst s, w'))
      | (Inr order, w') \<Rightarrow>
          map_option (\<lambda>(st, s'). (Inr st, s')) (status_for_order env order True (fst s, w')))"

definition tracker_new :: "'w env \<Rightarrow> 'w \<Rightarrow> 'w tracker" where
  "tracker_new env w = (token_symbols_new (e_constants env), w)"

end
