(* ===== verification/OrderTrackerProps.thy ===== *)
theory OrderTrackerProps
  imports OrderTracker
begin

text \<open>
  Facts about the tracker's methods: the deadline check, the tri-state summary of the balance
  and allowance checks, the provenance of the fill information, and the decision table of the
  status.
\<close>

section \<open>Clock and deadline\<close>

lemma check_deadline_Some:
  "check_deadline env order now = Some dc \<longleftrightarrow>
     (\<exists>deadline d. e_to_u64 env (so_deadline order) = Some deadline \<and>
        e_from_nanos env (int (if now < deadline then duration_from_secs (deadline - now) else 0)) = Some d \<and>
        dc = \<lparr>dc_expires_in = PrettyDuration d, dc_deadline = Timestamp deadline,
              dc_checked_at = Timestamp now\<rparr>)"
  by (auto simp: check_deadline_def pretty_duration_new_def Let_def split: Option.bind_splits)

lemma expires_in_secs:
  "(if now < deadline then duration_from_secs (deadline - now) else 0) =
     (unat deadline - unat now) * 10 ^ 9"
  by (auto simp: duration_from_secs_def unat_sub_less word_less_nat_alt)

text \<open>An order is admissible when its deadline, as a number of seconds, fits an \<open>i64\<close>.\<close>

definition admissible :: "signed_order \<Rightarrow> bool" where
  "admissible order \<longleftrightarrow> unat (so_deadline order) < 2 ^ 63"

lemma check_deadline_admissible:
  assumes "to_u64_checked env" "from_nanos_checked env" "admissible order"
  shows "\<exists>dc. check_deadline env order now = Some dc \<and>
    unat (as_secs (dc_deadline dc)) = unat (so_deadline order) \<and>
    dc_checked_at dc = Timestamp now \<and>
    pd_nanos (dc_expires_in dc) = int ((unat (so_deadline order) - unat now) * 10 ^ 9)"
proof -
  let ?n = "(unat (so_deadline order) - unat now) * 10 ^ 9"
  from assms(1,3) have to: "e_to_u64 env (so_deadline order) = Some (ucast (so_deadline order))"
    by (auto simp: to_u64_checked_def admissible_def)
  then have u: "unat (ucast (so_deadline order) :: u64) = unat (so_deadline order)"
    using assms(1) by (auto dest: to_u64_checked_unat)
  have "\<bar>int ?n\<bar> div 10 ^ 9 = int (unat (so_deadline order) - unat now)" by simp
  also have "\<dots> < 2 ^ 63" using assms(3) by (simp add: admissible_def)
  finally have "e_from_nanos env (int ?n) = Some (int ?n)"
    using assms(2) by (simp add: from_nanos_checked_def)
  with to u show ?thesis by (simp add: check_deadline_Some expires_in_secs)
qed

section \<open>The tri-state summary\<close>

text \<open>
  Both loops over the permitted tokens have the same shape: query a token, and on success
  record a check. What one token contributes is an outcome: \<^term>\<open>None\<close> when its query
  failed, the check otherwise.
\<close>

fun check_loop ::
  "('p \<Rightarrow> 's \<Rightarrow> 'c option \<times> 's) \<Rightarrow> ('c \<Rightarrow> bool) \<Rightarrow> 'p list \<Rightarrow> maybe_bool \<Rightarrow> 'c list \<Rightarrow> 's \<Rightarrow>
     maybe_bool \<times> 'c list \<times> 's" where
  "check_loop query suff [] m cs s = (m, cs, s)"
| "check_loop query suff (p # ps) m cs s =
     (case query p s of
        (None, s') \<Rightarrow> check_loop query suff ps MB_Unknown cs s'
      | (Some c, s') \<Rightarrow> check_loop query suff ps (if suff c then m else MB_False) (cs @ [c]) s')"

fun flag_step :: "('c \<Rightarrow> bool) \<Rightarrow> 'c option \<Rightarrow> maybe_bool \<Rightarrow> maybe_bool" where
  "flag_step suff None m = MB_Unknown"
| "flag_step suff (Some c) m = (if suff c then m else MB_False)"

fun somes :: "'c option list \<Rightarrow> 'c list" where
  "somes [] = []"
| "somes (None # ocs) = somes ocs"
| "somes (Some c # ocs) = c # somes ocs"

lemma set_somes: "c \<in> set (somes ocs) \<longleftrightarrow> Some c \<in> set ocs"
  by (induction ocs rule: somes.induct) auto

lemma length_somes_le: "length (somes ocs) \<le> length ocs"
  by (induction ocs rule: somes.induct) auto

lemma somes_full: "None \<notin> set ocs \<Longrightarrow> map Some (somes ocs) = ocs"
  by (induction ocs rule: somes.induct) auto

lemma fold_flag_True:
  "fold (flag_step suff) ocs m = MB_True \<longleftrightarrow> (\<forall>oc \<in> set ocs. \<exists>c. oc = Some c \<and> suff c) \<and> m = MB_True"
proof (induction ocs arbitrary: m)
  case (Cons oc ocs)
  then show ?case by (cases oc) auto
qed simp

lemma fold_flag_False:
  "fold (flag_step suff) ocs m = MB_False \<Longrightarrow> m = MB_False \<or> (\<exists>c. Some c \<in> set ocs \<and> \<not> suff c)"
proof (induction ocs arbitrary: m)
  case (Cons oc ocs)
  from Cons.prems have "fold (flag_step suff) ocs (flag_step suff oc m) = MB_False" by simp
  from Cons.IH [OF this] show ?case by (cases oc) (auto split: if_splits)
qed simp

definition summary :: "('c \<Rightarrow> bool) \<Rightarrow> 'c option list \<Rightarrow> maybe_bool" where
  "summary suff ocs = (if somes ocs = [] then MB_Unknown else fold (flag_step suff) ocs MB_True)"

lemma summary_True:
  "summary suff ocs = MB_True \<longleftrightarrow> ocs \<noteq> [] \<and> (\<forall>oc \<in> set ocs. \<exists>c. oc = Some c \<and> suff c)"
proof -
  have "somes ocs \<noteq> []" if "ocs \<noteq> []" "\<forall>oc \<in> set ocs. \<exists>c. oc = Some c \<and> suff c"
    using that by (cases ocs) auto
  then show ?thesis by (auto simp: summary_def fold_flag_True)
qed

lemma summary_False: "summary suff ocs = MB_False \<Longrightarrow> \<exists>c \<in> set (somes ocs). \<not> suff c"
  by (auto simp: summary_def Bex_def set_somes dest!: fold_flag_False split: if_splits)

text \<open>The last failure or shortfall decides, whatever came before it.\<close>

lemma summary_last_failed: "summary suff (ocs @ [None]) = MB_Unknown"
  by (simp add: summary_def)

lemma summary_last_short: "\<not> suff c \<Longrightarrow> summary suff (ocs @ [Some c]) = MB_False"
proof -
  have "somes (ocs @ [Some c]) \<noteq> []"
    using set_somes [of c "ocs @ [Some c]"] by auto
  then show "\<not> suff c \<Longrightarrow> ?thesis" by (simp add: summary_def)
qed

lemma somes_length_full: "length (somes ocs) = length ocs \<Longrightarrow> map Some (somes ocs) = ocs"
proof (induction ocs rule: somes.induct)
  case (2 ocs)
  then show ?case using length_somes_le [of ocs] by simp
qed simp_all

lemma summary_True_all2:
  assumes l: "list_all2 (\<lambda>p oc. \<forall>c. oc = Some c \<longrightarrow> A p c) ps ocs"
  shows "summary suff ocs = MB_True \<longleftrightarrow>
    ps \<noteq> [] \<and> list_all2 (\<lambda>p c. A p c \<and> suff c) ps (somes ocs)"
proof
  assume "summary suff ocs = MB_True"
  then have ne: "ocs \<noteq> []" and all: "\<forall>oc \<in> set ocs. \<exists>c. oc = Some c \<and> suff c"
    by (simp_all add: summary_True)
  from all have "None \<notin> set ocs" by auto
  then have m: "map Some (somes ocs) = ocs" by (rule somes_full)
  have "list_all2 A ps (somes ocs)"
    using l by (subst (asm) m [symmetric]) (simp add: list_all2_map2)
  moreover have "\<forall>c \<in> set (somes ocs). suff c" using all by (auto simp: set_somes)
  ultimately have "list_all2 (\<lambda>p c. A p c \<and> suff c) ps (somes ocs)"
    by (auto simp: list_all2_conv_all_nth)
  moreover have "ps \<noteq> []" using ne l by auto
  ultimately show "ps \<noteq> [] \<and> list_all2 (\<lambda>p c. A p c \<and> suff c) ps (somes ocs)" by blast
next
  assume r: "ps \<noteq> [] \<and> list_all2 (\<lambda>p c. A p c \<and> suff c) ps (somes ocs)"
  then have "length (somes ocs) = length ocs"
    using l by (auto dest!: list_all2_lengthD)
  then have m: "map Some (somes ocs) = ocs" by (rule somes_length_full)
  have "\<exists>c. oc = Some c \<and> suff c" if "oc \<in> set ocs" for oc
  proof -
    from that have "oc \<in> set (map Some (somes ocs))" by (simp only: m)
    then obtain c where "oc = Some c" "c \<in> set (somes ocs)" by auto
    then show ?thesis using r by (auto simp: list_all2_conv_all_nth in_set_conv_nth)
  qed
  moreover have "ocs \<noteq> []" using r l by auto
  ultimately show "summary suff ocs = MB_True" by (simp add: summary_True)
qed

lemma somes_all2:
  "list_all2 (\<lambda>p oc. \<forall>c. oc = Some c \<longrightarrow> A p c) ps ocs \<Longrightarrow> c \<in> set (somes ocs) \<Longrightarrow> \<exists>p \<in> set ps. A p c"
  by (induction rule: list_all2_induct) (auto simp: set_somes)

lemma summary_False_all2:
  assumes "list_all2 (\<lambda>p oc. \<forall>c. oc = Some c \<longrightarrow> A p c) ps ocs" "summary suff ocs = MB_False"
  shows "\<exists>p \<in> set ps. \<exists>c \<in> set (somes ocs). A p c \<and> \<not> suff c"
proof -
  from summary_False [OF assms(2)] obtain c where c: "Some c \<in> set ocs" "\<not> suff c"
    by (auto simp: set_somes)
  then obtain i where "i < length ocs" "ocs ! i = Some c" by (auto simp: in_set_conv_nth)
  then have "ps ! i \<in> set ps" "A (ps ! i) c"
    using assms(1) by (auto simp: list_all2_conv_all_nth)
  then show ?thesis using c
    by (intro bexI [of _ "ps ! i"] bexI [of _ c]) (auto simp: set_somes)
qed

locale token_check =
  fixes query :: "'p \<Rightarrow> 's \<Rightarrow> 'c option \<times> 's"
    and suff :: "'c \<Rightarrow> bool"
    and about :: "'p \<Rightarrow> 'c \<Rightarrow> bool"
  assumes query_about: "query p s = (Some c, s') \<Longrightarrow> about p c"
begin

lemma check_loop_outcomes:
  "check_loop query suff ps m cs s = (m', cs', s') \<Longrightarrow>
     \<exists>ocs. list_all2 (\<lambda>p oc. \<forall>c. oc = Some c \<longrightarrow> about p c) ps ocs \<and>
       m' = fold (flag_step suff) ocs m \<and> cs' = cs @ somes ocs"
proof (induction ps arbitrary: m cs s)
  case (Cons p ps)
  obtain oc s1 where q: "query p s = (oc, s1)" by fastforce
  let ?m = "flag_step suff oc m" and ?cs = "cs @ somes [oc]"
  have "check_loop query suff ps ?m ?cs s1 = (m', cs', s')"
    using Cons.prems q by (cases oc) simp_all
  from Cons.IH [OF this] obtain ocs where
    "list_all2 (\<lambda>p oc. \<forall>c. oc = Some c \<longrightarrow> about p c) ps ocs"
    "m' = fold (flag_step suff) ocs ?m" "cs' = ?cs @ somes ocs" by blast
  then show ?case using q query_about
    by (intro exI [of _ "oc # ocs"]) (cases oc; simp)
qed simp

lemma check_loop_summary:
  assumes "check_loop query suff ps MB_True [] s = (m, cs, s')"
  shows "\<exists>ocs. list_all2 (\<lambda>p oc. \<forall>c. oc = Some c \<longrightarrow> about p c) ps ocs \<and> cs = somes ocs \<and>
    (if cs = [] then MB_Unknown else m) = summary suff ocs"
  using check_loop_outcomes [OF assms] by (auto simp: summary_def)

end

definition balance_query ::
  "'w env \<Rightarrow> address \<Rightarrow> token_permission \<Rightarrow> 'w tracker \<Rightarrow> balance_check option \<times> 'w tracker" where
  "balance_query env owner p s =
     (case balance_of env Rollup (tp_token p) owner (snd s) of
        (Inl _, w) \<Rightarrow> (None, (fst s, w))
      | (Inr v, w) \<Rightarrow> (case token_resolve env Rollup (tp_token p) (fst s, w) of (token_symbol, s') \<Rightarrow>
          (Some \<lparr>bc_sufficient = tp_amount p \<le> v, bc_token_contract = tp_token p,
             bc_token_symbol = token_symbol, bc_balance = Amount v, bc_required = Amount (tp_amount p)\<rparr>, s')))"

definition allowance_query ::
  "'w env \<Rightarrow> address \<Rightarrow> token_permission \<Rightarrow> 'w tracker \<Rightarrow> allowance_check option \<times> 'w tracker" where
  "allowance_query env owner p s =
     (case allowance env Rollup (tp_token p) owner (e_permit2 env) (snd s) of
        (Inl _, w) \<Rightarrow> (None, (fst s, w))
      | (Inr v, w) \<Rightarrow> (case token_resolve env Rollup (tp_token p) (fst s, w) of (token_symbol, s') \<Rightarrow>
          (Some \<lparr>ac_sufficient = tp_amount p \<le> v, ac_token_contract = tp_token p,
             ac_token_symbol = token_symbol, ac_allowance = Amount v, ac_required = Amount (tp_amount p)\<rparr>, s')))"

definition balance_about :: "'w env \<Rightarrow> address \<Rightarrow> token_permission \<Rightarrow> balance_check \<Rightarrow> bool" where
  "balance_about env owner p c \<longleftrightarrow> bc_token_contract c = tp_token p \<and> bc_required c = Amount (tp_amount p) \<and>
     (bc_sufficient c \<longleftrightarrow> bc_required c \<le> bc_balance c) \<and>
     (\<exists>v w w'. q_balance_of env Rollup (tp_token p) owner w = (Inr v, w') \<and> bc_balance c = Amount v)"

definition allowance_about :: "'w env \<Rightarrow> address \<Rightarrow> token_permission \<Rightarrow> allowance_check \<Rightarrow> bool" where
  "allowance_about env owner p c \<longleftrightarrow> ac_token_contract c = tp_token p \<and> ac_required c = Amount (tp_amount p) \<and>
     (ac_sufficient c \<longleftrightarrow> ac_required c \<le> ac_allowance c) \<and>
     (\<exists>v w w'. q_allowance env Rollup (tp_token p) owner (e_permit2 env) w = (Inr v, w') \<and> ac_allowance c = Amount v)"

interpretation bal: token_check "balance_query env owner" bc_sufficient "balance_about env owner" for env owner
  by unfold_locales
    (force simp: balance_of_def balance_query_def balance_about_def less_eq_amount_def split: prod.splits sum.splits)

interpretation alw: token_check "allowance_query env owner" ac_sufficient "allowance_about env owner" for env owner
  by unfold_locales
    (force simp: allowance_def allowance_query_def allowance_about_def less_eq_amount_def split: prod.splits sum.splits)

lemma balance_loop_check_loop:
  "balance_loop env owner ps m cs s = check_loop (balance_query env owner) bc_sufficient ps m cs s"
proof (induction ps arbitrary: m cs s)
  case (Cons p ps)
  then show ?case
    by (cases s) (auto simp: balance_query_def Let_def split: prod.split sum.split)
qed simp

lemma allowance_loop_check_loop:
  "allowance_loop env owner ps m cs s = check_loop (allowance_query env owner) ac_sufficient ps m cs s"
proof (induction ps arbitrary: m cs s)
  case (Cons p ps)
  then show ?case
    by (cases s) (auto simp: allowance_query_def Let_def split: prod.split sum.split)
qed simp

lemma check_balances_outcomes:
  assumes "check_balances env order t s = (r, s')"
  shows "\<exists>ocs. list_all2 (\<lambda>p oc. \<forall>c. oc = Some c \<longrightarrow> balance_about env (so_owner order) p c) (so_permitted order) ocs \<and>
    bcs_checks r = somes ocs \<and> bcs_all_sufficient r = summary bc_sufficient ocs \<and> bcs_checked_at r = t"
proof -
  obtain m cs s1 where l: "check_loop (balance_query env (so_owner order)) bc_sufficient
      (so_permitted order) MB_True [] s = (m, cs, s1)" by (metis prod_cases3)
  with assms have "bcs_checks r = cs" "bcs_checked_at r = t"
    "bcs_all_sufficient r = (if cs = [] then MB_Unknown else m)"
    by (auto simp: check_balances_def balance_loop_check_loop)
  moreover from bal.check_loop_summary [OF l] obtain ocs where
    "list_all2 (\<lambda>p oc. \<forall>c. oc = Some c \<longrightarrow> balance_about env (so_owner order) p c) (so_permitted order) ocs"
    "cs = somes ocs" "(if cs = [] then MB_Unknown else m) = summary bc_sufficient ocs" by blast
  ultimately show ?thesis by (intro exI [of _ ocs]) (simp only: simp_thms)
qed

lemma check_allowances_outcomes:
  assumes "check_allowances env order t s = (r, s')"
  shows "\<exists>ocs. list_all2 (\<lambda>p oc. \<forall>c. oc = Some c \<longrightarrow> allowance_about env (so_owner order) p c) (so_permitted order) ocs \<and>
    acs_checks r = somes ocs \<and> acs_all_sufficient r = summary ac_sufficient ocs \<and> acs_checked_at r = t"
proof -
  obtain m cs s1 where l: "check_loop (allowance_query env (so_owner order)) ac_sufficient
      (so_permitted order) MB_True [] s = (m, cs, s1)" by (metis prod_cases3)
  with assms have "acs_checks r = cs" "acs_checked_at r = t"
    "acs_all_sufficient r = (if cs = [] then MB_Unknown else m)"
    by (auto simp: check_allowances_def allowance_loop_check_loop)
  moreover from alw.check_loop_summary [OF l] obtain ocs where
    "list_all2 (\<lambda>p oc. \<forall>c. oc = Some c \<longrightarrow> allowance_about env (so_owner order) p c) (so_permitted order) ocs"
    "cs = somes ocs" "(if cs = [] then MB_Unknown else m) = summary ac_sufficient ocs" by blast
  ultimately show ?thesis by (intro exI [of _ ocs]) (simp only: simp_thms)
qed

section \<open>Provenance of the fill information\<close>

lemma resolve_fill_output_symbols_all:
  "resolve_fill_output_symbols env xs s =
     (case resolve_all (token_resolve env Host) (map fo_token_contract xs) s of
        (symbols, s') \<Rightarrow> (map2 (\<lambda>x symbol. x\<lparr>fo_token_symbol := symbol\<rparr>) xs symbols, s'))"
  by (induction xs arbitrary: s) (auto split: prod.splits)

lemma resolve_fill_output_symbols_known:
  assumes "resolve_fill_output_symbols env xs s = (ys, s')"
  shows "map (\<lambda>y. token_known s' (fo_token_contract y)) ys = map (\<lambda>y. Some (fo_token_symbol y)) ys"
    and "map (fo_token_symbol_update (\<lambda>_. [])) ys = map (fo_token_symbol_update (\<lambda>_. [])) xs"
proof -
  obtain symbols where r: "resolve_all (token_resolve env Host) (map fo_token_contract xs) s = (symbols, s')"
    and ys: "ys = map2 (\<lambda>x symbol. x\<lparr>fo_token_symbol := symbol\<rparr>) xs symbols"
    using assms by (auto simp: resolve_fill_output_symbols_all split: prod.splits)
  from tok.resolve_all_known [OF r]
  have k: "map (\<lambda>x. token_known s' (fo_token_contract x)) xs = map Some symbols"
    by (simp add: comp_def)
  have "length xs = length symbols" using k by (metis length_map)
  then show "map (\<lambda>y. token_known s' (fo_token_contract y)) ys = map (\<lambda>y. Some (fo_token_symbol y)) ys"
    "map (fo_token_symbol_update (\<lambda>_. [])) ys = map (fo_token_symbol_update (\<lambda>_. [])) xs"
    using k unfolding ys by (induction xs symbols rule: list_induct2) auto
qed

lemma find_fill_events_Inr:
  "find_fill_events env provider order contract chain res rng w = (Inr fill, w') \<longleftrightarrow>
     (\<exists>logs. q_logs env provider (filled_filter env contract (fst rng) (snd rng)) w = (Inr logs, w') \<and>
        fill = map_option (\<lambda>(b, t, outs). fill_info_of chain res b t outs)
          (first_match (filled_match env order) logs))"
  by (auto simp: find_fill_events_def scan_filled_logs_first_match split: prod.splits sum.splits)

lemma find_order_initiation_Inr:
  "find_order_initiation env provider order contract rng w = (Inr found, w') \<longleftrightarrow>
     (\<exists>logs. q_logs env provider (initiation_filter env contract (fst rng) (snd rng)) w = (Inr logs, w') \<and>
        found = first_match (order_match env (so_deadline order)) logs)"
  by (auto simp: find_order_initiation_def scan_order_logs_first_match split: prod.splits sum.splits)

text \<open>The three queries behind a located fill, in the order they are made.\<close>

lemma find_fill_Some:
  assumes "find_fill env order (cache, w) = (Inr (Some info), s')"
  shows "\<exists>tip w1 initiation w2 ru_fill w3 host_fill w4 found outputs.
    q_block_number env Rollup w = (Inr tip, w1) \<and>
    find_order_initiation env Rollup order (c_ru_orders (e_constants env))
      (saturating_sub tip 300, tip) w1 = (Inr (Some initiation), w2) \<and>
    find_fill_events env Rollup order (c_ru_orders (e_constants env)) Rollup (resolve_chain_id env)
      (oi_block_number initiation, oi_block_number initiation) w2 = (Inr ru_fill, w3) \<and>
    find_fill_events env Host order (c_host_orders (e_constants env)) Host (resolve_chain_id env)
      (oi_block_number initiation, oi_block_number initiation) w3 = (Inr host_fill, w4) \<and>
    (ru_fill = Some found \<or> ru_fill = None \<and> host_fill = Some found) \<and>
    resolve_fill_output_symbols env (fi_outputs found) (cache, w4) = (outputs, s') \<and>
    info = found\<lparr>fi_rollup_initiation_tx := Some (oi_tx_hash initiation), fi_outputs := outputs\<rparr>"
  using assms unfolding find_fill_def Let_def fst_conv snd_conv
  by (simp split: prod.splits sum.splits option.splits)

lemma find_fill_deadline_None:
  assumes "q_block_number env Rollup w = (Inr tip, w1)"
    and "find_order_initiation env Rollup order (c_ru_orders (e_constants env))
      (saturating_sub tip 300, tip) w1 = (Inr None, w2)"
  shows "find_fill env order (cache, w) = (Inr None, (cache, w2))"
  using assms by (simp add: find_fill_def Let_def)

section \<open>The decision table of the status\<close>

lemma now_unix_Some:
  "now_unix env w = Some (now, w') \<longleftrightarrow>
     (\<exists>t. q_clock env w = (t, w') \<and> 0 \<le> t \<and> now = word_of_int t)"
  by (auto simp: now_unix_def split: prod.splits if_splits)

lemma is_nonce_consumed_cases:
  "is_nonce_consumed env order w =
     (case q_nonce_consumed env order w of (r, w') \<Rightarrow> (map_sum NonceCheck id r, w'))"
  by (auto simp: is_nonce_consumed_def split: prod.splits sum.splits)

text \<open>Everything \<open>status_for_order\<close> can return, by the answer of the nonce query.\<close>

lemma status_for_order_cases:
  assumes "status_for_order env order in_cache s = Some (st, s')"
  obtains (unknown) now w1 dc e w2 now2 w3 where
      "now_unix env (snd s) = Some (now, w1)" "check_deadline env order now = Some dc"
      "q_nonce_consumed env order w1 = (Inl e, w2)" "now_unix env w2 = Some (now2, w3)"
      "st = Pending (so_hash order) (so_owner order)
        \<lparr>od_is_in_cache = maybe_bool_from in_cache, od_deadline_check = dc,
         od_allowance_checks = \<lparr>acs_all_sufficient = MB_Unknown, acs_checked_at = Timestamp now2, acs_checks = []\<rparr>,
         od_balance_checks = \<lparr>bcs_all_sufficient = MB_Unknown, bcs_checked_at = Timestamp now2, bcs_checks = []\<rparr>\<rparr>"
      "s' = (fst s, w3)"
  | (consumed) now w1 dc w2 result where
      "now_unix env (snd s) = Some (now, w1)" "check_deadline env order now = Some dc"
      "q_nonce_consumed env order w1 = (Inr True, w2)"
      "find_fill env order (fst s, w2) = (result, s')"
      "st = Filled (so_hash order) (so_owner order) (case result of Inr info \<Rightarrow> info | Inl _ \<Rightarrow> None)"
  | (unconsumed) now w1 dc w2 bcs s3 acs where
      "now_unix env (snd s) = Some (now, w1)" "check_deadline env order now = Some dc"
      "q_nonce_consumed env order w1 = (Inr False, w2)"
      "check_balances env order (Timestamp now) (fst s, w2) = (bcs, s3)"
      "check_allowances env order (Timestamp now) s3 = (acs, s')"
      "st = (if as_secs (dc_deadline dc) < now then Expired else Pending) (so_hash order) (so_owner order)
        \<lparr>od_is_in_cache = maybe_bool_from in_cache, od_deadline_check = dc,
         od_allowance_checks = acs, od_balance_checks = bcs\<rparr>"
proof -
  from assms obtain now w1 dc where n: "now_unix env (snd s) = Some (now, w1)"
    and d: "check_deadline env order now = Some dc"
    by (auto simp: status_for_order_def Let_def split: Option.bind_splits prod.splits)
  obtain r w2 where q: "q_nonce_consumed env order w1 = (r, w2)" by fastforce
  note step = status_for_order_def Let_def n d is_nonce_consumed_cases q
  show thesis
  proof (cases r)
    case (Inl e)
    with assms obtain now2 w3 where "now_unix env w2 = Some (now2, w3)"
      "st = Pending (so_hash order) (so_owner order)
        \<lparr>od_is_in_cache = maybe_bool_from in_cache, od_deadline_check = dc,
         od_allowance_checks = \<lparr>acs_all_sufficient = MB_Unknown, acs_checked_at = Timestamp now2, acs_checks = []\<rparr>,
         od_balance_checks = \<lparr>bcs_all_sufficient = MB_Unknown, bcs_checked_at = Timestamp now2, bcs_checks = []\<rparr>\<rparr>"
      "s' = (fst s, w3)"
      by (auto simp: step build_pending_unknown_nonce_def split: Option.bind_splits)
    then show thesis using unknown n d q Inl by blast
  next
    case (Inr c)
    show thesis
    proof (cases c)
      case True
      obtain result s1 where f: "find_fill env order (fst s, w2) = (result, s1)" by (rule prod.exhaust)
      show thesis
        by (rule consumed [OF n d]) (use assms Inr True f q in \<open>auto simp: step\<close>)
    next
      case False
      obtain bcs s3 where b: "check_balances env order (Timestamp now) (fst s, w2) = (bcs, s3)" by (rule prod.exhaust)
      obtain acs s4 where a: "check_allowances env order (Timestamp now) s3 = (acs, s4)" by (rule prod.exhaust)
      show thesis
        by (rule unconsumed [OF n d _ b]) (use assms Inr False q a b in \<open>auto simp: step\<close>)
    qed
  qed
qed

text \<open>The status is about the order it was computed for.\<close>

lemma status_for_order_identity:
  "status_for_order env order in_cache s = Some (st, s') \<Longrightarrow>
     status_order_hash st = so_hash order \<and> status_owner st = so_owner order"
  by (erule status_for_order_cases) (auto split: if_splits)

text \<open>A clock that never runs before the epoch.\<close>

definition clock_after_epoch :: "'w env \<Rightarrow> bool" where
  "clock_after_epoch env \<longleftrightarrow> (\<forall>w. 0 \<le> fst (q_clock env w))"

lemma now_unix_total: "clock_after_epoch env \<Longrightarrow> \<exists>now w'. now_unix env w = Some (now, w')"
  using spec [of "\<lambda>w. 0 \<le> fst (q_clock env w)" w]
  by (cases "q_clock env w") (auto simp: now_unix_def clock_after_epoch_def)

lemma status_for_order_total:
  assumes "to_u64_checked env" "from_nanos_checked env" "clock_after_epoch env" "admissible order"
  shows "\<exists>st s'. status_for_order env order in_cache s = Some (st, s')"
proof -
  obtain now w1 where n: "now_unix env (snd s) = Some (now, w1)"
    using now_unix_total [OF assms(3)] by blast
  obtain dc where d: "check_deadline env order now = Some dc"
    using check_deadline_admissible [OF assms(1,2,4)] by blast
  obtain r w2 where q: "q_nonce_consumed env order w1 = (r, w2)" by fastforce
  obtain now2 w3 where "now_unix env w2 = Some (now2, w3)"
    using now_unix_total [OF assms(3)] by blast
  then show ?thesis
    by (cases r) (auto simp: status_for_order_def Let_def n d is_nonce_consumed_cases q
        build_pending_unknown_nonce_def split: bool.split prod.split)
qed

section \<open>Properties\<close>

text \<open>
  C15: the decision table of \<open>status_for_order\<close>. When it returns, the status carries the
  hash and the owner of the order it was asked about; it is \<open>Filled\<close> exactly when the nonce
  query answered that the nonce is consumed, \<open>Expired\<close> exactly when the nonce is known to be
  unconsumed and the deadline lies before the instant read at the start, and \<open>Pending\<close>
  otherwise: with the deadline not passed, or with the nonce query failed (then whatever the
  deadline).
\<close>

theorem status_decision:
  assumes "status_for_order env order in_cache s = Some (st, s')"
  shows "status_order_hash st = so_hash order \<and> status_owner st = so_owner order \<and>
    (\<exists>now w1 dc. now_unix env (snd s) = Some (now, w1) \<and> check_deadline env order now = Some dc \<and>
      discriminant st =
        (case fst (q_nonce_consumed env order w1) of
           Inl _ \<Rightarrow> K_Pending
         | Inr True \<Rightarrow> K_Filled
         | Inr False \<Rightarrow> if as_secs (dc_deadline dc) < now then K_Expired else K_Pending))"
  using assms by (rule status_for_order_cases) auto

theorem status_decision_witness:
  "\<exists>st s'. status_for_order demo_env (demo_order 5 2000) True (tracker_new demo_env [1000]) = Some (st, s')
     \<and> status_order_hash st = 5"
proof -
  have "now_unix demo_env [1000] = Some (1000, [1000])"
    by (simp add: now_unix_def demo_env_def)
  then have "\<exists>st s'. status_for_order demo_env (demo_order 5 2000) True (tracker_new demo_env [1000]) = Some (st, s')"
    by (simp add: status_for_order_def tracker_new_def check_deadline_def pretty_duration_new_def
        is_nonce_consumed_def demo_env_def demo_order_def duration_from_secs_def split: prod.split)
  then show ?thesis using status_decision by (fastforce simp: demo_order_def)
qed

text \<open>
  C19: \<open>status_for_order\<close> always answers, whatever the nodes answer or fail to answer, for an
  order whose deadline fits a signed 64-bit number of seconds and a clock that is not before
  the epoch, given the documented conversions of the integer and duration crates: no failed
  query, missing log or undecodable event makes it panic.
\<close>

theorem status_never_panics:
  assumes "to_u64_checked env" "from_nanos_checked env" "clock_after_epoch env"
    and "unat (so_deadline order) < 2 ^ 63"
  shows "status_for_order env order in_cache s \<noteq> None"
  using status_for_order_total [OF assms(1-3), of order in_cache s] assms(4)
  by (auto simp: admissible_def)

theorem status_never_panics_witness:
  "status_for_order (demo_env\<lparr>q_clock := \<lambda>w. (1000, w)\<rparr>) (demo_order 5 2000) True
     (tracker_new demo_env []) \<noteq> None"
  by (rule status_never_panics)
    (simp_all add: to_u64_checked_def from_nanos_checked_def clock_after_epoch_def demo_env_def demo_order_def)

text \<open>
  An order whose deadline does not fit 64 bits makes \<open>status_for_order\<close> panic in the
  conversion of the deadline, before any query about the order is made.
\<close>

theorem status_panics_on_wide_deadline:
  assumes "to_u64_checked env" "2 ^ 64 \<le> unat (so_deadline order)"
  shows "status_for_order env order in_cache s = None"
proof -
  have "e_to_u64 env (so_deadline order) = None"
    using assms by (simp only: to_u64_checked_None)
  then have "check_deadline env order now = None" for now
    by (simp add: check_deadline_def)
  then show ?thesis by (auto simp: status_for_order_def Let_def split: Option.bind_splits)
qed

theorem status_panics_on_wide_deadline_witness:
  "status_for_order demo_env (demo_order 5 (- 1)) True (tracker_new demo_env [1000]) = None"
  by (rule status_panics_on_wide_deadline) (simp_all add: demo_env_checked demo_order_def unsigned_minus_1_eq_mask mask_eq_exp_minus_1)

text \<open>
  C30: the deadline check of an admissible order is exact: it reports the order's own deadline
  and the instant of the check, and the time left is the difference in whole seconds, zero from
  the deadline on; the subtraction never wraps.
\<close>

theorem check_deadline_exact:
  assumes "to_u64_checked env" "from_nanos_checked env" "unat (so_deadline order) < 2 ^ 63"
  shows "\<exists>dc. check_deadline env order now = Some dc \<and>
    unat (as_secs (dc_deadline dc)) = unat (so_deadline order) \<and> dc_checked_at dc = Timestamp now \<and>
    pd_nanos (dc_expires_in dc) = int ((unat (so_deadline order) - unat now) * 10 ^ 9)"
  using check_deadline_admissible [OF assms(1,2)] assms(3) by (simp add: admissible_def)

theorem check_deadline_exact_witness:
  "\<exists>dc. check_deadline demo_env (demo_order 5 2000) 1400 = Some dc \<and> pd_nanos (dc_expires_in dc) = 600000000000"
  using check_deadline_exact [OF demo_env_checked, of "demo_order 5 2000" 1400]
  by (auto simp: demo_order_def)

text \<open>
  C20: the balance report is exact. Every check it records is about one of the order's input
  tokens, with its required amount and a balance that the rollup node gave for the order's
  owner, and is marked as sufficient when that balance covers the amount. The report says that
  all balances suffice exactly when the order has input tokens and each of them, in order, was
  queried successfully and found to suffice; and that they do not suffice only when a recorded
  check falls short.
\<close>

theorem balances_summary_exact:
  assumes "check_balances env order t s = (r, s')"
  shows "(\<forall>c \<in> set (bcs_checks r). \<exists>p \<in> set (so_permitted order). balance_about env (so_owner order) p c) \<and>
    (bcs_all_sufficient r = MB_True \<longleftrightarrow> so_permitted order \<noteq> [] \<and>
      list_all2 (\<lambda>p c. bc_token_contract c = tp_token p \<and> bc_required c = Amount (tp_amount p) \<and>
        bc_sufficient c \<and> bc_required c \<le> bc_balance c \<and>
        (\<exists>v w w'. q_balance_of env Rollup (tp_token p) (so_owner order) w = (Inr v, w') \<and> bc_balance c = Amount v)) (so_permitted order) (bcs_checks r)) \<and>
    (bcs_all_sufficient r = MB_False \<longrightarrow> (\<exists>c \<in> set (bcs_checks r). bc_balance c < bc_required c))"
proof -
  obtain ocs where l: "list_all2 (\<lambda>p oc. \<forall>c. oc = Some c \<longrightarrow> balance_about env (so_owner order) p c) (so_permitted order) ocs"
    and cs: "bcs_checks r = somes ocs" and flag: "bcs_all_sufficient r = summary bc_sufficient ocs"
    using check_balances_outcomes [OF assms] by blast
  have "\<exists>c \<in> set (somes ocs). bc_balance c < bc_required c" if "summary bc_sufficient ocs = MB_False"
    using summary_False_all2 [OF l that] by (force simp: balance_about_def not_le)
  moreover have "\<exists>p \<in> set (so_permitted order). balance_about env (so_owner order) p c" if "c \<in> set (somes ocs)" for c
    using l that by (rule somes_all2)
  moreover have "(\<lambda>p c. balance_about env (so_owner order) p c \<and> bc_sufficient c) =
      (\<lambda>p c. bc_token_contract c = tp_token p \<and> bc_required c = Amount (tp_amount p) \<and>
        bc_sufficient c \<and> bc_required c \<le> bc_balance c \<and>
        (\<exists>v w w'. q_balance_of env Rollup (tp_token p) (so_owner order) w = (Inr v, w') \<and> bc_balance c = Amount v))"
    by (auto simp: fun_eq_iff balance_about_def)
  ultimately show ?thesis unfolding cs flag using summary_True_all2 [OF l] by simp
qed

theorem balances_summary_exact_witness:
  "\<exists>r s'. check_balances demo_env (demo_order 5 2000) (Timestamp 1) (tracker_new demo_env []) = (r, s') \<and>
     bcs_all_sufficient r = MB_True"
proof -
  let ?s = "tracker_new demo_env []"
  have "fst (check_balances demo_env (demo_order 5 2000) (Timestamp 1) ?s) =
    \<lparr>bcs_all_sufficient = MB_True, bcs_checked_at = Timestamp 1, bcs_checks =
      [\<lparr>bc_sufficient = True, bc_token_contract = 0xB1, bc_token_symbol = ''WETH'',
        bc_balance = Amount 100, bc_required = Amount 50\<rparr>]\<rparr>"
    by (simp add: check_balances_def balance_of_def token_resolve_def tracker_new_def demo_env_def
        demo_order_def demo_constants_def token_symbols_new_def)
  moreover obtain r s' where e: "check_balances demo_env (demo_order 5 2000) (Timestamp 1) ?s = (r, s')"
    by (rule prod.exhaust)
  ultimately have "bcs_checks r = [\<lparr>bc_sufficient = True, bc_token_contract = 0xB1, bc_token_symbol = ''WETH'',
        bc_balance = Amount 100, bc_required = Amount 50\<rparr>]" by simp
  then have "bcs_all_sufficient r = MB_True"
    using balances_summary_exact [OF e] by (simp add: demo_order_def demo_env_def less_eq_amount_def)
  then show ?thesis using e by blast
qed

text \<open>
  The allowance report says that all allowances to Permit2 suffice exactly when the order
  has input tokens and every one of them, in order, was queried successfully and found to
  allow at least the required amount; and it says that they do not suffice only when a recorded
  check falls short.
\<close>

theorem allowances_summary_exact:
  assumes "check_allowances env order t s = (r, s')"
  shows "(acs_all_sufficient r = MB_True \<longleftrightarrow> so_permitted order \<noteq> [] \<and>
      list_all2 (\<lambda>p c. ac_token_contract c = tp_token p \<and> ac_required c = Amount (tp_amount p) \<and>
        ac_sufficient c \<and> ac_required c \<le> ac_allowance c \<and>
        (\<exists>v w w'. q_allowance env Rollup (tp_token p) (so_owner order) (e_permit2 env) w = (Inr v, w') \<and> ac_allowance c = Amount v)) (so_permitted order) (acs_checks r)) \<and>
    (acs_all_sufficient r = MB_False \<longrightarrow> (\<exists>c \<in> set (acs_checks r). ac_allowance c < ac_required c))"
proof -
  obtain ocs where l: "list_all2 (\<lambda>p oc. \<forall>c. oc = Some c \<longrightarrow> allowance_about env (so_owner order) p c) (so_permitted order) ocs"
    and cs: "acs_checks r = somes ocs" and flag: "acs_all_sufficient r = summary ac_sufficient ocs"
    using check_allowances_outcomes [OF assms] by blast
  have "\<exists>c \<in> set (somes ocs). ac_allowance c < ac_required c" if "summary ac_sufficient ocs = MB_False"
    using summary_False_all2 [OF l that] by (force simp: allowance_about_def not_le)
  moreover have "(\<lambda>p c. allowance_about env (so_owner order) p c \<and> ac_sufficient c) =
      (\<lambda>p c. ac_token_contract c = tp_token p \<and> ac_required c = Amount (tp_amount p) \<and>
        ac_sufficient c \<and> ac_required c \<le> ac_allowance c \<and>
        (\<exists>v w w'. q_allowance env Rollup (tp_token p) (so_owner order) (e_permit2 env) w = (Inr v, w') \<and> ac_allowance c = Amount v))"
    by (auto simp: fun_eq_iff allowance_about_def)
  ultimately show ?thesis unfolding cs flag using summary_True_all2 [OF l] by simp
qed

theorem allowances_summary_exact_witness:
  "\<exists>r s'. check_allowances demo_env (demo_order 5 2000) (Timestamp 1) (tracker_new demo_env []) = (r, s') \<and>
     acs_all_sufficient r = MB_True"
proof -
  let ?s = "tracker_new demo_env []"
  have "fst (check_allowances demo_env (demo_order 5 2000) (Timestamp 1) ?s) =
    \<lparr>acs_all_sufficient = MB_True, acs_checked_at = Timestamp 1, acs_checks =
      [\<lparr>ac_sufficient = True, ac_token_contract = 0xB1, ac_token_symbol = ''WETH'',
        ac_allowance = Amount 100, ac_required = Amount 50\<rparr>]\<rparr>"
    by (simp add: check_allowances_def allowance_def token_resolve_def tracker_new_def demo_env_def
        demo_order_def demo_constants_def token_symbols_new_def)
  moreover obtain r s' where e: "check_allowances demo_env (demo_order 5 2000) (Timestamp 1) ?s = (r, s')"
    by (rule prod.exhaust)
  ultimately have "acs_checks r = [\<lparr>ac_sufficient = True, ac_token_contract = 0xB1, ac_token_symbol = ''WETH'',
        ac_allowance = Amount 100, ac_required = Amount 50\<rparr>]" by simp
  then have "acs_all_sufficient r = MB_True"
    using allowances_summary_exact [OF e] by (simp add: demo_order_def demo_env_def less_eq_amount_def)
  then show ?thesis using e by blast
qed

text \<open>
  The summary of the balance report depends on the order in which tokens are queried: with
  one token short of its amount and the query of another failed, it is \<open>Unknown\<close> when the
  failure comes last, although a recorded check shows the shortfall, and \<open>False\<close> when the
  shortfall comes last.
\<close>

theorem balance_summary_order_dependent:
  "\<exists>(env :: unit env) order t s.
     (\<exists>c \<in> set (bcs_checks (fst (check_balances env order t s))). \<not> bc_sufficient c) \<and>
     bcs_all_sufficient (fst (check_balances env order t s)) = MB_Unknown \<and>
     bcs_all_sufficient (fst (check_balances env
       (order\<lparr>so_permitted := rev (so_permitted order)\<rparr>) t s)) = MB_False"
proof -
  define env :: "unit env" where "env = undefined
    \<lparr>q_balance_of := (\<lambda>_ a _ w. (if a = 1 then Inr 10 else Inl (Ext_Error ''rpc'' None), w)),
     q_symbol := (\<lambda>_ _ w. (Inr ''T'', w))\<rparr>"
  define order where "order = (demo_order 5 2000)
    \<lparr>so_permitted := [\<lparr>tp_token = 1, tp_amount = 50\<rparr>, \<lparr>tp_token = 2, tp_amount = 50\<rparr>]\<rparr>"
  show ?thesis
    by (rule exI [of _ env], rule exI [of _ order], rule exI [of _ "Timestamp 0"],
        rule exI [of _ "(Map.empty, ())"])
      (simp add: check_balances_def balance_of_def token_resolve_def Let_def env_def order_def)
qed

text \<open>
  C17: where a fill comes from. When \<open>find_fill\<close> locates a fill, it is the first log, among
  the mined and decodable \<open>Filled\<close> logs of one block, whose outputs cover those the order
  expects; that block is the one of the first \<open>Order\<close> log with the order's deadline in the
  last 300 rollup blocks; the rollup contract is searched first and the host contract only
  counts when the rollup has no match; and every output carries the symbol the cache now holds
  for its token.
\<close>

theorem find_fill_provenance:
  assumes "find_fill env order (cache, w) = (Inr (Some info), s')"
  shows "\<exists>tip w1 initiation w2 ru_logs w3 host_logs w4 b t outs.
    q_block_number env Rollup w = (Inr tip, w1) \<and>
    find_order_initiation env Rollup order (c_ru_orders (e_constants env))
      (saturating_sub tip 300, tip) w1 = (Inr (Some initiation), w2) \<and>
    q_logs env Rollup (filled_filter env (c_ru_orders (e_constants env))
      (oi_block_number initiation) (oi_block_number initiation)) w2 = (Inr ru_logs, w3) \<and>
    q_logs env Host (filled_filter env (c_host_orders (e_constants env))
      (oi_block_number initiation) (oi_block_number initiation)) w3 = (Inr host_logs, w4) \<and>
    (first_match (filled_match env order) ru_logs = Some (b, t, outs) \<and>
       fi_fill_tx info = Some \<lparr>ct_chain = Rollup, ct_tx_hash = t\<rparr> \<or>
     first_match (filled_match env order) ru_logs = None \<and>
       first_match (filled_match env order) host_logs = Some (b, t, outs) \<and>
       fi_fill_tx info = Some \<lparr>ct_chain = Host, ct_tx_hash = t\<rparr>) \<and>
    fill_outputs_are_superset_of_order_outputs outs (so_outputs order) \<and>
    fi_block_number info = b \<and>
    fi_rollup_initiation_tx info = Some (oi_tx_hash initiation) \<and>
    map fo_token_contract (fi_outputs info) = map out_token outs \<and>
    map (\<lambda>y. token_known s' (fo_token_contract y)) (fi_outputs info) =
      map (\<lambda>y. Some (fo_token_symbol y)) (fi_outputs info)"
proof -
  from find_fill_Some [OF assms] obtain tip w1 initiation w2 ru_fill w3 host_fill w4 found outputs where
    tip: "q_block_number env Rollup w = (Inr tip, w1)" and
    init: "find_order_initiation env Rollup order (c_ru_orders (e_constants env))
      (saturating_sub tip 300, tip) w1 = (Inr (Some initiation), w2)" and
    ru: "find_fill_events env Rollup order (c_ru_orders (e_constants env)) Rollup (resolve_chain_id env)
      (oi_block_number initiation, oi_block_number initiation) w2 = (Inr ru_fill, w3)" and
    host: "find_fill_events env Host order (c_host_orders (e_constants env)) Host (resolve_chain_id env)
      (oi_block_number initiation, oi_block_number initiation) w3 = (Inr host_fill, w4)" and
    found: "ru_fill = Some found \<or> ru_fill = None \<and> host_fill = Some found" and
    sy: "resolve_fill_output_symbols env (fi_outputs found) (cache, w4) = (outputs, s')" and
    info: "info = found\<lparr>fi_rollup_initiation_tx := Some (oi_tx_hash initiation), fi_outputs := outputs\<rparr>"
    by blast
  from ru host obtain ru_logs host_logs where
    logs: "q_logs env Rollup (filled_filter env (c_ru_orders (e_constants env))
      (oi_block_number initiation) (oi_block_number initiation)) w2 = (Inr ru_logs, w3)"
    "q_logs env Host (filled_filter env (c_host_orders (e_constants env))
      (oi_block_number initiation) (oi_block_number initiation)) w3 = (Inr host_logs, w4)" and
    fills: "ru_fill = map_option (\<lambda>(b, t, outs). fill_info_of Rollup (resolve_chain_id env) b t outs)
      (first_match (filled_match env order) ru_logs)"
    "host_fill = map_option (\<lambda>(b, t, outs). fill_info_of Host (resolve_chain_id env) b t outs)
      (first_match (filled_match env order) host_logs)"
    by (auto simp: find_fill_events_Inr)
  from found fills obtain chain b t outs where
    src: "chain = Rollup \<and> first_match (filled_match env order) ru_logs = Some (b, t, outs) \<or>
      chain = Host \<and> first_match (filled_match env order) ru_logs = None \<and>
        first_match (filled_match env order) host_logs = Some (b, t, outs)" and
    eq: "found = fill_info_of chain (resolve_chain_id env) b t outs"
    by auto
  from src have "fill_outputs_are_superset_of_order_outputs outs (so_outputs order)"
    by (auto dest!: first_match_in simp: filled_match_Some)
  moreover have "map fo_token_contract outputs = map out_token outs"
    using arg_cong [OF resolve_fill_output_symbols_known(2) [OF sy], of "map fo_token_contract"] eq
    by (simp add: fill_info_of_def comp_def)
  ultimately show ?thesis
    using tip init logs src info eq resolve_fill_output_symbols_known(1) [OF sy]
    by (intro exI conjI) (auto simp: fill_info_of_def)
qed

text \<open>
  An environment with a fill: the initiation of the demo order in rollup block 480, and a
  \<open>Filled\<close> log in the same block of the rollup whose outputs are those of the order.
\<close>

definition demo_log :: "b256 \<Rightarrow> b256 \<Rightarrow> rpc_log" where
  "demo_log topic tx = \<lparr>log_address = 0xA1, log_topics = [topic], log_data = [],
     log_block_number = Some 480, log_transaction_hash = Some tx, log_removed = False\<rparr>"

definition demo_fill_env :: "int list env" where
  "demo_fill_env = demo_env\<lparr>
     e_decode_filled := (\<lambda>_ _ _. Inr (so_outputs (demo_order 5 2000))),
     q_nonce_consumed := (\<lambda>_ w. (Inr True, w)),
     q_logs := (\<lambda>provider f w.
       (Inr (if lf_events f = [0xF2] then [demo_log 0xF2 0xD1]
             else if provider = Rollup then [demo_log 0xF1 0xD2] else []), w))\<rparr>"

lemmas demo_fill_simps = demo_fill_env_def demo_env_def demo_log_def demo_constants_def
  initiation_filter_def filled_filter_def find_order_initiation_def find_fill_events_def
  fill_outputs_are_superset_of_order_outputs_def same_output_def swap_remove_def fill_info_of_def
  token_resolve_def tracker_new_def token_symbols_new_def demo_order_def

lemma demo_fill_found:
  "\<exists>info s'. find_fill demo_fill_env (demo_order 5 2000) (tracker_new demo_fill_env []) = (Inr (Some info), s')
     \<and> fi_block_number info = 480 \<and> fi_rollup_initiation_tx info = Some 0xD1"
  by (simp add: find_fill_def demo_fill_simps split: prod.split)

theorem find_fill_provenance_witness:
  "\<exists>info s' b t outs. find_fill demo_fill_env (demo_order 5 2000) (tracker_new demo_fill_env []) =
     (Inr (Some info), s') \<and> fi_block_number info = b \<and>
     fill_outputs_are_superset_of_order_outputs outs (so_outputs (demo_order 5 2000)) \<and>
     map fo_token_contract (fi_outputs info) = map out_token outs"
proof -
  obtain info s' where f: "find_fill demo_fill_env (demo_order 5 2000)
      (token_symbols_new (e_constants demo_fill_env), []) = (Inr (Some info), s')"
    using demo_fill_found by (auto simp: tracker_new_def)
  then show ?thesis using find_fill_provenance [OF f] by (fastforce simp: tracker_new_def)
qed

text \<open>
  A failed host query discards a fill found on the rollup. With the initiation located and
  a matching fill on the rollup, an error of the host's log query alone makes \<open>find_fill\<close> return
  that error, because the argument of \<open>or\<close> is evaluated eagerly; the status then reports the
  order as filled without fill information.
\<close>

theorem host_error_discards_rollup_fill:
  assumes "q_block_number env Rollup w = (Inr tip, w1)"
    and "find_order_initiation env Rollup order (c_ru_orders (e_constants env))
      (saturating_sub tip 300, tip) w1 = (Inr (Some initiation), w2)"
    and "find_fill_events env Rollup order (c_ru_orders (e_constants env)) Rollup (resolve_chain_id env)
      (oi_block_number initiation, oi_block_number initiation) w2 = (Inr (Some info), w3)"
    and "q_logs env Host (filled_filter env (c_host_orders (e_constants env))
      (oi_block_number initiation) (oi_block_number initiation)) w3 = (Inl e, w4)"
  shows "find_fill env order (cache, w) = (Inl (FilledEventQuery e), (cache, w4))"
proof -
  have "find_fill_events env Host order (c_host_orders (e_constants env)) Host (resolve_chain_id env)
      (oi_block_number initiation, oi_block_number initiation) w3 = (Inl (FilledEventQuery e), w4)"
    using assms(4) by (simp add: find_fill_events_def)
  then show ?thesis using assms(1-3) by (simp add: find_fill_def Let_def)
qed

definition demo_host_down_env :: "int list env" where
  "demo_host_down_env = demo_fill_env\<lparr>q_logs := (\<lambda>provider f w.
     if provider = Host then (Inl (Ext_Error ''host down'' None), w)
     else q_logs demo_fill_env provider f w)\<rparr>"

theorem host_error_discards_rollup_fill_witness:
  "find_fill demo_host_down_env (demo_order 5 2000) (Map.empty, []) =
     (Inl (FilledEventQuery (Ext_Error ''host down'' None)), (Map.empty, []))"
  by (rule host_error_discards_rollup_fill [of _ _ 500 _ _ "\<lparr>oi_block_number = 480, oi_tx_hash = 0xD1\<rparr>" "[]"
        "fill_info_of Rollup (resolve_chain_id demo_host_down_env) 480 0xD2 (so_outputs (demo_order 5 2000))"])
    (simp_all add: demo_host_down_env_def demo_fill_simps resolve_chain_id_def)

end
