(* ===== verification/Tasks.thy ===== *)
theory Tasks
  imports Domain
begin

text \<open>
  The life of the background tasks (\<open>lib.rs\<close>): how a task's exit is normalised against the
  shared cancellation token, operation by operation, and how the results of the five tasks become the result of the
  process. A report is the list of its messages, outermost context first.
\<close>

type_synonym report = "string list"

text \<open>\<open>wrap_err\<close> puts a context in front of an error.\<close>

definition wrap_err :: "string \<Rightarrow> report + 'a \<Rightarrow> report + 'a" where
  "wrap_err msg r = (case r of Inl e \<Rightarrow> Inl (msg # e) | Inr v \<Rightarrow> Inr v)"

fun report_of_source :: "ext_error option \<Rightarrow> report" where
  "report_of_source None = []"
| "report_of_source (Some (Ext_Error m src)) = m # report_of_source src"

definition report_of :: "ext_error \<Rightarrow> report" where
  "report_of e = report_of_source (Some e)"

text \<open>
  \<open>handle_task_exit\<close> looks at the token and, when it is not cancelled, cancels it: two operations
  on shared state, between which other tasks run. So a task is running, or its loop has ended with
  a result and it is leaving (\<open>T_Leaving\<close>), or it has seen that the token was not cancelled and will
  cancel it (\<open>T_Failing\<close>), or it is returning, or it is over. Until it is over it holds its ends of
  the channels.
\<close>

datatype task =
    T_Running
  | T_Leaving "report + unit"
  | T_Failing "report + unit"
  | T_Returning "report + unit"
  | T_Exited "report + unit"
  | T_Panicked

text \<open>\<open>if cancellation_token.is_cancelled()\<close>.\<close>

definition exit_check :: "report + unit \<Rightarrow> bool \<Rightarrow> task" where
  "exit_check result cancelled = (if cancelled then T_Returning (Inr ()) else T_Failing result)"

text \<open>What is returned after \<open>cancellation_token.cancel()\<close>.\<close>

definition exit_failure :: "string \<Rightarrow> report + unit \<Rightarrow> report + unit" where
  "exit_failure task_name result = (case result of
     Inr () \<Rightarrow> Inl [task_name @ '' exited unexpectedly'']
   | Inl error \<Rightarrow> Inl error)"

text \<open>One operation of a task that has left its loop, with the token before and after it.\<close>

fun exit_step :: "string \<Rightarrow> task \<Rightarrow> bool \<Rightarrow> (task \<times> bool) option" where
  "exit_step task_name (T_Leaving result) cancelled = Some (exit_check result cancelled, cancelled)"
| "exit_step task_name (T_Failing result) cancelled = Some (T_Returning (exit_failure task_name result), True)"
| "exit_step task_name (T_Returning result) cancelled = Some (T_Exited result, cancelled)"
| "exit_step task_name _ cancelled = None"

text \<open>
  The whole of it as one function of the result and of what \<open>is_cancelled()\<close> has answered: the
  result, and that the token is cancelled afterwards.
\<close>

definition handle_task_exit :: "string \<Rightarrow> report + unit \<Rightarrow> bool \<Rightarrow> (report + unit) \<times> bool" where
  "handle_task_exit task_name result cancelled =
     (if cancelled then (Inr (), cancelled) else (exit_failure task_name result, True))"

text \<open>The operations add up to it, whatever other tasks do to the token between them.\<close>

lemma exit_steps:
  assumes "exit_step n (T_Leaving r) c0 = Some (t1, c0')"
  shows "t1 = T_Returning (fst (handle_task_exit n r c0)) \<and> c0 \<or>
    t1 = T_Failing r \<and> \<not> c0 \<and> exit_step n t1 c1 = Some (T_Returning (fst (handle_task_exit n r c0)), True)"
  using assms by (cases c0) (auto simp: exit_check_def handle_task_exit_def)

lemma exit_failure_Inl: "\<exists>e. exit_failure n r = Inl e"
  by (cases r) (auto simp: exit_failure_def split: unit.split)

text \<open>A joined task either returned its result or panicked with a message.\<close>

datatype joined = Returned "report + unit" | Panicked string

definition flatten_task_result :: "string \<Rightarrow> joined \<Rightarrow> report + unit" where
  "flatten_task_result task_name result =
     (case result of
        Panicked join_error \<Rightarrow> Inl [task_name @ '' panicked: '' @ join_error]
      | Returned inner_result \<Rightarrow> inner_result)"

text \<open>The handles; a task that is still running has no result yet.\<close>

record tasks_join_handles =
  th_server :: "joined option"
  th_block_watcher :: "joined option"
  th_event_watcher :: "joined option"
  th_order_discovery :: "joined option"
  th_state_manager :: "joined option"

text \<open>\<open>results.into_iter().find(Result::is_err).unwrap_or(Ok(()))\<close>.\<close>

fun first_err :: "(report + unit) list \<Rightarrow> report + unit" where
  "first_err [] = Inr ()"
| "first_err (Inl e # rs) = Inl e"
| "first_err (Inr () # rs) = first_err rs"

text \<open>
  \<open>into_future\<close> awaits the handles one after the other: the future is ready
  (\<^term>\<open>Some\<close>) once the last await is.
\<close>

definition into_future :: "tasks_join_handles \<Rightarrow> (report + unit) option" where
  "into_future handles = do {
     server \<leftarrow> th_server handles;
     block_watcher \<leftarrow> th_block_watcher handles;
     event_watcher \<leftarrow> th_event_watcher handles;
     order_discovery \<leftarrow> th_order_discovery handles;
     state_manager \<leftarrow> th_state_manager handles;
     Some (first_err
       [flatten_task_result ''server'' server,
        flatten_task_result ''block_watcher'' block_watcher,
        flatten_task_result ''event_watcher'' event_watcher,
        flatten_task_result ''order_discovery'' order_discovery,
        flatten_task_result ''state_manager'' state_manager])
   }"

lemma first_err_Inr: "first_err rs = Inr () \<longleftrightarrow> (\<forall>r \<in> set rs. r = Inr ())"
  by (induction rs rule: first_err.induct) auto

section \<open>Properties\<close>

text \<open>
  The process result. The future of the handles is ready exactly when all five tasks have
  ended, not when any of them has; it is \<open>Ok\<close> exactly when every task returned \<open>Ok\<close>, and a
  task that panicked is an error even after a cancellation.
\<close>

theorem into_future_all:
  "(into_future h \<noteq> None \<longleftrightarrow> None \<notin> {th_server h, th_block_watcher h, th_event_watcher h,
       th_order_discovery h, th_state_manager h}) \<and>
   (into_future h = Some (Inr ()) \<longleftrightarrow>
      {th_server h, th_block_watcher h, th_event_watcher h, th_order_discovery h, th_state_manager h}
        = {Some (Returned (Inr ()))})"
proof -
  have ok: "flatten_task_result n j = Inr () \<longleftrightarrow> j = Returned (Inr ())" for n j
    by (cases j) (auto simp: flatten_task_result_def)
  show ?thesis
    by (cases "th_server h"; cases "th_block_watcher h"; cases "th_event_watcher h";
        cases "th_order_discovery h"; cases "th_state_manager h")
      (auto simp: into_future_def first_err_Inr ok)
qed

end
