(* ===== verification/EventStore.thy ===== *)
theory EventStore
  imports FillSearch
begin

text \<open>
  The in-memory event store (\<open>state/event_store.rs\<close>): the \<open>Filled\<close> events of each chain by
  block number, the \<open>Order\<close> events of the rollup by the hash of deadline and outputs, and the
  pruning of both to a retention window when the tips advance.
\<close>

text \<open>The latest block numbers observed on both chains (\<open>block_watcher.rs\<close>).\<close>

record block_tip =
  bt_rollup :: u64
  bt_host :: u64

record filled_event =
  fe_chain :: chain
  fe_block_number :: u64
  fe_tx_hash :: b256
  fe_outputs :: "ru_output list"

record order_event =
  oe_key :: b256
  oe_block_number :: u64
  oe_tx_hash :: b256

definition order_event_key :: "'w env \<Rightarrow> u64 \<Rightarrow> ru_output list \<Rightarrow> b256" where
  "order_event_key env deadline outputs =
     e_keccak256 env (e_ne_bytes env deadline @ e_abi_encode env outputs)"

definition order_event_new :: "'w env \<Rightarrow> u64 \<Rightarrow> b256 \<Rightarrow> u64 \<Rightarrow> ru_output list \<Rightarrow> order_event" where
  "order_event_new env block_number tx_hash deadline outputs =
     \<lparr>oe_key = order_event_key env deadline outputs, oe_block_number = block_number,
      oe_tx_hash = tx_hash\<rparr>"

section \<open>The events of one chain\<close>

record chain_events =
  ce_filled :: "(u64, filled_event) btree"
  ce_tip :: u64

definition chain_events_new :: chain_events where
  "chain_events_new = \<lparr>ce_filled = [], ce_tip = 0\<rparr>"

definition ce_insert_filled :: "filled_event \<Rightarrow> chain_events \<Rightarrow> chain_events" where
  "ce_insert_filled event ce = ce\<lparr>ce_filled := bt_push (fe_block_number event) event (ce_filled ce)\<rparr>"

definition ce_prune :: "u64 \<Rightarrow> chain_events \<Rightarrow> chain_events" where
  "ce_prune retention_blocks ce =
     (let cutoff = saturating_sub (ce_tip ce) retention_blocks
      in ce\<lparr>ce_filled := bt_split_off cutoff (ce_filled ce)\<rparr>)"

definition ce_filled_count :: "chain_events \<Rightarrow> nat" where
  "ce_filled_count ce = sum_list (map length (bt_values (ce_filled ce)))"

section \<open>The store\<close>

record event_store =
  es_rollup :: chain_events
  es_host :: chain_events
  es_order_events :: "(b256, u64 \<times> b256) hash_map"
  es_retention_blocks :: u64

definition event_store_new :: "u64 \<Rightarrow> event_store" where
  "event_store_new retention_blocks =
     \<lparr>es_rollup = chain_events_new, es_host = chain_events_new, es_order_events = [],
      es_retention_blocks = retention_blocks\<rparr>"

definition update_tips :: "block_tip \<Rightarrow> event_store \<Rightarrow> event_store" where
  "update_tips tip es =
     (let retention = es_retention_blocks es;
          rollup = ce_prune retention ((es_rollup es)\<lparr>ce_tip := bt_rollup tip\<rparr>);
          cutoff = saturating_sub (ce_tip rollup) retention;
          order_events = hm_retain (\<lambda>_ (block_number, _). cutoff \<le> block_number) (es_order_events es);
          host = ce_prune retention ((es_host es)\<lparr>ce_tip := bt_host tip\<rparr>)
      in es\<lparr>es_rollup := rollup, es_order_events := order_events, es_host := host\<rparr>)"

definition insert_filled :: "filled_event \<Rightarrow> event_store \<Rightarrow> event_store" where
  "insert_filled event es =
     (case fe_chain event of
        Rollup \<Rightarrow> es\<lparr>es_rollup := ce_insert_filled event (es_rollup es)\<rparr>
      | Host \<Rightarrow> es\<lparr>es_host := ce_insert_filled event (es_host es)\<rparr>)"

definition insert_order :: "order_event \<Rightarrow> event_store \<Rightarrow> event_store" where
  "insert_order event es =
     es\<lparr>es_order_events := hm_insert (oe_key event) (oe_block_number event, oe_tx_hash event) (es_order_events es)\<rparr>"

text \<open>The loops of \<open>find_matching_fill\<close>: chains, then blocks from the last, then events.\<close>

definition event_covers :: "ru_output list \<Rightarrow> filled_event \<Rightarrow> filled_event option" where
  "event_covers expected_outputs event =
     (if fill_outputs_are_superset_of_order_outputs (fe_outputs event) expected_outputs
      then Some event else None)"

definition find_matching_fill :: "ru_output list \<Rightarrow> event_store \<Rightarrow> filled_event option" where
  "find_matching_fill expected_outputs es =
     first_match (\<lambda>chain_events.
       first_match (\<lambda>events. first_match (event_covers expected_outputs) events)
         (rev (bt_values (ce_filled chain_events))))
       [es_rollup es, es_host es]"

definition find_order_tx :: "'w env \<Rightarrow> u64 \<Rightarrow> ru_output list \<Rightarrow> event_store \<Rightarrow> b256 option" where
  "find_order_tx env deadline outputs es =
     map_option snd (hm_get (es_order_events es) (order_event_key env deadline outputs))"

definition filled_count :: "event_store \<Rightarrow> nat" where
  "filled_count es = ce_filled_count (es_rollup es) + ce_filled_count (es_host es)"

definition order_count :: "event_store \<Rightarrow> nat" where
  "order_count es = length (es_order_events es)"

section \<open>The contract of a block log\<close>

text \<open>
  What the store promises of each chain's events, as a multiset: an insertion adds the event,
  pruning to a cutoff keeps exactly the events of blocks at or above it.
\<close>

locale block_log =
  fixes push :: "'e \<Rightarrow> 'l \<Rightarrow> 'l"
    and cut :: "u64 \<Rightarrow> 'l \<Rightarrow> 'l"
    and items :: "'l \<Rightarrow> 'e multiset"
    and block :: "'e \<Rightarrow> u64"
    and wf :: "'l \<Rightarrow> bool"
  assumes wf_push: "wf l \<Longrightarrow> wf (push e l)"
    and wf_cut: "wf l \<Longrightarrow> wf (cut c l)"
    and items_push: "wf l \<Longrightarrow> items (push e l) = add_mset e (items l)"
    and items_cut: "wf l \<Longrightarrow> items (cut c l) = filter_mset (\<lambda>e. c \<le> block e) (items l)"
begin

lemma wf_pushes: "wf l \<Longrightarrow> wf (fold push es l)"
  by (induction es arbitrary: l) (auto simp: wf_push)

lemma items_pushes: "wf l \<Longrightarrow> items (fold push es l) = mset es + items l"
  by (induction es arbitrary: l) (auto simp: wf_push items_push)

text \<open>Pruning commutes with insertion, up to the events it would prune.\<close>

lemma items_cut_push:
  "wf l \<Longrightarrow> items (cut c (push e l)) =
     (if c \<le> block e then add_mset e (items (cut c l)) else items (cut c l))"
  by (simp add: items_cut wf_push items_push)

lemma items_cut_cut:
  "wf l \<Longrightarrow> items (cut c (cut d l)) = items (cut (max c d) l)"
  by (simp add: items_cut wf_cut filter_filter_mset conj_commute)

lemma items_cut_below: "wf l \<Longrightarrow> e \<in># items (cut c l) \<Longrightarrow> c \<le> block e"
  by (simp add: items_cut)

end

text \<open>Every bucket is non-empty and holds events of its own block.\<close>

definition ce_wf :: "(u64, filled_event) btree \<Rightarrow> bool" where
  "ce_wf m \<longleftrightarrow> bt_wf m \<and> (\<forall>(b, es) \<in> set m. es \<noteq> [] \<and> (\<forall>e \<in> set es. fe_block_number e = b))"

definition ce_items :: "(u64, filled_event) btree \<Rightarrow> filled_event multiset" where
  "ce_items m = mset (concat (bt_values m))"

lemma ce_wf_push: "ce_wf m \<Longrightarrow> ce_wf (bt_push (fe_block_number e) e m)"
  by (fastforce simp: ce_wf_def bt_wf_push dest!: bt_push_entries)

lemma ce_wf_split_off: "ce_wf m \<Longrightarrow> ce_wf (bt_split_off c m)"
  using bt_wf_split_off [of m c] by (auto simp: ce_wf_def bt_split_off_def)

lemma ce_items_split_off:
  assumes "\<forall>(b, es) \<in> set m. \<forall>e \<in> set es. fe_block_number e = b"
  shows "ce_items (bt_split_off c m) = filter_mset (\<lambda>e. c \<le> fe_block_number e) (ce_items m)"
  using assms
proof (induction m)
  case (Cons p m)
  obtain b es where p: "p = (b, es)" by fastforce
  have all: "\<forall>e \<in> set es. fe_block_number e = b" using Cons.prems p by simp
  have "filter_mset (\<lambda>e. c \<le> fe_block_number e) (mset es) = (if c \<le> b then mset es else {#})"
    using all by (auto simp: filter_mset_eq_conv)
  then show ?case using Cons p by (auto simp: ce_items_def bt_split_off_def bt_values_def)
qed (simp add: ce_items_def bt_split_off_def bt_values_def)

interpretation ce: block_log "\<lambda>e. bt_push (fe_block_number e) e" bt_split_off ce_items fe_block_number ce_wf
proof unfold_locales
  show "ce_wf l \<Longrightarrow> ce_wf (bt_push (fe_block_number e) e l)" for l e by (rule ce_wf_push)
  show "ce_wf l \<Longrightarrow> ce_wf (bt_split_off c l)" for l c by (rule ce_wf_split_off)
  show "ce_wf l \<Longrightarrow> ce_items (bt_push (fe_block_number e) e l) = add_mset e (ce_items l)" for l e
    by (simp add: ce_items_def bt_push_items)
  show "ce_wf l \<Longrightarrow> ce_items (bt_split_off c l) = filter_mset (\<lambda>e. c \<le> fe_block_number e) (ce_items l)" for l c
    by (rule ce_items_split_off) (auto simp: ce_wf_def)
qed

section \<open>Abstract specification and refinement\<close>

text \<open>
  What the store means: a bag of \<open>Filled\<close> events per chain, and the last initiation of each
  key.
\<close>

record spec_store =
  sp_rollup :: "filled_event multiset"
  sp_host :: "filled_event multiset"
  sp_orders :: "b256 \<rightharpoonup> u64 \<times> b256"

definition store_abs :: "event_store \<Rightarrow> spec_store" where
  "store_abs es = \<lparr>sp_rollup = ce_items (ce_filled (es_rollup es)),
     sp_host = ce_items (ce_filled (es_host es)), sp_orders = hm_get (es_order_events es)\<rparr>"

definition es_wf :: "event_store \<Rightarrow> bool" where
  "es_wf es \<longleftrightarrow> ce_wf (ce_filled (es_rollup es)) \<and> ce_wf (ce_filled (es_host es)) \<and>
     hm_wf (es_order_events es)"

definition spec_insert_filled :: "filled_event \<Rightarrow> spec_store \<Rightarrow> spec_store" where
  "spec_insert_filled e S = (case fe_chain e of
     Rollup \<Rightarrow> S\<lparr>sp_rollup := add_mset e (sp_rollup S)\<rparr>
   | Host \<Rightarrow> S\<lparr>sp_host := add_mset e (sp_host S)\<rparr>)"

definition spec_insert_order :: "order_event \<Rightarrow> spec_store \<Rightarrow> spec_store" where
  "spec_insert_order e S = S\<lparr>sp_orders := (sp_orders S)(oe_key e \<mapsto> (oe_block_number e, oe_tx_hash e))\<rparr>"

text \<open>An event survives a tip when it lies at most the retention window below it.\<close>

definition retained :: "u64 \<Rightarrow> u64 \<Rightarrow> u64 \<Rightarrow> bool" where
  "retained n tip b \<longleftrightarrow> unat tip \<le> unat b + unat n"

definition spec_update_tips :: "u64 \<Rightarrow> block_tip \<Rightarrow> spec_store \<Rightarrow> spec_store" where
  "spec_update_tips n tip S = \<lparr>
     sp_rollup = filter_mset (\<lambda>e. retained n (bt_rollup tip) (fe_block_number e)) (sp_rollup S),
     sp_host = filter_mset (\<lambda>e. retained n (bt_host tip) (fe_block_number e)) (sp_host S),
     sp_orders = (\<lambda>k. case sp_orders S k of None \<Rightarrow> None
        | Some (b, t) \<Rightarrow> if retained n (bt_rollup tip) b then Some (b, t) else None)\<rparr>"

lemma cutoff_retained: "saturating_sub tip n \<le> b \<longleftrightarrow> retained n tip b"
  by (auto simp: retained_def word_le_nat_alt unat_saturating_sub)

lemma es_wf_new: "es_wf (event_store_new n)"
  by (simp add: es_wf_def event_store_new_def chain_events_new_def ce_wf_def bt_wf_def)

lemma es_wf_insert_filled: "es_wf es \<Longrightarrow> es_wf (insert_filled e es)"
  by (auto simp: es_wf_def insert_filled_def ce_insert_filled_def ce.wf_push split: chain.split)

lemma es_wf_insert_order: "es_wf es \<Longrightarrow> es_wf (insert_order e es)"
  by (auto simp: es_wf_def insert_order_def hm.wf_put)

lemma es_wf_update_tips: "es_wf es \<Longrightarrow> es_wf (update_tips tip es)"
  by (auto simp: es_wf_def update_tips_def ce_prune_def Let_def ce.wf_cut hm.wf_retain)

lemmas es_wf_intros = es_wf_new es_wf_insert_filled es_wf_insert_order es_wf_update_tips

lemma store_abs_insert_filled:
  "es_wf es \<Longrightarrow> store_abs (insert_filled e es) = spec_insert_filled e (store_abs es)"
  by (auto simp: es_wf_def store_abs_def insert_filled_def ce_insert_filled_def spec_insert_filled_def
      ce.items_push split: chain.split)

lemma store_abs_insert_order:
  "store_abs (insert_order e es) = spec_insert_order e (store_abs es)"
  by (auto simp: store_abs_def insert_order_def spec_insert_order_def hm.get_put fun_eq_iff)

lemma store_abs_update_tips:
  "es_wf es \<Longrightarrow> store_abs (update_tips tip es) =
     spec_update_tips (es_retention_blocks es) tip (store_abs es)"
  by (auto simp: es_wf_def store_abs_def update_tips_def ce_prune_def spec_update_tips_def Let_def
      ce.items_cut hm.get_retain cutoff_retained fun_eq_iff split: option.split prod.split)

lemma filled_count_abs:
  "filled_count es = size (sp_rollup (store_abs es)) + size (sp_host (store_abs es))"
  by (simp add: filled_count_def ce_filled_count_def store_abs_def ce_items_def length_concat)

section \<open>Searching the store\<close>

definition ce_search :: "ru_output list \<Rightarrow> (u64, filled_event) btree \<Rightarrow> filled_event option" where
  "ce_search expected m = first_match (first_match (event_covers expected)) (rev (bt_values m))"

lemma event_covers_Some:
  "event_covers expected e = Some e' \<longleftrightarrow>
     e' = e \<and> fill_outputs_are_superset_of_order_outputs (fe_outputs e) expected"
  by (auto simp: event_covers_def)

lemma ce_search_None:
  "ce_search expected m = None \<longleftrightarrow>
     (\<forall>e \<in># ce_items m. \<not> fill_outputs_are_superset_of_order_outputs (fe_outputs e) expected)"
  by (auto simp: ce_search_def first_match_None event_covers_def ce_items_def)

lemma ce_search_Some:
  assumes wf: "ce_wf m" and found: "ce_search expected m = Some e"
  shows "e \<in># ce_items m \<and> fill_outputs_are_superset_of_order_outputs (fe_outputs e) expected \<and>
    (\<forall>e' \<in># ce_items m. fill_outputs_are_superset_of_order_outputs (fe_outputs e') expected \<longrightarrow>
       fe_block_number e' \<le> fe_block_number e)"
proof -
  let ?f = "first_match (event_covers expected)"
  from first_match_SomeD [OF found [unfolded ce_search_def]] obtain pre es post where
    split: "rev (bt_values m) = pre @ es # post" and none: "\<forall>fs \<in> set pre. ?f fs = None"
    and e: "?f es = Some e" by blast
  from e have in_es: "e \<in> set es" and cov: "fill_outputs_are_superset_of_order_outputs (fe_outputs e) expected"
    by (auto dest!: first_match_in simp: event_covers_Some)
  have "map snd m = rev (pre @ es # post)"
    using arg_cong [OF split, of rev] by (simp add: bt_values_def)
  then have vals: "map snd m = rev post @ es # rev pre" by simp
  then obtain mp b mq where m: "m = mp @ (b, es) # mq" "map snd mp = rev post" "map snd mq = rev pre"
    by (auto simp: map_eq_append_conv map_eq_Cons_conv)
  have be: "fe_block_number e = b" using wf in_es m(1) by (auto simp: ce_wf_def)
  have "fe_block_number e' \<le> fe_block_number e"
    if e': "e' \<in># ce_items m" and c': "fill_outputs_are_superset_of_order_outputs (fe_outputs e') expected" for e'
  proof -
    from e' obtain b' es' where k: "(b', es') \<in> set m" "e' \<in> set es'"
      by (auto simp: ce_items_def bt_values_def)
    then have b': "fe_block_number e' = b'" using wf by (auto simp: ce_wf_def)
    have "(b', es') \<notin> set mq"
    proof
      assume "(b', es') \<in> set mq"
      then have "es' \<in> set (map snd mq)" by force
      then have "?f es' = None" using none m(3) by simp
      then show False using k(2) c' by (auto simp: first_match_None event_covers_def)
    qed
    then have "(b', es') \<in> set mp \<or> b' = b" using k(1) m(1) by auto
    then show ?thesis
    proof
      assume "(b', es') \<in> set mp"
      then have "b' < b" using wf m(1) by (force simp: ce_wf_def bt_wf_def sorted_wrt_append)
      then show ?thesis using be b' by simp
    qed (simp add: be b')
  qed
  moreover have "e \<in># ce_items m" using in_es m(1) by (auto simp: ce_items_def bt_values_def)
  ultimately show ?thesis using cov by blast
qed

lemma find_matching_fill_search:
  "find_matching_fill expected es =
     (case ce_search expected (ce_filled (es_rollup es)) of
        Some e \<Rightarrow> Some e
      | None \<Rightarrow> ce_search expected (ce_filled (es_host es)))"
  by (simp add: find_matching_fill_def ce_search_def split: option.split)

section \<open>Properties\<close>

text \<open>
  C16: the event store refines its specification. On well-formed stores every operation keeps
  well-formedness and acts on the bags of events and the map of initiations as specified: an
  insertion adds the event to its chain, an initiation replaces the one of the same key, and a
  new pair of tips keeps exactly the events at most the retention window below the tip of
  their own chain (the rollup's tip for initiations); the window never wraps around.
\<close>

theorem event_store_refines:
  assumes "es_wf es"
  shows "es_wf (insert_filled fe es) \<and> es_wf (insert_order oe es) \<and> es_wf (update_tips tip es) \<and>
    store_abs (insert_filled fe es) = spec_insert_filled fe (store_abs es) \<and>
    store_abs (insert_order oe es) = spec_insert_order oe (store_abs es) \<and>
    store_abs (update_tips tip es) = spec_update_tips (es_retention_blocks es) tip (store_abs es)"
  using assms by (simp add: es_wf_intros store_abs_insert_filled store_abs_insert_order store_abs_update_tips)

theorem event_store_refines_witness:
  "store_abs (update_tips \<lparr>bt_rollup = 700, bt_host = 5\<rparr>
     (insert_filled \<lparr>fe_chain = Rollup, fe_block_number = 400, fe_tx_hash = 1, fe_outputs = []\<rparr>
       (insert_filled \<lparr>fe_chain = Rollup, fe_block_number = 399, fe_tx_hash = 2, fe_outputs = []\<rparr>
         (event_store_new 300)))) =
   \<lparr>sp_rollup = {#\<lparr>fe_chain = Rollup, fe_block_number = 400, fe_tx_hash = 1, fe_outputs = []\<rparr>#},
    sp_host = {#}, sp_orders = Map.empty\<rparr>"
proof -
  let ?a = "\<lparr>fe_chain = Rollup, fe_block_number = 399, fe_tx_hash = 2, fe_outputs = []\<rparr> :: filled_event"
  let ?b = "\<lparr>fe_chain = Rollup, fe_block_number = 400, fe_tx_hash = 1, fe_outputs = []\<rparr> :: filled_event"
  let ?es = "insert_filled ?b (insert_filled ?a (event_store_new 300))"
  note r0 = event_store_refines [OF es_wf_new [of 300]]
  note r1 = event_store_refines [of "insert_filled ?a (event_store_new 300)"]
  note r2 = event_store_refines [of ?es]
  have "es_retention_blocks ?es = 300"
    by (simp add: insert_filled_def event_store_new_def)
  moreover have "store_abs (event_store_new 300) = \<lparr>sp_rollup = {#}, sp_host = {#}, sp_orders = Map.empty\<rparr>"
    by (simp add: store_abs_def event_store_new_def chain_events_new_def ce_items_def bt_values_def fun_eq_iff)
  ultimately show ?thesis using r0 r1 r2
    by (simp add: spec_insert_filled_def spec_update_tips_def retained_def)
qed

text \<open>
  C21: \<open>find_matching_fill\<close> is exact. It finds nothing exactly when no stored event covers the
  expected outputs; what it finds is a stored event that does, of the latest block among the
  covering events of its chain, and a host event only when no rollup event covers them.
\<close>

theorem find_matching_fill_exact:
  assumes "es_wf es"
  shows "case find_matching_fill expected es of
      None \<Rightarrow> \<forall>e \<in># sp_rollup (store_abs es) + sp_host (store_abs es).
        \<not> fill_outputs_are_superset_of_order_outputs (fe_outputs e) expected
    | Some e \<Rightarrow> fill_outputs_are_superset_of_order_outputs (fe_outputs e) expected \<and>
        (\<exists>bag \<in> {sp_rollup (store_abs es), sp_host (store_abs es)}. e \<in># bag \<and>
          (\<forall>e' \<in># bag. fill_outputs_are_superset_of_order_outputs (fe_outputs e') expected \<longrightarrow>
            fe_block_number e' \<le> fe_block_number e) \<and>
          (bag = sp_rollup (store_abs es) \<or> (\<forall>e' \<in># sp_rollup (store_abs es).
            \<not> fill_outputs_are_superset_of_order_outputs (fe_outputs e') expected)))"
proof -
  from assms have r: "ce_wf (ce_filled (es_rollup es))" and h: "ce_wf (ce_filled (es_host es))"
    by (simp_all add: es_wf_def)
  show ?thesis
    using ce_search_Some [OF r, of expected] ce_search_Some [OF h, of expected]
      ce_search_None [of expected "ce_filled (es_rollup es)"]
      ce_search_None [of expected "ce_filled (es_host es)"]
    by (auto simp: find_matching_fill_search store_abs_def split: option.splits)
qed

theorem find_matching_fill_exact_witness:
  "find_matching_fill [] (insert_filled \<lparr>fe_chain = Host, fe_block_number = 9, fe_tx_hash = 1, fe_outputs = []\<rparr>
     (event_store_new 300)) \<noteq> None"
proof
  let ?e = "\<lparr>fe_chain = Host, fe_block_number = 9, fe_tx_hash = 1, fe_outputs = []\<rparr> :: filled_event"
  assume "find_matching_fill [] (insert_filled ?e (event_store_new 300)) = None"
  with find_matching_fill_exact [OF es_wf_insert_filled [OF es_wf_new [of 300], of ?e], of "[]"]
  show False
    by (simp add: store_abs_insert_filled es_wf_new spec_insert_filled_def cover.covers_refl)
qed

text \<open>
  C22: looking an initiation up. Right after an \<open>Order\<close> event is stored, the transaction of
  its deadline and outputs is the event's; it stays so through any tip update that keeps the
  event's block in the window of the rollup tip, and is gone after one that does not.
\<close>

theorem find_order_tx_after_insert:
  fixes env :: "'w env" and b deadline :: u64 and tx :: b256 and outputs :: "ru_output list"
  assumes "es_wf es"
  defines "es' \<equiv> insert_order (order_event_new env b tx deadline outputs) es"
  shows "find_order_tx env deadline outputs es' = Some tx \<and>
    find_order_tx env deadline outputs (update_tips tip es') =
      (if unat (bt_rollup tip) \<le> unat b + unat (es_retention_blocks es) then Some tx else None)"
proof -
  have look: "find_order_tx env deadline outputs s =
      map_option snd (sp_orders (store_abs s) (order_event_key env deadline outputs))" for s
    by (simp add: find_order_tx_def store_abs_def)
  have wf: "es_wf es'" using assms by (simp add: es_wf_intros)
  have "es_retention_blocks es' = es_retention_blocks es"
    by (simp add: es'_def insert_order_def)
  then show ?thesis unfolding look store_abs_update_tips [OF wf]
    by (simp add: es'_def store_abs_insert_order spec_insert_order_def order_event_new_def
        spec_update_tips_def retained_def)
qed

theorem find_order_tx_after_insert_witness:
  "find_order_tx demo_env 2000 [] (update_tips \<lparr>bt_rollup = 780, bt_host = 0\<rparr>
     (insert_order (order_event_new demo_env 480 0xD1 2000 []) (event_store_new 300))) = Some 0xD1 \<and>
   find_order_tx demo_env 2000 [] (update_tips \<lparr>bt_rollup = 781, bt_host = 0\<rparr>
     (insert_order (order_event_new demo_env 480 0xD1 2000 []) (event_store_new 300))) = None"
  using find_order_tx_after_insert [OF es_wf_new [of 300], where env = demo_env and deadline = 2000 and
      outputs = "[]" and b = 480 and tx = "0xD1" and tip = "\<lparr>bt_rollup = 780, bt_host = 0\<rparr>"]
    find_order_tx_after_insert [OF es_wf_new [of 300], where env = demo_env and deadline = 2000 and
      outputs = "[]" and b = 480 and tx = "0xD1" and tip = "\<lparr>bt_rollup = 781, bt_host = 0\<rparr>"]
  by (simp add: event_store_new_def)

end
