(* ===== verification/EventWatcher.thy ===== *)
theory EventWatcher
  imports Tasks EventStore
begin

text \<open>
  The event watcher (\<open>ingestion/event_watcher.rs\<close>): it decodes the logs of the rollup's order
  contract and forwards them to the state manager. As in the block watcher, what the
  subscription delivers is an input list.
\<close>

datatype chain_event = CE_Filled filled_event | CE_Order order_event

text \<open>The watcher before it is spawned; its provider, channel and token are the arguments below.\<close>

record event_watcher =
  ew_orders_contract :: address

definition event_watcher_new :: "address \<Rightarrow> event_watcher" where
  "event_watcher_new orders_contract = \<lparr>ew_orders_contract = orders_contract\<rparr>"

definition event_filter :: "'w env \<Rightarrow> event_watcher \<Rightarrow> log_filter" where
  "event_filter env watcher =
     \<lparr>lf_address = ew_orders_contract watcher, lf_events = [e_filled_sig env, e_order_sig env],
      lf_from_block = None, lf_to_block = None\<rparr>"

text \<open>
  \<open>decode_log\<close>. The outer option is the panic of the deadline's conversion, the inner one is
  the result: \<^term>\<open>None\<close> for a pending log and for one that decodes as neither event.
\<close>

definition decode_log :: "'w env \<Rightarrow> rpc_log \<Rightarrow> chain_event option option" where
  "decode_log env log =
     (case log_transaction_hash log of
        None \<Rightarrow> Some None
      | Some tx_hash \<Rightarrow>
     (case log_block_number log of
        None \<Rightarrow> Some None
      | Some block_number \<Rightarrow>
     (case e_decode_filled env (log_address log) (log_topics log) (log_data log) of
        Inr outputs \<Rightarrow>
          Some (Some (CE_Filled \<lparr>fe_chain = Rollup, fe_block_number = block_number,
            fe_tx_hash = tx_hash, fe_outputs = outputs\<rparr>))
      | Inl _ \<Rightarrow>
     (case e_decode_order env (log_address log) (log_topics log) (log_data log) of
        Inr decoded \<Rightarrow>
          (case e_to_u64 env (fst decoded) of
             None \<Rightarrow> None
           | Some deadline \<Rightarrow>
               Some (Some (CE_Order (order_event_new env block_number tx_hash deadline (snd decoded)))))
      | Inl _ \<Rightarrow> Some None))))"

text \<open>
  One iteration of \<open>watch_events\<close>: the token, a log (and whether the channel to the state
  manager is open when it is forwarded), a lagged subscription or its end.
\<close>

datatype log_input =
    Log_Cancelled
  | Log_Received rpc_log bool
  | Log_Lagged nat
  | Log_Closed

datatype 'a task_exit = Running | Exited 'a | Crashed

fun watch_events_loop ::
  "'w env \<Rightarrow> log_input list \<Rightarrow> chain_event list \<Rightarrow> (report + unit) task_exit \<times> chain_event list" where
  "watch_events_loop env [] sent = (Running, sent)"
| "watch_events_loop env (Log_Cancelled # inputs) sent = (Exited (Inr ()), sent)"
| "watch_events_loop env (Log_Received log channel_open # inputs) sent =
     (case decode_log env log of
        None \<Rightarrow> (Crashed, sent)
      | Some None \<Rightarrow> watch_events_loop env inputs sent
      | Some (Some event) \<Rightarrow>
          if channel_open then watch_events_loop env inputs (sent @ [event])
          else (Exited (Inl [''rollup event channel closed'']), sent))"
| "watch_events_loop env (Log_Lagged missed # inputs) sent = watch_events_loop env inputs sent"
| "watch_events_loop env (Log_Closed # inputs) sent =
     (Exited (Inl [''rollup log subscription closed'']), sent)"

text \<open>The subscription with a filter may fail.\<close>

definition watch_events ::
  "'w env \<Rightarrow> (log_filter \<Rightarrow> ext_error option) \<Rightarrow> log_filter \<Rightarrow> log_input list \<Rightarrow> bool \<Rightarrow>
     ((report + unit) \<times> bool) task_exit \<times> chain_event list" where
  "watch_events env sub flt inputs cancelled =
     (case (case sub flt of
              Some e \<Rightarrow> (Exited (Inl (''failed to subscribe to rollup log events'' # report_of e)), [])
            | None \<Rightarrow> watch_events_loop env inputs []) of
        (exit, sent) \<Rightarrow>
          ((case exit of
              Running \<Rightarrow> Running
            | Crashed \<Rightarrow> Crashed
            | Exited r \<Rightarrow> Exited (handle_task_exit ''rollup_event_watcher'' r cancelled)), sent))"

definition event_watcher_spawn ::
  "'w env \<Rightarrow> (log_filter \<Rightarrow> ext_error option) \<Rightarrow> event_watcher \<Rightarrow> log_input list \<Rightarrow> bool \<Rightarrow>
     ((report + unit) \<times> bool) task_exit \<times> chain_event list" where
  "event_watcher_spawn env sub watcher inputs cancelled =
     watch_events env sub (event_filter env watcher) inputs cancelled"

section \<open>Lemmas\<close>

text \<open>What \<open>decode_log\<close> says of a log, on every branch.\<close>

lemma decode_log_Filled:
  "decode_log env log = Some (Some (CE_Filled fe)) \<longleftrightarrow>
     log_transaction_hash log = Some (fe_tx_hash fe) \<and> log_block_number log = Some (fe_block_number fe) \<and>
     e_decode_filled env (log_address log) (log_topics log) (log_data log) = Inr (fe_outputs fe) \<and>
     fe_chain fe = Rollup"
  by (auto simp: decode_log_def split: option.splits sum.splits)

lemma decode_log_Order:
  "decode_log env log = Some (Some (CE_Order oe)) \<longleftrightarrow>
     (\<exists>tx_hash block_number e deadline_word deadline outs.
        log_transaction_hash log = Some tx_hash \<and> log_block_number log = Some block_number \<and>
        e_decode_filled env (log_address log) (log_topics log) (log_data log) = Inl e \<and>
        e_decode_order env (log_address log) (log_topics log) (log_data log) = Inr (deadline_word, outs) \<and>
        e_to_u64 env deadline_word = Some deadline \<and>
        oe = order_event_new env block_number tx_hash deadline outs)"
  by (auto simp: decode_log_def split: option.splits sum.splits)

text \<open>
  A node that takes a log back after a reorganisation sends it again with the flag \<open>removed\<close>,
  which makes no difference here.
\<close>

lemma removed_log_forwarded:
  "decode_log env (log\<lparr>log_removed := True\<rparr>) = decode_log env (log\<lparr>log_removed := False\<rparr>)"
  by (simp add: decode_log_def cong: option.case_cong sum.case_cong)

lemma decode_log_panic:
  "decode_log env log = None \<longleftrightarrow>
     log_transaction_hash log \<noteq> None \<and> log_block_number log \<noteq> None \<and>
     (\<exists>e. e_decode_filled env (log_address log) (log_topics log) (log_data log) = Inl e) \<and>
     (\<exists>deadline outs. e_decode_order env (log_address log) (log_topics log) (log_data log) = Inr (deadline, outs)
        \<and> e_to_u64 env deadline = None)"
  by (auto simp: decode_log_def split: option.splits sum.splits)

text \<open>The events of a run of logs that all decode without a panic.\<close>

fun decoded_events :: "'w env \<Rightarrow> log_input list \<Rightarrow> chain_event list" where
  "decoded_events env [] = []"
| "decoded_events env (Log_Received log b # inputs) =
     (case decode_log env log of Some (Some e) \<Rightarrow> [e] | _ \<Rightarrow> []) @ decoded_events env inputs"
| "decoded_events env (_ # inputs) = decoded_events env inputs"

lemma watch_events_loop_sent:
  "watch_events_loop env inputs sent = (exit, sent') \<Longrightarrow>
     \<exists>pre post. inputs = pre @ post \<and> sent' = sent @ decoded_events env pre \<and> (exit = Running \<longrightarrow> post = [])"
proof (induction env inputs sent rule: watch_events_loop.induct)
  case (3 env log channel_open inputs sent)
  show ?case
  proof (cases "decode_log env log")
    case None
    with "3.prems" show ?thesis by - (rule exI [of _ "[]"], auto)
  next
    case (Some r)
    note dec = Some
    show ?thesis
    proof (cases r)
      case None
      with "3.IH"(1) [OF dec None] "3.prems" dec obtain pre post where
        "inputs = pre @ post" "sent' = sent @ decoded_events env pre" "exit = Running \<longrightarrow> post = []" by auto
      then show ?thesis using dec None
        by (intro exI [of _ "Log_Received log channel_open # pre"] exI [of _ post]) auto
    next
      case (Some event)
      show ?thesis
      proof (cases channel_open)
        case True
        with "3.IH"(2) [OF dec Some True] "3.prems" dec Some obtain pre post where
          "inputs = pre @ post" "sent' = (sent @ [event]) @ decoded_events env pre"
          "exit = Running \<longrightarrow> post = []" by auto
        then show ?thesis using dec Some
          by (intro exI [of _ "Log_Received log channel_open # pre"] exI [of _ post]) auto
      next
        case False
        with "3.prems" dec Some show ?thesis by - (rule exI [of _ "[]"], auto)
      qed
    qed
  qed
next
  case (4 env missed inputs sent)
  then obtain pre post where
    "inputs = pre @ post" "sent' = sent @ decoded_events env pre" "exit = Running \<longrightarrow> post = []" by auto
  then show ?case by (intro exI [of _ "Log_Lagged missed # pre"] exI [of _ post]) auto
qed (auto intro: exI [of _ "[]"])

lemma decoded_events_from:
  "event \<in> set (decoded_events env inputs) \<longleftrightarrow>
     (\<exists>log b. Log_Received log b \<in> set inputs \<and> decode_log env log = Some (Some event))"
  by (induction env inputs rule: decoded_events.induct) (auto split: option.splits)

lemma decoded_events_rollup: "CE_Filled fe \<in> set (decoded_events env inputs) \<Longrightarrow> fe_chain fe = Rollup"
  by (induction env inputs rule: decoded_events.induct)
    (auto dest!: sym [of "Some (Some (CE_Filled fe))"] simp: decode_log_Filled split: option.splits)

lemma watch_events_rollup:
  assumes "watch_events env sub flt inputs cancelled = (exit, sent)" "CE_Filled fe \<in> set sent"
  shows "fe_chain fe = Rollup"
proof (cases "sub flt")
  case None
  with assms(1) obtain ex where "watch_events_loop env inputs [] = (ex, sent)"
    by (auto simp: watch_events_def split: prod.splits)
  then show ?thesis using watch_events_loop_sent assms(2) decoded_events_rollup by fastforce
next
  case (Some e)
  with assms show ?thesis by (auto simp: watch_events_def)
qed

section \<open>Properties\<close>

text \<open>
  C29: the watcher forwards exactly the events it is shown. It subscribes to the two events of
  the orders contract; once that has succeeded, what it has sent is the decoding, log by log and
  in their order, of an initial part of the logs it received (of all of them while it runs). So
  a \<open>Filled\<close> event was sent exactly when such a log, of a mined transaction, decodes to its
  outputs, with the block and the transaction of the log and marked as observed on the rollup;
  and an \<open>Order\<close> event exactly when such a log does not decode as \<open>Filled\<close> but as \<open>Order\<close>, with
  a deadline that fits 64 bits.
\<close>

theorem watch_events_forwards:
  assumes "event_watcher_spawn env sub (event_watcher_new orders) inputs cancelled = (exit, sent)"
    and "sub \<lparr>lf_address = orders, lf_events = [e_filled_sig env, e_order_sig env],
      lf_from_block = None, lf_to_block = None\<rparr> = None"
  shows "\<exists>pre post. inputs = pre @ post \<and> sent = decoded_events env pre \<and> (exit = Running \<longrightarrow> post = []) \<and>
    (\<forall>fe. CE_Filled fe \<in> set sent \<longleftrightarrow> fe_chain fe = Rollup \<and>
      (\<exists>log b. Log_Received log b \<in> set pre \<and>
        log_transaction_hash log = Some (fe_tx_hash fe) \<and> log_block_number log = Some (fe_block_number fe) \<and>
        e_decode_filled env (log_address log) (log_topics log) (log_data log) = Inr (fe_outputs fe))) \<and>
    (\<forall>oe. CE_Order oe \<in> set sent \<longleftrightarrow>
      (\<exists>log b tx_hash block_number e deadline_word deadline outs. Log_Received log b \<in> set pre \<and>
        log_transaction_hash log = Some tx_hash \<and> log_block_number log = Some block_number \<and>
        e_decode_filled env (log_address log) (log_topics log) (log_data log) = Inl e \<and>
        e_decode_order env (log_address log) (log_topics log) (log_data log) = Inr (deadline_word, outs) \<and>
        e_to_u64 env deadline_word = Some deadline \<and>
        oe = order_event_new env block_number tx_hash deadline outs))"
proof -
  obtain ex where l: "watch_events_loop env inputs [] = (ex, sent)"
    and ex: "exit = Running \<longleftrightarrow> ex = Running"
    using assms by (auto simp: event_watcher_spawn_def event_filter_def event_watcher_new_def watch_events_def
        split: prod.splits task_exit.splits)
  from watch_events_loop_sent [OF l] obtain pre post where
    pre: "inputs = pre @ post" "sent = decoded_events env pre" "exit = Running \<longrightarrow> post = []"
    using ex by auto
  have filled: "CE_Filled fe \<in> set sent \<longleftrightarrow> fe_chain fe = Rollup \<and>
      (\<exists>log b. Log_Received log b \<in> set pre \<and>
        log_transaction_hash log = Some (fe_tx_hash fe) \<and> log_block_number log = Some (fe_block_number fe) \<and>
        e_decode_filled env (log_address log) (log_topics log) (log_data log) = Inr (fe_outputs fe))" for fe
    unfolding pre(2) decoded_events_from decode_log_Filled by blast
  show ?thesis
    by (intro exI [of _ pre] exI [of _ post] conjI allI pre filled)
      (unfold pre(2) decoded_events_from decode_log_Order, blast)
qed

definition demo_event_log :: "b256 \<Rightarrow> rpc_log" where
  "demo_event_log topic = \<lparr>log_address = 0xA1, log_topics = [topic], log_data = [],
     log_block_number = Some 480, log_transaction_hash = Some 0xD1, log_removed = False\<rparr>"

theorem watch_events_forwards_witness:
  "\<exists>sent. event_watcher_spawn demo_env (\<lambda>_. None) (event_watcher_new 0xA1)
       [Log_Received (demo_event_log 0xF1) True, Log_Lagged 3] False = (Running, sent) \<and>
     CE_Filled \<lparr>fe_chain = Rollup, fe_block_number = 480, fe_tx_hash = 0xD1, fe_outputs = []\<rparr> \<in> set sent"
proof -
  let ?inputs = "[Log_Received (demo_event_log 0xF1) True, Log_Lagged 3]"
  obtain sent where e: "event_watcher_spawn demo_env (\<lambda>_. None) (event_watcher_new 0xA1) ?inputs False = (Running, sent)"
    by (auto simp: event_watcher_spawn_def watch_events_def decode_log_def demo_event_log_def demo_env_def)
  have "CE_Filled \<lparr>fe_chain = Rollup, fe_block_number = 480, fe_tx_hash = 0xD1, fe_outputs = []\<rparr> \<in> set sent"
    using watch_events_forwards [OF e] by (auto simp: demo_event_log_def demo_env_def)
  with e show ?thesis by blast
qed

text \<open>
  An \<open>Order\<close> event with a deadline beyond 64 bits crashes the watcher. When such a log
  arrives, the task panics in the conversion of the deadline, and no later event is forwarded;
  the panic bypasses \<open>handle_task_exit\<close>, so it does not cancel the token.
\<close>

theorem wide_deadline_crashes_watcher:
  assumes "to_u64_checked env" and "2 ^ 64 \<le> unat deadline"
    and "log_transaction_hash log \<noteq> None" and "log_block_number log \<noteq> None"
    and "e_decode_filled env (log_address log) (log_topics log) (log_data log) = Inl e"
    and "e_decode_order env (log_address log) (log_topics log) (log_data log) = Inr (deadline, outs)"
  shows "watch_events env (\<lambda>_. None) flt (Log_Received log b # inputs) cancelled = (Crashed, [])"
proof -
  have "e_to_u64 env deadline = None" using assms(1,2) by (simp only: to_u64_checked_None)
  then have "decode_log env log = None" using assms(3-6) by (auto simp: decode_log_panic)
  then show ?thesis by (simp add: watch_events_def)
qed

theorem wide_deadline_crashes_watcher_witness:
  "watch_events (demo_env\<lparr>e_decode_order := \<lambda>_ _ _. Inr (- 1, [])\<rparr>) (\<lambda>_. None)
     (event_filter demo_env (event_watcher_new 0xA1)) [Log_Received (demo_event_log 0xF2) True, Log_Received (demo_event_log 0xF1) True] False = (Crashed, [])"
  by (rule wide_deadline_crashes_watcher [where deadline = "- 1"])
    (simp_all add: to_u64_checked_def demo_env_def demo_event_log_def unsigned_minus_1_eq_mask
      mask_eq_exp_minus_1)

end
