(* ===== verification/Metrics.thy ===== *)
theory Metrics
  imports Status
begin

text \<open>
  The metrics of the server (\<open>metrics.rs\<close>): counters and gauges by label. A counter is a
  natural number, a gauge of a count is that count, and the connection gauge an integer, since
  it is incremented and decremented.
\<close>

section \<open>Names and descriptions\<close>

definition requests_name :: string where "requests_name = ''signet.tracker.requests''"
definition request_duration_seconds_name :: string where
  "request_duration_seconds_name = ''signet.tracker.request_duration_seconds''"
definition ws_connections_name :: string where "ws_connections_name = ''signet.tracker.ws_connections''"
definition ws_messages_sent_name :: string where "ws_messages_sent_name = ''signet.tracker.ws_messages_sent''"
definition tracked_orders_name :: string where "tracked_orders_name = ''signet.tracker.tracked_orders''"
definition event_store_filled_name :: string where
  "event_store_filled_name = ''signet.tracker.event_store_filled_events''"
definition event_store_order_name :: string where
  "event_store_order_name = ''signet.tracker.event_store_order_events''"
definition blocks_received_name :: string where "blocks_received_name = ''signet.tracker.blocks_received''"
definition chain_events_received_name :: string where
  "chain_events_received_name = ''signet.tracker.chain_events_received''"
definition orders_discovered_name :: string where "orders_discovered_name = ''signet.tracker.orders_discovered''"

datatype metric_kind = Counter | Gauge | Histogram

text \<open>What \<open>DESCRIPTIONS\<close> registers with the exporter.\<close>

definition descriptions :: "(string \<times> metric_kind \<times> string) list" where
  "descriptions =
     [(requests_name, Counter, ''Order status HTTP requests (label: result)''),
      (request_duration_seconds_name, Histogram, ''Duration of order status HTTP requests''),
      (ws_connections_name, Gauge, ''Active WebSocket connections (label: endpoint)''),
      (ws_messages_sent_name, Counter, ''WebSocket messages sent (label: endpoint)''),
      (tracked_orders_name, Gauge, ''Number of orders being tracked by the state manager''),
      (event_store_filled_name, Gauge, ''Filled events in the in-memory event store''),
      (event_store_order_name, Gauge, ''Order events in the in-memory event store''),
      (blocks_received_name, Counter, ''New blocks received from subscriptions (label: chain)''),
      (chain_events_received_name, Counter, ''Chain events received from subscriptions (label: kind)''),
      (orders_discovered_name, Counter, ''New orders discovered from tx-cache polling'')]"

lemmas metric_names = requests_name_def request_duration_seconds_name_def ws_connections_name_def
  ws_messages_sent_name_def tracked_orders_name_def event_store_filled_name_def event_store_order_name_def
  blocks_received_name_def chain_events_received_name_def orders_discovered_name_def

text \<open>Each metric is described once, under a name of its own.\<close>

lemma descriptions_distinct: "distinct (map fst descriptions)"
  by (simp add: descriptions_def metric_names)

section \<open>Recording\<close>

datatype request_result = RR_Success | RR_NotFound | RR_Error

definition request_result_as_str :: "request_result \<Rightarrow> string" where
  "request_result_as_str r =
     (case r of RR_Success \<Rightarrow> ''success'' | RR_NotFound \<Rightarrow> ''not_found'' | RR_Error \<Rightarrow> ''error'')"

datatype ws_endpoint = WS_Single | WS_All

definition ws_endpoint_as_str :: "ws_endpoint \<Rightarrow> string" where
  "ws_endpoint_as_str e = (case e of WS_Single \<Rightarrow> ''single_order'' | WS_All \<Rightarrow> ''all_orders'')"

datatype chain_event_kind = Kind_Filled | Kind_Order

definition chain_event_kind_as_str :: "chain_event_kind \<Rightarrow> string" where
  "chain_event_kind_as_str k = (case k of Kind_Filled \<Rightarrow> ''filled'' | Kind_Order \<Rightarrow> ''order'')"

text \<open>One field per metric; counters and gauges are keyed by the label string, as in the exporter.\<close>

record metrics =
  m_requests :: "string \<Rightarrow> nat"
  m_request_durations :: "nat list"
  m_ws_connections :: "string \<Rightarrow> int"
  m_ws_messages_sent :: "string \<Rightarrow> nat"
  m_tracked_orders :: nat
  m_event_store_filled :: nat
  m_event_store_order :: nat
  m_blocks_received :: "string \<Rightarrow> nat"
  m_chain_events_received :: "string \<Rightarrow> nat"
  m_orders_discovered :: nat

definition metrics_new :: metrics where
  "metrics_new = \<lparr>m_requests = (\<lambda>_. 0), m_request_durations = [], m_ws_connections = (\<lambda>_. 0), m_ws_messages_sent = (\<lambda>_. 0),
     m_tracked_orders = 0, m_event_store_filled = 0, m_event_store_order = 0,
     m_blocks_received = (\<lambda>_. 0), m_chain_events_received = (\<lambda>_. 0), m_orders_discovered = 0\<rparr>"

definition increment :: "'k \<Rightarrow> ('k \<Rightarrow> nat) \<Rightarrow> 'k \<Rightarrow> nat" where
  "increment k c = c(k := Suc (c k))"

definition record_request :: "request_result \<Rightarrow> metrics \<Rightarrow> metrics" where
  "record_request r m = m\<lparr>m_requests := increment (request_result_as_str r) (m_requests m)\<rparr>"

text \<open>The samples of the histogram are kept as nanoseconds, before the conversion to \<open>f64\<close>.\<close>

definition record_request_duration :: "nat \<Rightarrow> metrics \<Rightarrow> metrics" where
  "record_request_duration elapsed m = m\<lparr>m_request_durations := m_request_durations m @ [elapsed]\<rparr>"

definition ws_connection_opened :: "ws_endpoint \<Rightarrow> metrics \<Rightarrow> metrics" where
  "ws_connection_opened e m = m\<lparr>m_ws_connections :=
     (m_ws_connections m)(ws_endpoint_as_str e := m_ws_connections m (ws_endpoint_as_str e) + 1)\<rparr>"

definition ws_connection_closed :: "ws_endpoint \<Rightarrow> metrics \<Rightarrow> metrics" where
  "ws_connection_closed e m = m\<lparr>m_ws_connections :=
     (m_ws_connections m)(ws_endpoint_as_str e := m_ws_connections m (ws_endpoint_as_str e) - 1)\<rparr>"

definition ws_message_sent :: "ws_endpoint \<Rightarrow> metrics \<Rightarrow> metrics" where
  "ws_message_sent e m = m\<lparr>m_ws_messages_sent := increment (ws_endpoint_as_str e) (m_ws_messages_sent m)\<rparr>"

definition set_tracked_orders :: "nat \<Rightarrow> metrics \<Rightarrow> metrics" where
  "set_tracked_orders n m = m\<lparr>m_tracked_orders := n\<rparr>"

definition set_event_store_filled :: "nat \<Rightarrow> metrics \<Rightarrow> metrics" where
  "set_event_store_filled n m = m\<lparr>m_event_store_filled := n\<rparr>"

definition set_event_store_order :: "nat \<Rightarrow> metrics \<Rightarrow> metrics" where
  "set_event_store_order n m = m\<lparr>m_event_store_order := n\<rparr>"

definition record_block_received :: "chain \<Rightarrow> metrics \<Rightarrow> metrics" where
  "record_block_received c m = m\<lparr>m_blocks_received := increment (chain_as_str c) (m_blocks_received m)\<rparr>"

definition record_chain_event :: "chain_event_kind \<Rightarrow> metrics \<Rightarrow> metrics" where
  "record_chain_event k m =
     m\<lparr>m_chain_events_received := increment (chain_event_kind_as_str k) (m_chain_events_received m)\<rparr>"

definition record_orders_discovered :: "nat \<Rightarrow> metrics \<Rightarrow> metrics" where
  "record_orders_discovered n m = m\<lparr>m_orders_discovered := m_orders_discovered m + n\<rparr>"

lemma label_injective:
  "request_result_as_str r = request_result_as_str r' \<longleftrightarrow> r = r'"
  "ws_endpoint_as_str e = ws_endpoint_as_str e' \<longleftrightarrow> e = e'"
  "chain_event_kind_as_str k = chain_event_kind_as_str k' \<longleftrightarrow> k = k'"
  "chain_as_str c = chain_as_str c' \<longleftrightarrow> c = c'"
  by (auto simp: request_result_as_str_def ws_endpoint_as_str_def chain_event_kind_as_str_def
      chain_as_str_def split: request_result.splits ws_endpoint.splits chain_event_kind.splits chain.splits)

lemma ws_connection_balanced: "ws_connection_closed e (ws_connection_opened e m) = m"
  by (simp add: ws_connection_closed_def ws_connection_opened_def)

end
