(* ===== verification/StateManager.thy ===== *)
theory StateManager
  imports OrderTrackerProps EventWatcher Metrics
begin

text \<open>
  The state manager (\<open>state/state_manager.rs\<close>, \<open>state/tracked_order.rs\<close>): the central task
  that owns the tracked orders and the event store. One definition per method; a handler
  returns \<^term>\<open>None\<close> when it panics, and \<open>panicked_state\<close> says what it has done by then. What leaves the manager is kept in its state: the
  statuses broadcast to subscribers, oldest first, and the answers given on oneshot channels,
  each with the number of its request.
\<close>

section \<open>State\<close>

record tracked_order =
  to_order :: signed_order
  to_status :: order_status

definition tracked_order_new :: "signed_order \<Rightarrow> order_status \<Rightarrow> tracked_order" where
  "tracked_order_new order st = \<lparr>to_order = order, to_status = st\<rparr>"

definition set_status :: "order_status \<Rightarrow> tracked_order \<Rightarrow> tracked_order" where
  "set_status st tracked = tracked\<lparr>to_status := st\<rparr>"

definition tracked_is_terminal :: "tracked_order \<Rightarrow> bool" where
  "tracked_is_terminal tracked =
     (case to_status tracked of Filled _ _ _ \<Rightarrow> True | Expired _ _ _ \<Rightarrow> True | Pending _ _ _ \<Rightarrow> False)"

record track_order_request =
  tr_order :: signed_order
  tr_initial_report_sender :: "nat option"

record 'w state_manager =
  sm_event_store :: event_store
  sm_tracked_orders :: "(b256, tracked_order) hash_map"
  sm_tracker :: "'w tracker"
  sm_all_order_hashes :: "b256 set"
  sm_updates :: "order_status list"
  sm_reports :: "(nat \<times> order_status) list"
  sm_snapshots :: "(nat \<times> order_status list) list"
  sm_metrics :: metrics

definition state_manager_new :: "'w tracker \<Rightarrow> u64 \<Rightarrow> 'w state_manager" where
  "state_manager_new tracker retention_blocks =
     \<lparr>sm_event_store = event_store_new retention_blocks, sm_tracked_orders = [],
      sm_tracker = tracker, sm_all_order_hashes = {}, sm_updates = [], sm_reports = [],
      sm_snapshots = [], sm_metrics = metrics_new\<rparr>"

text \<open>The order in which the map of tracked orders is iterated just now.\<close>

definition sm_iter :: "'w env \<Rightarrow> 'w state_manager \<Rightarrow> (b256 \<times> tracked_order) list" where
  "sm_iter env s = hm_iter (e_hash_rank env (snd (sm_tracker s))) (sm_tracked_orders s)"

definition broadcast :: "order_status \<Rightarrow> 'w state_manager \<Rightarrow> 'w state_manager" where
  "broadcast st s = s\<lparr>sm_updates := sm_updates s @ [st]\<rparr>"

definition put_status :: "b256 \<Rightarrow> order_status \<Rightarrow> 'w state_manager \<Rightarrow> 'w state_manager" where
  "put_status hash st s =
     s\<lparr>sm_tracked_orders := hm_modify hash (set_status st) (sm_tracked_orders s)\<rparr>"

definition send_report :: "nat option \<Rightarrow> order_status \<Rightarrow> 'w state_manager \<Rightarrow> 'w state_manager" where
  "send_report sender st s =
     (case sender of None \<Rightarrow> s | Some i \<Rightarrow> s\<lparr>sm_reports := sm_reports s @ [(i, st)]\<rparr>)"

definition update_store_metrics :: "'w state_manager \<Rightarrow> 'w state_manager" where
  "update_store_metrics s = s\<lparr>sm_metrics :=
     set_event_store_order (order_count (sm_event_store s))
       (set_event_store_filled (filled_count (sm_event_store s))
         (set_tracked_orders (length (sm_tracked_orders s)) (sm_metrics s)))\<rparr>"

definition status_label :: "order_status \<Rightarrow> string" where
  "status_label st = (case st of
     Pending _ _ _ \<Rightarrow> ''pending'' | Filled _ _ _ \<Rightarrow> ''filled'' | Expired _ _ _ \<Rightarrow> ''expired'')"

section \<open>New blocks\<close>

text \<open>The body of the loop over the pending orders.\<close>

definition refresh_order ::
  "'w env \<Rightarrow> b256 set \<Rightarrow> b256 \<Rightarrow> 'w state_manager \<Rightarrow> 'w state_manager option" where
  "refresh_order env all_order_hashes hash s =
     (case hm_get (sm_tracked_orders s) hash of
        None \<Rightarrow> Some s
      | Some tracked \<Rightarrow> do {
          let order = to_order tracked;
          let is_in_cache = hash \<in> all_order_hashes;
          (new_status, tracker) \<leftarrow> status_for_order env order is_in_cache (sm_tracker s);
          let status_changed = discriminant (to_status tracked) \<noteq> discriminant new_status;
          let s1 = put_status hash new_status (s\<lparr>sm_tracker := tracker\<rparr>);
          Some (if status_changed \<or> is_pending new_status then broadcast new_status s1 else s1)
        })"

definition pending_hashes :: "'w env \<Rightarrow> 'w state_manager \<Rightarrow> b256 list" where
  "pending_hashes env s = map fst (filter (\<lambda>(_, tracked). \<not> tracked_is_terminal tracked) (sm_iter env s))"

definition handle_new_blocks ::
  "'w env \<Rightarrow> block_tip \<Rightarrow> 'w state_manager \<Rightarrow> 'w state_manager option" where
  "handle_new_blocks env tip s = do {
     let s1 = s\<lparr>sm_event_store := update_tips tip (sm_event_store s)\<rparr>;
     let pending = pending_hashes env s1;
     let all_order_hashes = sm_all_order_hashes s1;
     s2 \<leftarrow> for_each (refresh_order env all_order_hashes) pending s1;
     Some (s2\<lparr>sm_tracked_orders :=
       hm_retain (\<lambda>_ tracked. \<not> tracked_is_terminal tracked) (sm_tracked_orders s2)\<rparr>)
   }"

section \<open>Chain events\<close>

definition build_fill_info ::
  "'w env \<Rightarrow> event_store \<Rightarrow> filled_event \<Rightarrow> tracked_order \<Rightarrow> fill_info option" where
  "build_fill_info env event_store filled tracked = do {
     deadline \<leftarrow> e_to_u64 env (so_deadline (to_order tracked));
     let rollup_initiation_tx = find_order_tx env deadline (so_outputs (to_order tracked)) event_store;
     Some \<lparr>fi_block_number = fe_block_number filled, fi_rollup_initiation_tx = rollup_initiation_tx,
       fi_fill_tx = Some \<lparr>ct_chain = fe_chain filled, ct_tx_hash = fe_tx_hash filled\<rparr>,
       fi_outputs = map (\<lambda>x. \<lparr>fo_token_contract = out_token x, fo_token_symbol = [],
         fo_amount = Amount (out_amount x), fo_recipient = out_recipient x,
         fo_chain = fe_chain filled\<rparr>) (fe_outputs filled)\<rparr>
   }"

text \<open>The body of the loop over the candidate orders.\<close>

definition check_fill ::
  "'w env \<Rightarrow> filled_event \<Rightarrow> b256 \<Rightarrow> 'w state_manager \<Rightarrow> 'w state_manager option" where
  "check_fill env filled hash s =
     (case hm_get (sm_tracked_orders s) hash of
        None \<Rightarrow> Some s
      | Some tracked \<Rightarrow>
          (case is_nonce_consumed env (to_order tracked) (snd (sm_tracker s)) of
             (r, w) \<Rightarrow>
               let s1 = s\<lparr>sm_tracker := (fst (sm_tracker s), w)\<rparr>
               in (case r of
                     Inr True \<Rightarrow> do {
                       let owner = so_owner (to_order tracked);
                       fill_info \<leftarrow> build_fill_info env (sm_event_store s1) filled tracked;
                       let st = Filled hash owner (Some fill_info);
                       Some (broadcast st (put_status hash st s1))
                     }
                   | Inr False \<Rightarrow> Some s1
                   | Inl _ \<Rightarrow> Some s1)))"

definition candidate_hashes :: "'w env \<Rightarrow> filled_event \<Rightarrow> 'w state_manager \<Rightarrow> b256 list" where
  "candidate_hashes env filled s =
     map fst (filter (\<lambda>(_, tracked). fill_outputs_are_superset_of_order_outputs
         (fe_outputs filled) (so_outputs (to_order tracked)))
       (filter (\<lambda>(_, tracked). \<not> tracked_is_terminal tracked) (sm_iter env s)))"

definition check_fills_against_pending ::
  "'w env \<Rightarrow> filled_event \<Rightarrow> 'w state_manager \<Rightarrow> 'w state_manager option" where
  "check_fills_against_pending env filled s =
     for_each (check_fill env filled) (candidate_hashes env filled s) s"

definition handle_chain_event ::
  "'w env \<Rightarrow> chain_event \<Rightarrow> 'w state_manager \<Rightarrow> 'w state_manager option" where
  "handle_chain_event env event s = do {
     s1 \<leftarrow> (case event of
        CE_Filled filled \<Rightarrow>
          check_fills_against_pending env filled
            (s\<lparr>sm_metrics := record_chain_event Kind_Filled (sm_metrics s),
               sm_event_store := insert_filled filled (sm_event_store s)\<rparr>)
      | CE_Order order_event \<Rightarrow>
          Some (s\<lparr>sm_metrics := record_chain_event Kind_Order (sm_metrics s),
               sm_event_store := insert_order order_event (sm_event_store s)\<rparr>));
     Some (update_store_metrics s1)
   }"

section \<open>Registration and snapshots\<close>

definition register_order ::
  "'w env \<Rightarrow> signed_order \<Rightarrow> nat option \<Rightarrow> 'w state_manager \<Rightarrow> 'w state_manager option" where
  "register_order env order initial_status_sender s =
     (let order_hash = so_hash order
      in case hm_get (sm_tracked_orders s) order_hash of
           Some tracked \<Rightarrow> Some (send_report initial_status_sender (to_status tracked) s)
         | None \<Rightarrow> do {
             (st, tracker) \<leftarrow> status_for_order env order True (sm_tracker s);
             let tracked = tracked_order_new order st;
             let s1 = s\<lparr>sm_tracker := tracker,
                   sm_tracked_orders := hm_insert order_hash tracked (sm_tracked_orders s)\<rparr>;
             Some (update_store_metrics (broadcast st (send_report initial_status_sender st s1)))
           })"

definition send_snapshot :: "'w env \<Rightarrow> nat \<Rightarrow> 'w state_manager \<Rightarrow> 'w state_manager" where
  "send_snapshot env i s =
     s\<lparr>sm_snapshots := sm_snapshots s @ [(i, map (\<lambda>(_, tracked). to_status tracked) (sm_iter env s))]\<rparr>"

section \<open>The loop\<close>

text \<open>
  What an iteration of \<open>run_inner\<close> finds ready: the token, and for each channel nothing, its
  end (\<^term>\<open>Some None\<close>) or a message. The watch channel of the cache's hashes is not selected
  on: it is written by order discovery between iterations (\<open>rd_all_order_hashes\<close>).
\<close>

record readiness =
  rd_all_order_hashes :: "b256 set"
  rd_cancelled :: bool
  rd_blocks :: "block_tip option option"
  rd_event :: "chain_event option option"
  rd_order :: "signed_order option option"
  rd_track :: "track_order_request option option"
  rd_snapshot :: "nat option option"

datatype input =
    In_Cancelled
  | In_Blocks block_tip
  | In_Event chain_event
  | In_Order signed_order
  | In_Track track_order_request
  | In_Snapshot nat
  | In_Closed string

text \<open>\<open>select!\<close> with \<open>biased\<close>: the first branch that is ready, in the order written.\<close>

definition select_input :: "readiness \<Rightarrow> input option" where
  "select_input rd =
     (if rd_cancelled rd then Some In_Cancelled
      else case rd_blocks rd of
        Some None \<Rightarrow> Some (In_Closed ''block number channel closed'')
      | Some (Some tip) \<Rightarrow> Some (In_Blocks tip)
      | None \<Rightarrow> (case rd_event rd of
        Some None \<Rightarrow> Some (In_Closed ''event channel closed'')
      | Some (Some event) \<Rightarrow> Some (In_Event event)
      | None \<Rightarrow> (case rd_order rd of
        Some None \<Rightarrow> Some (In_Closed ''order discovery channel closed'')
      | Some (Some order) \<Rightarrow> Some (In_Order order)
      | None \<Rightarrow> (case rd_track rd of
        Some None \<Rightarrow> Some (In_Closed ''track request channel closed'')
      | Some (Some request) \<Rightarrow> Some (In_Track request)
      | None \<Rightarrow> (case rd_snapshot rd of
        Some None \<Rightarrow> Some (In_Closed ''snapshot request channel closed'')
      | Some (Some i) \<Rightarrow> Some (In_Snapshot i)
      | None \<Rightarrow> None)))))"

text \<open>The handler of a message.\<close>

fun handle_input :: "'w env \<Rightarrow> input \<Rightarrow> 'w state_manager \<Rightarrow> 'w state_manager option" where
  "handle_input env (In_Blocks tip) s = handle_new_blocks env tip s"
| "handle_input env (In_Event event) s = handle_chain_event env event s"
| "handle_input env (In_Order order) s = register_order env order None s"
| "handle_input env (In_Track request) s =
     register_order env (tr_order request) (tr_initial_report_sender request) s"
| "handle_input env (In_Snapshot i) s = Some (send_snapshot env i s)"
| "handle_input env In_Cancelled s = Some s"
| "handle_input env (In_Closed _) s = Some s"

text \<open>
  Where a handler that panics has left the state: in the two loops the orders before the one that
  panicked have been stored and broadcast; a registration panics before it changes anything. (What
  the query that panicked has done to the tracker's own cache is not kept.)
\<close>

definition panicked_state :: "'w env \<Rightarrow> input \<Rightarrow> 'w state_manager \<Rightarrow> 'w state_manager" where
  "panicked_state env i s = (case i of
     In_Blocks tip \<Rightarrow>
       (let s1 = s\<lparr>sm_event_store := update_tips tip (sm_event_store s)\<rparr>
        in loop_state (refresh_order env (sm_all_order_hashes s1)) (pending_hashes env s1) s1)
   | In_Event (CE_Filled filled) \<Rightarrow>
       (let s1 = s\<lparr>sm_metrics := record_chain_event Kind_Filled (sm_metrics s),
              sm_event_store := insert_filled filled (sm_event_store s)\<rparr>
        in loop_state (check_fill env filled) (candidate_hashes env filled s1) s1)
   | _ \<Rightarrow> s)"

fun run_inner ::
  "'w env \<Rightarrow> readiness list \<Rightarrow> 'w state_manager \<Rightarrow> (report + unit) task_exit \<times> 'w state_manager" where
  "run_inner env [] s = (Running, s)"
| "run_inner env (rd # rds) s =
     (let s1 = s\<lparr>sm_all_order_hashes := rd_all_order_hashes rd\<rparr>
      in case select_input rd of
           None \<Rightarrow> run_inner env rds s1
         | Some In_Cancelled \<Rightarrow> (Exited (Inr ()), s1)
         | Some (In_Closed msg) \<Rightarrow> (Exited (Inl [msg]), s1)
         | Some i \<Rightarrow> (case handle_input env i s1 of
             None \<Rightarrow> (Crashed, panicked_state env i s1)
           | Some s2 \<Rightarrow> run_inner env rds s2))"

definition run ::
  "'w env \<Rightarrow> readiness list \<Rightarrow> bool \<Rightarrow> 'w state_manager \<Rightarrow>
     ((report + unit) \<times> bool) task_exit \<times> 'w state_manager" where
  "run env rds cancelled s =
     (case run_inner env rds s of (exit, s') \<Rightarrow>
        ((case exit of
            Running \<Rightarrow> Running
          | Crashed \<Rightarrow> Crashed
          | Exited r \<Rightarrow> Exited (handle_task_exit ''state_manager'' r cancelled)), s'))"

end
