(* ===== verification/StateManagerProps.thy ===== *)
theory StateManagerProps
  imports StateManager "HOL-Library.Sublist"
begin

text \<open>
  The state manager's invariant, the effect of each handler on the tracked orders and on the
  broadcast statuses, and what follows for every run: the interfaces \<open>loop_body\<close> and
  \<open>total_body\<close> are interpreted on its loop bodies and on the dispatch of messages.
\<close>

section \<open>The parts of the state\<close>

named_theorems sm_simps \<open>how the small updates of the state act on its parts\<close>

abbreviation tracked :: "'w state_manager \<Rightarrow> b256 \<Rightarrow> tracked_order option" where
  "tracked s h \<equiv> hm_get (sm_tracked_orders s) h"

lemma broadcast_parts [sm_simps]:
  "sm_updates (broadcast st s) = sm_updates s @ [st]"
  "sm_tracked_orders (broadcast st s) = sm_tracked_orders s"
  "sm_event_store (broadcast st s) = sm_event_store s"
  "sm_reports (broadcast st s) = sm_reports s"
  "sm_metrics (broadcast st s) = sm_metrics s"
  "sm_all_order_hashes (broadcast st s) = sm_all_order_hashes s"
  "sm_tracker (broadcast st s) = sm_tracker s"
  "sm_snapshots (broadcast st s) = sm_snapshots s"
  by (simp_all add: broadcast_def)

lemma put_status_parts [sm_simps]:
  "sm_updates (put_status h st s) = sm_updates s"
  "sm_event_store (put_status h st s) = sm_event_store s"
  "sm_reports (put_status h st s) = sm_reports s"
  "sm_metrics (put_status h st s) = sm_metrics s"
  "sm_all_order_hashes (put_status h st s) = sm_all_order_hashes s"
  "sm_tracker (put_status h st s) = sm_tracker s"
  "sm_snapshots (put_status h st s) = sm_snapshots s"
  "hm_wf (sm_tracked_orders (put_status h st s)) = hm_wf (sm_tracked_orders s)"
  "map fst (sm_tracked_orders (put_status h st s)) = map fst (sm_tracked_orders s)"
  by (simp_all add: put_status_def)

lemma tracked_put_status [sm_simps]:
  "tracked (put_status h st s) j = (if j = h then map_option (set_status st) (tracked s h) else tracked s j)"
  by (simp add: put_status_def hm_get_modify)

lemma send_report_parts [sm_simps]:
  "sm_updates (send_report i st s) = sm_updates s"
  "sm_tracked_orders (send_report i st s) = sm_tracked_orders s"
  "sm_event_store (send_report i st s) = sm_event_store s"
  "sm_tracker (send_report i st s) = sm_tracker s"
  "sm_metrics (send_report i st s) = sm_metrics s"
  "sm_all_order_hashes (send_report i st s) = sm_all_order_hashes s"
  "sm_snapshots (send_report i st s) = sm_snapshots s"
  "sm_reports (send_report i st s) = sm_reports s @ (case i of None \<Rightarrow> [] | Some n \<Rightarrow> [(n, st)])"
  by (simp_all add: send_report_def split: option.split)

lemma update_store_metrics_parts [sm_simps]:
  "sm_updates (update_store_metrics s) = sm_updates s"
  "sm_tracked_orders (update_store_metrics s) = sm_tracked_orders s"
  "sm_event_store (update_store_metrics s) = sm_event_store s"
  "sm_reports (update_store_metrics s) = sm_reports s"
  "sm_tracker (update_store_metrics s) = sm_tracker s"
  "sm_all_order_hashes (update_store_metrics s) = sm_all_order_hashes s"
  "sm_snapshots (update_store_metrics s) = sm_snapshots s"
  by (simp_all add: update_store_metrics_def)

lemma set_status_parts [sm_simps]:
  "to_order (set_status st t) = to_order t" "to_status (set_status st t) = st"
  by (simp_all add: set_status_def)

lemma tracked_order_new_parts [sm_simps]:
  "to_order (tracked_order_new order st) = order" "to_status (tracked_order_new order st) = st"
  by (simp_all add: tracked_order_new_def)

lemma tracked_is_terminal_iff: "tracked_is_terminal t \<longleftrightarrow> is_terminal (to_status t)"
  by (cases "to_status t") (simp_all add: tracked_is_terminal_def)

section \<open>The invariant\<close>

text \<open>The last status broadcast for an order.\<close>

definition last_update :: "b256 \<Rightarrow> order_status list \<Rightarrow> order_status option" where
  "last_update h us = find (\<lambda>st. status_order_hash st = h) (rev us)"

lemma last_update_Nil [simp]: "last_update h [] = None"
  by (simp add: last_update_def)

lemma last_update_snoc:
  "last_update h (us @ [st]) = (if status_order_hash st = h then Some st else last_update h us)"
  by (simp add: last_update_def)

lemma last_update_append:
  "last_update h (us @ vs) = (case last_update h vs of None \<Rightarrow> last_update h us | Some st \<Rightarrow> Some st)"
  by (induction vs rule: rev_induct) (simp_all add: last_update_snoc append_assoc [symmetric] del: append_assoc)

lemma last_update_None: "last_update h us = None \<longleftrightarrow> h \<notin> status_order_hash ` set us"
  by (induction us rule: rev_induct) (auto simp: last_update_snoc)

lemma last_update_in: "last_update h us = Some st \<Longrightarrow> st \<in> set us \<and> status_order_hash st = h"
  by (induction us rule: rev_induct) (auto simp: last_update_snoc split: if_splits)

lemma last_update_distinct:
  "distinct (map status_order_hash us) \<Longrightarrow> st \<in> set us \<Longrightarrow> last_update (status_order_hash st) us = Some st"
  by (induction us rule: rev_induct) (auto simp: last_update_snoc)

text \<open>A tracked order sits under its own hash, and its status is about it.\<close>

definition order_status_ok :: "b256 \<Rightarrow> tracked_order \<Rightarrow> bool" where
  "order_status_ok h t \<longleftrightarrow> so_hash (to_order t) = h \<and> status_order_hash (to_status t) = h \<and>
     status_owner (to_status t) = so_owner (to_order t)"

definition sm_wf :: "'w state_manager \<Rightarrow> bool" where
  "sm_wf s \<longleftrightarrow> hm_wf (sm_tracked_orders s) \<and> es_wf (sm_event_store s) \<and>
     (\<forall>h t. tracked s h = Some t \<longrightarrow> order_status_ok h t)"

text \<open>The stored status of an order is the last one broadcast for it.\<close>

definition coherent :: "'w state_manager \<Rightarrow> bool" where
  "coherent s \<longleftrightarrow> (\<forall>h t. tracked s h = Some t \<longrightarrow> last_update h (sm_updates s) = Some (to_status t))"

definition sm_inv :: "'w state_manager \<Rightarrow> bool" where
  "sm_inv s \<longleftrightarrow> sm_wf s \<and> coherent s"

lemma sm_wfD:
  "sm_wf s \<Longrightarrow> tracked s h = Some t \<Longrightarrow> so_hash (to_order t) = h"
  "sm_wf s \<Longrightarrow> tracked s h = Some t \<Longrightarrow> status_order_hash (to_status t) = h"
  "sm_wf s \<Longrightarrow> tracked s h = Some t \<Longrightarrow> status_owner (to_status t) = so_owner (to_order t)"
  by (auto simp: sm_wf_def order_status_ok_def)

lemma sm_inv_new: "sm_inv (state_manager_new tracker n)"
  by (simp add: sm_inv_def sm_wf_def coherent_def state_manager_new_def es_wf_new)

text \<open>The parts of the state that the invariant reads.\<close>

lemma sm_wf_cong:
  "sm_tracked_orders s = sm_tracked_orders s' \<Longrightarrow> es_wf (sm_event_store s') \<Longrightarrow> sm_wf s \<Longrightarrow> sm_wf s'"
  by (simp add: sm_wf_def)

lemma coherent_cong:
  "sm_tracked_orders s = sm_tracked_orders s' \<Longrightarrow> sm_updates s = sm_updates s' \<Longrightarrow>
     coherent s \<longleftrightarrow> coherent s'"
  by (simp add: coherent_def)

lemma sm_wf_put_status:
  "sm_wf s \<Longrightarrow> tracked s h = Some t \<Longrightarrow> status_order_hash st = h \<Longrightarrow>
     status_owner st = so_owner (to_order t) \<Longrightarrow> sm_wf (put_status h st s)"
  by (auto simp: sm_wf_def order_status_ok_def sm_simps)

lemma sm_inv_update:
  assumes "sm_inv s" "tracked s h = Some t" "status_order_hash st = h"
    and "status_owner st = so_owner (to_order t)"
  shows "sm_inv (broadcast st (put_status h st s))"
proof -
  have "sm_wf (put_status h st s)"
    using assms by (auto simp: sm_inv_def intro: sm_wf_put_status)
  then have "sm_wf (broadcast st (put_status h st s))"
    by (simp add: sm_wf_def sm_simps)
  moreover have "coherent (broadcast st (put_status h st s))"
    using assms by (auto simp: coherent_def sm_inv_def last_update_snoc sm_simps)
  ultimately show ?thesis by (simp add: sm_inv_def)
qed

lemma hm_get_iter: "hm_wf m \<Longrightarrow> (k, v) \<in> set (hm_iter rank m) \<longleftrightarrow> hm_get m k = Some v"
  by (simp add: hm_get_in_set)

lemma sm_inv_tracker [simp]: "sm_inv (s\<lparr>sm_tracker := tr\<rparr>) = sm_inv s"
  by (simp add: sm_inv_def sm_wf_def coherent_def)

section \<open>The interface of the loops over orders\<close>

text \<open>
  Both loops over tracked orders compute, for each hash of a list fixed beforehand, a new
  status or none, with the tracker threaded through; a new status is stored and broadcast.
\<close>

fun compute_all :: "('k \<Rightarrow> 't \<Rightarrow> 'r \<Rightarrow> ('st option \<times> 'r) option) \<Rightarrow> ('k \<times> 't) list \<Rightarrow> 'r \<Rightarrow>
    ('st list \<times> 'r) option" where
  "compute_all compute [] tr = Some ([], tr)"
| "compute_all compute ((h, t) # ts) tr = do {
     (new, tr1) \<leftarrow> compute h t tr;
     (news, tr2) \<leftarrow> compute_all compute ts tr1;
     Some (case new of None \<Rightarrow> news | Some st \<Rightarrow> st # news, tr2)
   }"

definition publish :: "order_status option \<Rightarrow> b256 \<Rightarrow> 'w state_manager \<Rightarrow> 'w state_manager" where
  "publish new h s = (case new of None \<Rightarrow> s | Some st \<Rightarrow> broadcast st (put_status h st s))"

definition refreshed :: "order_status list \<Rightarrow> b256 \<Rightarrow> tracked_order \<Rightarrow> tracked_order" where
  "refreshed sts h t = (case last_update h sts of None \<Rightarrow> t | Some st \<Rightarrow> set_status st t)"

text \<open>The state after a loop has broadcast a list of statuses.\<close>

definition refreshed_by ::
  "order_status list \<Rightarrow> 'w tracker \<Rightarrow> 'w state_manager \<Rightarrow> 'w state_manager \<Rightarrow> bool" where
  "refreshed_by sts tr s s' \<longleftrightarrow> sm_updates s' = sm_updates s @ sts \<and> sm_tracker s' = tr \<and>
     (\<forall>j. tracked s' j = map_option (refreshed sts j) (tracked s j)) \<and>
     sm_event_store s' = sm_event_store s \<and> sm_metrics s' = sm_metrics s \<and>
     sm_reports s' = sm_reports s \<and> sm_snapshots s' = sm_snapshots s \<and>
     sm_all_order_hashes s' = sm_all_order_hashes s"

lemma refreshed_id: "h \<notin> status_order_hash ` set sts \<Longrightarrow> refreshed sts h = id"
  using last_update_None [of h sts] by (simp add: refreshed_def fun_eq_iff)

lemma refreshed_by_Nil: "refreshed_by [] (sm_tracker s) s s"
  by (simp add: refreshed_by_def refreshed_id option.map_id)

lemma refreshed_Cons:
  assumes "status_order_hash st \<notin> status_order_hash ` set sts"
  shows "refreshed (st # sts) j = (if j = status_order_hash st then set_status st else refreshed sts j)"
proof -
  have "last_update j (st # sts) =
      (if j = status_order_hash st then Some st else last_update j sts)"
    using assms last_update_append [of j "[st]" sts] last_update_None [of "status_order_hash st" sts]
    by (auto simp: last_update_snoc [of _ "[]", simplified] split: option.splits)
  then show ?thesis by (simp add: refreshed_def fun_eq_iff)
qed

lemma refreshed_by_publish:
  assumes "refreshed_by news tr (publish new h (s\<lparr>sm_tracker := tr0\<rparr>)) s'"
    and "h \<notin> status_order_hash ` set news" "\<forall>st. new = Some st \<longrightarrow> status_order_hash st = h"
  shows "refreshed_by (case new of None \<Rightarrow> news | Some st \<Rightarrow> st # news) tr s s'"
proof (cases new)
  case None
  then show ?thesis using assms(1) by (simp add: refreshed_by_def publish_def)
next
  case (Some st)
  with assms(2,3) have "status_order_hash st \<notin> status_order_hash ` set news" by simp
  note c = refreshed_Cons [OF this]
  have "tracked s' j = map_option (refreshed (st # news) j) (tracked s j)" for j
    using assms Some by (simp add: refreshed_by_def publish_def c refreshed_id option.map_id sm_simps)
  then show ?thesis using assms(1) Some by (simp add: refreshed_by_def publish_def sm_simps)
qed

lemma subseq_set_subset: "subseq xs ys \<Longrightarrow> set xs \<subseteq> set ys"
proof
  fix x assume "subseq xs ys" "x \<in> set xs"
  from list_emb_set [OF this] show "x \<in> set ys" by auto
qed

lemma subseq_distinct: "subseq xs ys \<Longrightarrow> distinct ys \<Longrightarrow> distinct xs"
  by (induction rule: list_emb.induct) (auto dest: subseq_set_subset)

lemma tracked_publish:
  "tracked (publish new h s) j = (if j = h then
     map_option (case new of None \<Rightarrow> id | Some st \<Rightarrow> set_status st) (tracked s h) else tracked s j)"
  by (auto simp: publish_def sm_simps option.map_id split: option.split)

locale update_loop =
  fixes body :: "b256 \<Rightarrow> 'w state_manager \<Rightarrow> 'w state_manager option"
    and compute :: "b256 \<Rightarrow> tracked_order \<Rightarrow> 'w tracker \<Rightarrow> (order_status option \<times> 'w tracker) option"
    and store :: event_store
  assumes step: "sm_event_store s = store \<Longrightarrow> tracked s h = Some t \<Longrightarrow> \<not> is_terminal (to_status t) \<Longrightarrow>
      body h s = map_option (\<lambda>(new, tr). publish new h (s\<lparr>sm_tracker := tr\<rparr>)) (compute h t (sm_tracker s))"
    and about: "compute h t tr = Some (Some st, tr') \<Longrightarrow> so_hash (to_order t) = h \<Longrightarrow>
      status_order_hash st = h \<and> status_owner st = so_owner (to_order t)"
begin

lemma publish_inv:
  assumes "sm_inv s" "tracked s h = Some t" "compute h t tr0 = Some (new, tr)"
  shows "sm_inv (publish new h (s\<lparr>sm_tracker := tr\<rparr>)) \<and> (\<forall>st. new = Some st \<longrightarrow> status_order_hash st = h)"
proof -
  have "so_hash (to_order t) = h" using assms(1,2) by (auto simp: sm_inv_def dest: sm_wfD(1))
  then have "status_order_hash st = h \<and> status_owner st = so_owner (to_order t)" if "new = Some st" for st
    using about [of h t tr0 st tr] assms(3) that by simp
  then show ?thesis
    using assms(1,2) by (cases new) (auto simp: publish_def intro!: sm_inv_update)
qed

lemma loop_exact:
  assumes "sm_inv s" "sm_event_store s = store" "distinct hs"
    and "\<forall>h \<in> set hs. \<exists>t. tracked s h = Some t \<and> \<not> is_terminal (to_status t)"
    and "for_each body hs s = Some s'"
  shows "\<exists>sts tr. compute_all compute (map (\<lambda>h. (h, the (tracked s h))) hs) (sm_tracker s) = Some (sts, tr) \<and>
    refreshed_by sts tr s s' \<and> sm_inv s' \<and> subseq (map status_order_hash sts) hs"
  using assms
proof (induction hs arbitrary: s)
  case Nil
  then show ?case by (auto simp: refreshed_by_Nil)
next
  case (Cons h hs)
  from Cons.prems(4) obtain t where t: "tracked s h = Some t" "\<not> is_terminal (to_status t)" by auto
  from Cons.prems(5) step [OF Cons.prems(2) t] obtain new tr where
    c: "compute h t (sm_tracker s) = Some (new, tr)" and
    rest: "for_each body hs (publish new h (s\<lparr>sm_tracker := tr\<rparr>)) = Some s'"
    by (auto split: option.splits)
  let ?s1 = "publish new h (s\<lparr>sm_tracker := tr\<rparr>)"
  note inv1 = publish_inv [OF Cons.prems(1) t(1) c]
  have nin: "h \<notin> set hs" and d: "distinct hs" using Cons.prems(3) by auto
  have same: "tracked ?s1 j = tracked s j" if "j \<in> set hs" for j
    using that nin by (auto simp: tracked_publish)
  have parts: "sm_event_store ?s1 = store" "sm_tracker ?s1 = tr"
    using Cons.prems(2) by (auto simp: publish_def sm_simps split: option.split)
  have pend: "\<forall>h \<in> set hs. \<exists>t. tracked ?s1 h = Some t \<and> \<not> is_terminal (to_status t)"
    using Cons.prems(4) same by simp
  have args: "map (\<lambda>h. (h, the (tracked ?s1 h))) hs = map (\<lambda>h. (h, the (tracked s h))) hs"
    using same by simp
  from Cons.IH [OF conjunct1 [OF inv1] parts(1) d pend rest, unfolded args parts(2)] obtain news tr2 where
    all: "compute_all compute (map (\<lambda>h. (h, the (tracked s h))) hs) tr = Some (news, tr2)" and
    eff: "refreshed_by news tr2 ?s1 s'" "sm_inv s'" "subseq (map status_order_hash news) hs" by auto
  have "h \<notin> status_order_hash ` set news" 
    using subseq_set_subset [OF eff(3)] nin by auto
  then have "refreshed_by (case new of None \<Rightarrow> news | Some st \<Rightarrow> st # news) tr2 s s'"
    using eff(1) inv1 by (intro refreshed_by_publish) auto
  moreover have "subseq (map status_order_hash (case new of None \<Rightarrow> news | Some st \<Rightarrow> st # news)) (h # hs)"
    using eff(3) inv1 by (auto split: option.split)
  ultimately show ?case using c t(1) all eff(2) by simp
qed

text \<open>A loop that panics has done so for a part of the orders.\<close>

lemma loop_part:
  assumes "sm_inv s" "sm_event_store s = store" "distinct hs"
    and "\<forall>h \<in> set hs. \<exists>t. tracked s h = Some t \<and> \<not> is_terminal (to_status t)"
  shows "\<exists>sts tr. refreshed_by sts tr s (loop_state body hs s) \<and> sm_inv (loop_state body hs s) \<and>
    subseq (map status_order_hash sts) hs"
proof -
  from loop_state_prefix [of hs body s] obtain ys zs where
    split: "hs = ys @ zs" "for_each body ys s = Some (loop_state body hs s)" by blast
  with loop_exact [OF assms(1,2), of ys "loop_state body hs s"] assms(3,4) obtain sts tr where
    "refreshed_by sts tr s (loop_state body hs s)" "sm_inv (loop_state body hs s)" "subseq (map status_order_hash sts) ys"
    by auto
  then show ?thesis using split(1) using list_emb_prefix by blast
qed

end

section \<open>Refreshing the pending orders\<close>

definition refresh_compute ::
  "'w env \<Rightarrow> b256 set \<Rightarrow> b256 \<Rightarrow> tracked_order \<Rightarrow> 'w tracker \<Rightarrow> (order_status option \<times> 'w tracker) option" where
  "refresh_compute env H h t tr =
     map_option (map_prod Some id) (status_for_order env (to_order t) (h \<in> H) tr)"

interpretation refresh: update_loop "refresh_order env H" "refresh_compute env H" store for env :: "'w env" and H store
proof unfold_locales
  fix s :: "'w state_manager" and h t
  assume t: "tracked s h = Some t" "\<not> is_terminal (to_status t)"
  have "discriminant (to_status t) \<noteq> discriminant st \<or> is_pending st" for st
    using t(2) by (simp add: discriminant_neq_terminal is_pending_not_terminal)
  then show "refresh_order env H h s =
      map_option (\<lambda>(new, tr). publish new h (s\<lparr>sm_tracker := tr\<rparr>)) (refresh_compute env H h t (sm_tracker s))"
    by (auto simp: refresh_order_def refresh_compute_def publish_def t(1) Let_def map_option_case
        split: option.split)
next
  show "refresh_compute env H h t tr = Some (Some st, tr') \<Longrightarrow> so_hash (to_order t) = h \<Longrightarrow>
      status_order_hash st = h \<and> status_owner st = so_owner (to_order t)" for h t tr st tr'
    by (auto simp: refresh_compute_def dest: status_for_order_identity)
qed

text \<open>
  The statuses of a list of orders, each with its presence in the cache, computed one after the
  other with the tracker threaded through.
\<close>

fun status_all :: "'w env \<Rightarrow> (signed_order \<times> bool) list \<Rightarrow> 'w tracker \<Rightarrow>
    (order_status list \<times> 'w tracker) option" where
  "status_all env [] tr = Some ([], tr)"
| "status_all env ((order, in_cache) # orders) tr = do {
     (st, tr1) \<leftarrow> status_for_order env order in_cache tr;
     (sts, tr2) \<leftarrow> status_all env orders tr1;
     Some (st # sts, tr2)
   }"

lemma compute_all_refresh:
  "compute_all (refresh_compute env H) ts tr =
     status_all env (map (\<lambda>(h, t). (to_order t, h \<in> H)) ts) tr"
proof (induction ts arbitrary: tr)
  case (Cons p ts)
  then show ?case
    by (cases p; cases "status_for_order env (to_order (snd p)) (fst p \<in> H) tr")
      (auto simp: refresh_compute_def split: Option.bind_split)
qed simp

lemma status_all_hashes:
  "status_all env orders tr = Some (sts, tr') \<Longrightarrow> map status_order_hash sts = map (\<lambda>(order, _). so_hash order) orders"
  by (induction env orders tr arbitrary: sts tr' rule: status_all.induct)
    (auto split: Option.bind_splits simp: status_for_order_identity)

lemma pending_hashes_distinct: "hm_wf (sm_tracked_orders s) \<Longrightarrow> distinct (pending_hashes env s)"
  unfolding pending_hashes_def sm_iter_def
  by (rule distinct_map_filter) (rule hm_iter_distinct)

lemma pending_hashes_set:
  assumes "hm_wf (sm_tracked_orders s)"
  shows "h \<in> set (pending_hashes env s) \<longleftrightarrow> (\<exists>t. tracked s h = Some t \<and> \<not> is_terminal (to_status t))"
  using hm_get_iter [OF assms] by (force simp: pending_hashes_def sm_iter_def tracked_is_terminal_iff)

text \<open>What a tracked order is after new blocks, given the statuses that were broadcast.\<close>

lemma handle_new_blocks_effect:
  assumes inv: "sm_inv s" and h: "handle_new_blocks env tip s = Some s'"
  obtains sts tr where
    "status_all env (map (\<lambda>h. (to_order (the (tracked s h)), h \<in> sm_all_order_hashes s)) (pending_hashes env s))
       (sm_tracker s) = Some (sts, tr)"
    "map status_order_hash sts = pending_hashes env s"
    "sm_updates s' = sm_updates s @ sts"
    "sm_tracker s' = tr"
    "\<And>j. tracked s' j = (case map_option (refreshed sts j) (tracked s j) of
        None \<Rightarrow> None | Some t \<Rightarrow> if is_terminal (to_status t) then None else Some t)"
    "sm_event_store s' = update_tips tip (sm_event_store s)"
    "sm_metrics s' = sm_metrics s" "sm_reports s' = sm_reports s" "sm_inv s'"
proof -
  let ?s1 = "s\<lparr>sm_event_store := update_tips tip (sm_event_store s)\<rparr>"
  have inv1: "sm_inv ?s1"
    using inv by (auto simp: sm_inv_def sm_wf_def coherent_def es_wf_update_tips)
  have ph: "pending_hashes env ?s1 = pending_hashes env s"
    by (simp add: pending_hashes_def sm_iter_def)
  have wf: "hm_wf (sm_tracked_orders s)" using inv by (simp add: sm_inv_def sm_wf_def)
  from h obtain s2 where
    loop: "for_each (refresh_order env (sm_all_order_hashes s)) (pending_hashes env s) ?s1 = Some s2" and
    s': "s' = s2\<lparr>sm_tracked_orders := hm_retain (\<lambda>_ t. \<not> tracked_is_terminal t) (sm_tracked_orders s2)\<rparr>"
    by (auto simp: handle_new_blocks_def Let_def ph split: Option.bind_splits)
  have pend: "\<forall>h \<in> set (pending_hashes env s). \<exists>t. tracked ?s1 h = Some t \<and> \<not> is_terminal (to_status t)"
    using pending_hashes_set [OF wf, of _ env] by simp
  from refresh.loop_exact [OF inv1 refl pending_hashes_distinct [OF wf] pend loop] obtain sts tr where
    all: "status_all env (map (\<lambda>h. (to_order (the (tracked s h)), h \<in> sm_all_order_hashes s)) (pending_hashes env s))
       (sm_tracker s) = Some (sts, tr)" and
    eff: "refreshed_by sts tr ?s1 s2" and inv2: "sm_inv s2"
    by (auto simp: compute_all_refresh comp_def)
  have wf2: "hm_wf (sm_tracked_orders s2)" using inv2 by (simp add: sm_inv_def sm_wf_def)
  have tr': "tracked s' j = (case tracked s2 j of None \<Rightarrow> None
      | Some t \<Rightarrow> if is_terminal (to_status t) then None else Some t)" for j
    by (auto simp: s' hm.get_retain [OF wf2] tracked_is_terminal_iff split: option.split)
  have hashes: "map status_order_hash sts = pending_hashes env s"
    using status_all_hashes [OF all] pend inv
    by (force simp: comp_def sm_inv_def intro!: map_idI dest: sm_wfD(1))
  have inv': "sm_inv s'"
    using inv2 tr' hm.wf_retain [OF wf2]
    by (auto simp: sm_inv_def sm_wf_def coherent_def s' split: option.splits if_splits)
  show thesis
    by (rule that [OF all hashes]) (use eff tr' inv' s' in \<open>auto simp: refreshed_by_def\<close>)
qed

section \<open>Confirming fills\<close>

text \<open>The status that a confirmed fill gives an order.\<close>

definition confirmed :: "'w env \<Rightarrow> event_store \<Rightarrow> filled_event \<Rightarrow> tracked_order \<Rightarrow> order_status \<Rightarrow> bool" where
  "confirmed env es filled t st \<longleftrightarrow>
     (\<exists>info w. st = Filled (so_hash (to_order t)) (so_owner (to_order t)) (Some info) \<and>
        build_fill_info env es filled t = Some info \<and>
        fst (q_nonce_consumed env (to_order t) w) = Inr True)"

definition fill_compute ::
  "'w env \<Rightarrow> filled_event \<Rightarrow> event_store \<Rightarrow> b256 \<Rightarrow> tracked_order \<Rightarrow> 'w tracker \<Rightarrow>
     (order_status option \<times> 'w tracker) option" where
  "fill_compute env filled store h t tr =
     (case q_nonce_consumed env (to_order t) (snd tr) of (r, w) \<Rightarrow>
        if r = Inr True
        then map_option (\<lambda>info. (Some (Filled h (so_owner (to_order t)) (Some info)), (fst tr, w)))
          (build_fill_info env store filled t)
        else Some (None, (fst tr, w)))"

interpretation fills: update_loop "check_fill env filled" "fill_compute env filled store" store
  for env :: "'w env" and filled store
proof unfold_locales
  fix s :: "'w state_manager" and h t
  assume "sm_event_store s = store" "tracked s h = Some t"
  moreover have "map_sum NonceCheck id r = Inr b \<longleftrightarrow> r = Inr b" for r :: "ext_error + bool" and b
    by (cases r) auto
  ultimately show "check_fill env filled h s =
      map_option (\<lambda>(new, tr). publish new h (s\<lparr>sm_tracker := tr\<rparr>)) (fill_compute env filled store h t (sm_tracker s))"
    by (auto simp: check_fill_def fill_compute_def publish_def is_nonce_consumed_cases Let_def
        split: prod.split sum.split bool.split Option.bind_split)
next
  show "fill_compute env filled store h t tr = Some (Some st, tr') \<Longrightarrow> so_hash (to_order t) = h \<Longrightarrow>
      status_order_hash st = h \<and> status_owner st = so_owner (to_order t)" for h t tr st tr'
    by (auto simp: fill_compute_def split: prod.splits if_splits)
qed

text \<open>Each computed status is a confirmed fill, and an order without one had a nonce not known to be consumed.\<close>

lemma compute_all_fills:
  assumes "compute_all (fill_compute env filled store) ts tr = Some (sts, tr')"
    and "\<forall>(h, t) \<in> set ts. so_hash (to_order t) = h"
  shows "(\<forall>st \<in> set sts. \<exists>t. (status_order_hash st, t) \<in> set ts \<and> confirmed env store filled t st) \<and>
    (\<forall>(h, t) \<in> set ts. h \<in> status_order_hash ` set sts \<or>
      (\<exists>w. fst (q_nonce_consumed env (to_order t) w) \<noteq> Inr True))"
  using assms
proof (induction ts arbitrary: tr sts)
  case (Cons p ts)
  obtain h t where p: "p = (h, t)" by (rule prod.exhaust)
  from Cons.prems(1) obtain new tr1 news where c: "fill_compute env filled store h t tr = Some (new, tr1)"
    "compute_all (fill_compute env filled store) ts tr1 = Some (news, tr')"
    "sts = (case new of None \<Rightarrow> news | Some st \<Rightarrow> st # news)"
    by (auto simp: p split: Option.bind_splits)
  have "so_hash (to_order t) = h" using Cons.prems(2) p by simp
  then have first: "case new of None \<Rightarrow> \<exists>w. fst (q_nonce_consumed env (to_order t) w) \<noteq> Inr True
      | Some st \<Rightarrow> status_order_hash st = h \<and> confirmed env store filled t st"
    using c(1) by (auto simp: fill_compute_def confirmed_def split: prod.splits if_splits)
      (metis fst_conv)+
  show ?case
    using Cons.IH [OF c(2)] Cons.prems(2) first c(3) p by (cases new) fastforce+
qed simp

lemma candidate_hashes_set:
  assumes "hm_wf (sm_tracked_orders s)"
  shows "h \<in> set (candidate_hashes env filled s) \<longleftrightarrow>
    (\<exists>t. tracked s h = Some t \<and> \<not> is_terminal (to_status t) \<and>
      fill_outputs_are_superset_of_order_outputs (fe_outputs filled) (so_outputs (to_order t)))"
  using hm_get_iter [OF assms]
  by (force simp: candidate_hashes_def sm_iter_def tracked_is_terminal_iff)

lemma candidate_hashes_distinct:
  "hm_wf (sm_tracked_orders s) \<Longrightarrow> distinct (candidate_hashes env filled s)"
  unfolding candidate_hashes_def sm_iter_def filter_filter
  by (rule distinct_map_filter) (rule hm_iter_distinct)

lemma check_fills_effect:
  assumes inv: "sm_inv s" and h: "check_fills_against_pending env filled s = Some s'"
  obtains sts tr where "refreshed_by sts tr s s'" "sm_inv s'" "distinct (map status_order_hash sts)"
    "\<And>st. st \<in> set sts \<Longrightarrow> \<exists>t. tracked s (status_order_hash st) = Some t \<and> \<not> is_terminal (to_status t) \<and>
       fill_outputs_are_superset_of_order_outputs (fe_outputs filled) (so_outputs (to_order t)) \<and>
       confirmed env (sm_event_store s) filled t st"
    "\<And>h t. tracked s h = Some t \<Longrightarrow> \<not> is_terminal (to_status t) \<Longrightarrow>
       fill_outputs_are_superset_of_order_outputs (fe_outputs filled) (so_outputs (to_order t)) \<Longrightarrow>
       h \<in> status_order_hash ` set sts \<or> (\<exists>w. fst (q_nonce_consumed env (to_order t) w) \<noteq> Inr True)"
proof -
  have wf: "hm_wf (sm_tracked_orders s)" using inv by (simp add: sm_inv_def sm_wf_def)
  let ?hs = "candidate_hashes env filled s"
  note cand = candidate_hashes_set [OF wf, of _ env filled]
  have pend: "\<forall>h \<in> set ?hs. \<exists>t. tracked s h = Some t \<and> \<not> is_terminal (to_status t)"
    using cand by auto
  from fills.loop_exact [OF inv refl candidate_hashes_distinct [OF wf] pend
      h [unfolded check_fills_against_pending_def]] obtain sts tr where
    all: "compute_all (fill_compute env filled (sm_event_store s)) (map (\<lambda>h. (h, the (tracked s h))) ?hs) (sm_tracker s) = Some (sts, tr)"
    and eff: "refreshed_by sts tr s s'" "sm_inv s'" and sub: "subseq (map status_order_hash sts) ?hs"
    by blast
  have "\<forall>(h, t) \<in> set (map (\<lambda>h. (h, the (tracked s h))) ?hs). so_hash (to_order t) = h"
    using pend inv by (force simp: sm_inv_def dest: sm_wfD(1))
  note r = compute_all_fills [OF all this]
  have "distinct (map status_order_hash sts)"
    using sub candidate_hashes_distinct [OF wf] by (rule subseq_distinct)
  then show thesis
    by (rule that [OF eff]) (use r cand in fastforce)+
qed

section \<open>The invariant through every handler\<close>

lemma handle_chain_event_inv:
  assumes "sm_inv s" "handle_chain_event env event s = Some s'"
  shows "sm_inv s'"
proof (cases event)
  case (CE_Filled filled)
  let ?s1 = "s\<lparr>sm_metrics := record_chain_event Kind_Filled (sm_metrics s),
      sm_event_store := insert_filled filled (sm_event_store s)\<rparr>"
  from assms(2) CE_Filled obtain s2 where c: "check_fills_against_pending env filled ?s1 = Some s2"
    and s': "s' = update_store_metrics s2"
    by (auto simp: handle_chain_event_def split: Option.bind_splits)
  have "sm_inv ?s1"
    using assms(1) by (simp add: sm_inv_def sm_wf_def coherent_def es_wf_insert_filled)
  from check_fills_effect [OF this c] have "sm_inv s2" by blast
  then show ?thesis by (simp add: s' sm_inv_def sm_wf_def coherent_def sm_simps)
next
  case (CE_Order order_event)
  with assms show ?thesis
    by (auto simp: handle_chain_event_def sm_inv_def sm_wf_def coherent_def sm_simps es_wf_insert_order)
qed

lemma register_order_new:
  assumes "tracked s (so_hash order) = None" "register_order env order sender s = Some s'"
  obtains st tr where "status_for_order env order True (sm_tracker s) = Some (st, tr)"
    "s' = update_store_metrics (broadcast st (send_report sender st (s\<lparr>sm_tracker := tr,
       sm_tracked_orders := hm_insert (so_hash order) (tracked_order_new order st) (sm_tracked_orders s)\<rparr>)))"
  using assms by (auto simp: register_order_def Let_def split: Option.bind_splits)

lemma register_order_inv:
  assumes inv: "sm_inv s" and r: "register_order env order sender s = Some s'"
  shows "sm_inv s'"
proof (cases "tracked s (so_hash order)")
  case (Some t)
  with r have "s' = send_report sender (to_status t) s" by (simp add: register_order_def)
  then show ?thesis using inv by (simp add: sm_inv_def sm_wf_def coherent_def sm_simps)
next
  case None
  from register_order_new [OF this r] obtain st tr where
    st: "status_for_order env order True (sm_tracker s) = Some (st, tr)" and
    s': "s' = update_store_metrics (broadcast st (send_report sender st (s\<lparr>sm_tracker := tr,
       sm_tracked_orders := hm_insert (so_hash order) (tracked_order_new order st) (sm_tracked_orders s)\<rparr>)))" .
  have id: "status_order_hash st = so_hash order" "status_owner st = so_owner order"
    using status_for_order_identity [OF st] by auto
  have "sm_wf s'" using inv id
    by (auto simp: s' sm_inv_def sm_wf_def sm_simps hm.wf_put hm.get_put order_status_ok_def split: if_splits)
  moreover have "coherent s'" using inv id
    by (auto simp: s' sm_inv_def coherent_def sm_simps hm.get_put last_update_snoc split: if_splits)
  ultimately show ?thesis by (simp add: sm_inv_def)
qed

lemma handle_input_inv:
  assumes "sm_inv s" "handle_input env i s = Some s'"
  shows "sm_inv s'"
proof (cases i)
  case (In_Blocks tip)
  then show ?thesis using assms handle_new_blocks_effect [OF assms(1)] by auto
next
  case (In_Snapshot n)
  then show ?thesis using assms
    by (auto simp: send_snapshot_def sm_inv_def sm_wf_def coherent_def)
qed (use assms handle_chain_event_inv register_order_inv in auto)

section \<open>Panics in the middle\<close>

text \<open>A handler that panics has refreshed some pending orders, and nothing else that is visible.\<close>

definition partly_refreshed :: "order_status list \<Rightarrow> 'w state_manager \<Rightarrow> 'w state_manager \<Rightarrow> bool" where
  "partly_refreshed sts s s' \<longleftrightarrow> sm_updates s' = sm_updates s @ sts \<and>
     (\<forall>j. tracked s' j = map_option (refreshed sts j) (tracked s j)) \<and>
     sm_reports s' = sm_reports s \<and> sm_snapshots s' = sm_snapshots s \<and>
     distinct (map status_order_hash sts) \<and>
     (\<forall>h \<in> status_order_hash ` set sts. \<exists>t. tracked s h = Some t \<and> \<not> is_terminal (to_status t))"

lemma partly_refreshed_Nil: "partly_refreshed [] s s"
  by (simp add: partly_refreshed_def refreshed_id option.map_id)

lemma partly_refreshedI:
  assumes "refreshed_by sts tr s1 s'" "subseq (map status_order_hash sts) hs" "distinct hs"
    and "\<forall>h \<in> set hs. \<exists>t. tracked s1 h = Some t \<and> \<not> is_terminal (to_status t)"
    and "sm_tracked_orders s1 = sm_tracked_orders s" "sm_updates s1 = sm_updates s"
      "sm_reports s1 = sm_reports s" "sm_snapshots s1 = sm_snapshots s"
  shows "partly_refreshed sts s s'"
proof -
  have "\<exists>t. tracked s h = Some t \<and> \<not> is_terminal (to_status t)" if "h \<in> status_order_hash ` set sts" for h
    using assms(4,5) subseq_set_subset [OF assms(2)] that by auto
  then show ?thesis
    using assms(1,5-8) subseq_distinct [OF assms(2,3)] by (simp add: partly_refreshed_def refreshed_by_def)
qed

lemma panicked_effect:
  assumes inv: "sm_inv s"
  shows "\<exists>sts. partly_refreshed sts s (panicked_state env i s) \<and> sm_inv (panicked_state env i s) \<and>
    sm_event_store (panicked_state env i s) = (case i of
        In_Blocks tip \<Rightarrow> update_tips tip (sm_event_store s)
      | In_Event (CE_Filled filled) \<Rightarrow> insert_filled filled (sm_event_store s)
      | _ \<Rightarrow> sm_event_store s)"
proof -
  have wf: "hm_wf (sm_tracked_orders s)" using inv by (simp add: sm_inv_def sm_wf_def)
  have same: "\<exists>sts. partly_refreshed sts s s \<and> sm_inv s" using inv partly_refreshed_Nil by blast
  show ?thesis
  proof (cases i)
    case (In_Blocks tip)
    let ?s1 = "s\<lparr>sm_event_store := update_tips tip (sm_event_store s)\<rparr>"
    have inv1: "sm_inv ?s1" using inv by (auto simp: sm_inv_def sm_wf_def coherent_def es_wf_update_tips)
    have pend: "\<forall>h \<in> set (pending_hashes env ?s1). \<exists>t. tracked ?s1 h = Some t \<and> \<not> is_terminal (to_status t)"
      using pending_hashes_set [of ?s1 _ env] wf by simp
    have d: "distinct (pending_hashes env ?s1)" by (rule pending_hashes_distinct) (simp add: wf)
    have st: "panicked_state env i s = loop_state (refresh_order env (sm_all_order_hashes ?s1)) (pending_hashes env ?s1) ?s1"
      by (simp add: panicked_state_def In_Blocks Let_def)
    from refresh.loop_part [OF inv1 refl d pend] obtain sts tr where
      "refreshed_by sts tr ?s1 (panicked_state env i s)" "sm_inv (panicked_state env i s)"
      "subseq (map status_order_hash sts) (pending_hashes env ?s1)"
      unfolding st by blast
    with partly_refreshedI [OF this(1,3) d pend, of s] show ?thesis by (auto simp: In_Blocks refreshed_by_def)
  next
    case (In_Event event)
    show ?thesis
    proof (cases event)
      case (CE_Filled filled)
      let ?s1 = "s\<lparr>sm_metrics := record_chain_event Kind_Filled (sm_metrics s),
        sm_event_store := insert_filled filled (sm_event_store s)\<rparr>"
      have inv1: "sm_inv ?s1" using inv by (simp add: sm_inv_def sm_wf_def coherent_def es_wf_insert_filled)
      have pend: "\<forall>h \<in> set (candidate_hashes env filled ?s1). \<exists>t. tracked ?s1 h = Some t \<and> \<not> is_terminal (to_status t)"
        using candidate_hashes_set [of ?s1 _ env filled] wf by auto
      have d: "distinct (candidate_hashes env filled ?s1)" by (rule candidate_hashes_distinct) (simp add: wf)
      have st: "panicked_state env i s = loop_state (check_fill env filled) (candidate_hashes env filled ?s1) ?s1"
        by (simp add: panicked_state_def In_Event CE_Filled Let_def)
      from fills.loop_part [OF inv1 refl d pend] obtain sts tr where
        "refreshed_by sts tr ?s1 (panicked_state env i s)" "sm_inv (panicked_state env i s)"
        "subseq (map status_order_hash sts) (candidate_hashes env filled ?s1)"
        unfolding st by blast
      with partly_refreshedI [OF this(1,3) d pend, of s] show ?thesis
        by (auto simp: In_Event CE_Filled refreshed_by_def)
    qed (use same in \<open>simp add: In_Event panicked_state_def\<close>)
  qed (use same in \<open>simp_all add: panicked_state_def\<close>)
qed

text \<open>The state that a panicking loop leaves is one that the whole loop passes through.\<close>

lemma panicked_state_over:
  "handle_new_blocks env tip s = Some s' \<Longrightarrow> sm_updates (panicked_state env (In_Blocks tip) s) = sm_updates s'"
  by (auto simp: handle_new_blocks_def panicked_state_def Let_def loop_state_over split: Option.bind_splits)

section \<open>Runs\<close>

locale run_invariant = loop_body "handle_input env" inv ok
  for env :: "'w env" and inv :: "'w state_manager \<Rightarrow> bool" and ok :: "input \<Rightarrow> bool" +
  assumes inv_hashes: "inv s \<Longrightarrow> inv (s\<lparr>sm_all_order_hashes := H\<rparr>)"
    and inv_panicked: "inv s \<Longrightarrow> ok i \<Longrightarrow> handle_input env i s = None \<Longrightarrow> inv (panicked_state env i s)"
begin

lemma run_inner_inv:
  "inv s \<Longrightarrow> \<forall>rd \<in> set rds. \<forall>i. select_input rd = Some i \<longrightarrow> ok i \<Longrightarrow>
     run_inner env rds s = (exit, s') \<Longrightarrow> inv s'"
proof (induction rds arbitrary: s)
  case (Cons rd rds)
  let ?s1 = "s\<lparr>sm_all_order_hashes := rd_all_order_hashes rd\<rparr>"
  have inv1: "inv ?s1" using Cons.prems(1) by (rule inv_hashes)
  show ?case
  proof (cases "select_input rd")
    case None
    then show ?thesis using Cons inv1 by (auto simp: Let_def)
  next
    case (Some i)
    then show ?thesis using Cons inv1 body_inv [OF inv1, of i] inv_panicked [OF inv1, of i]
      by (cases i) (auto simp: Let_def simp del: handle_input.simps split: option.splits)
  qed
qed simp

end

locale run_total = run_invariant env inv ok + total_body "handle_input env" inv ok
  for env :: "'w env" and inv :: "'w state_manager \<Rightarrow> bool" and ok :: "input \<Rightarrow> bool"
begin

lemma run_inner_total:
  "inv s \<Longrightarrow> \<forall>rd \<in> set rds. \<forall>i. select_input rd = Some i \<longrightarrow> ok i \<Longrightarrow>
     fst (run_inner env rds s) \<noteq> Crashed"
proof (induction rds arbitrary: s)
  case (Cons rd rds)
  let ?s1 = "s\<lparr>sm_all_order_hashes := rd_all_order_hashes rd\<rparr>"
  have inv1: "inv ?s1" using Cons.prems(1) by (rule inv_hashes)
  show ?case
  proof (cases "select_input rd")
    case None
    then show ?thesis using Cons inv1 by (auto simp: Let_def)
  next
    case (Some i)
    then have "ok i" using Cons.prems(2) by simp
    then obtain s2 where s2: "handle_input env i ?s1 = Some s2"
      using body_total [OF inv1] by blast
    have "inv s2" by (rule body_inv [OF inv1 \<open>ok i\<close> s2])
    then have "fst (run_inner env rds s2) \<noteq> Crashed" using Cons by simp
    then show ?thesis using Some s2
      by (cases i) (simp_all add: Let_def del: handle_input.simps)
  qed
qed simp

end

interpretation coherent_run: run_invariant env sm_inv "\<lambda>_. True" for env :: "'w env"
proof unfold_locales
  show "sm_inv s \<Longrightarrow> handle_input env i s = Some s' \<Longrightarrow> sm_inv s'" for i and s s' :: "'w state_manager"
    by (rule handle_input_inv)
  show "sm_inv s \<Longrightarrow> sm_inv (s\<lparr>sm_all_order_hashes := H\<rparr>)" for s :: "'w state_manager" and H
    by (simp add: sm_inv_def sm_wf_def coherent_def)
  show "sm_inv s \<Longrightarrow> sm_inv (panicked_state env i s)" for s :: "'w state_manager" and i
    by (drule panicked_effect [of _ env i]) (elim exE conjE)
qed

section \<open>No panic\<close>

text \<open>
  Every tracked order is admissible, the conversions of the dependencies behave as documented
  and the clock is not before the epoch.
\<close>

definition sm_live :: "'w env \<Rightarrow> 'w state_manager \<Rightarrow> bool" where
  "sm_live env s \<longleftrightarrow> to_u64_checked env \<and> from_nanos_checked env \<and> clock_after_epoch env \<and>
     (\<forall>(h, t) \<in> set (sm_tracked_orders s). admissible (to_order t))"

lemma sm_live_update:
  "sm_live env s \<Longrightarrow> sm_live env (put_status h st s)"
  "sm_live env s \<Longrightarrow> sm_live env (broadcast st s)"
  "sm_live env s \<Longrightarrow> sm_live env (s\<lparr>sm_tracker := tr\<rparr>)"
  by (auto simp: sm_live_def put_status_def broadcast_def hm_modify_def set_status_def)

lemma sm_live_tracked: "sm_live env s \<Longrightarrow> tracked s h = Some t \<Longrightarrow> admissible (to_order t)"
  by (auto simp: sm_live_def dest!: hm_get_SomeD)

lemma sm_live_status:
  "sm_live env s \<Longrightarrow> admissible order \<Longrightarrow> \<exists>st tr'. status_for_order env order b tr = Some (st, tr')"
  unfolding sm_live_def using status_for_order_total by blast

interpretation refresh_total: total_body "refresh_order env H" "sm_live env" "\<lambda>_. True" for env :: "'w env" and H
proof unfold_locales
  fix s s' :: "'w state_manager" and h
  show "sm_live env s \<Longrightarrow> refresh_order env H h s = Some s' \<Longrightarrow> sm_live env s'"
    by (auto simp: refresh_order_def Let_def sm_live_update split: option.splits Option.bind_splits if_splits)
  assume live: "sm_live env s"
  show "\<exists>s'. refresh_order env H h s = Some s'"
  proof (cases "tracked s h")
    case (Some t)
    then obtain st tr where "status_for_order env (to_order t) (h \<in> H) (sm_tracker s) = Some (st, tr)"
      using sm_live_status [OF live sm_live_tracked [OF live Some]] by blast
    then show ?thesis by (simp add: refresh_order_def Let_def Some)
  qed (simp add: refresh_order_def)
qed

lemma build_fill_info_total:
  "to_u64_checked env \<Longrightarrow> admissible (to_order t) \<Longrightarrow> \<exists>info. build_fill_info env es filled t = Some info"
  by (simp add: build_fill_info_def to_u64_checked_def admissible_def Let_def)

interpretation fills_total: total_body "check_fill env filled" "sm_live env" "\<lambda>_. True"
  for env :: "'w env" and filled
proof unfold_locales
  fix s s' :: "'w state_manager" and h
  show "sm_live env s \<Longrightarrow> check_fill env filled h s = Some s' \<Longrightarrow> sm_live env s'"
    by (auto simp: check_fill_def Let_def sm_live_update
        split: option.splits Option.bind_splits prod.splits sum.splits bool.splits)
  assume live: "sm_live env s"
  show "\<exists>s'. check_fill env filled h s = Some s'"
  proof (cases "tracked s h")
    case (Some t)
    have "\<exists>info. build_fill_info env es filled t = Some info" for es
      using live sm_live_tracked [OF live Some] by (auto simp: sm_live_def intro: build_fill_info_total)
    then show ?thesis
      by (auto simp: check_fill_def Some Let_def split: prod.split sum.split bool.split Option.bind_split)
        (metis option.distinct(1))+
  qed (simp add: check_fill_def)
qed

fun input_ok :: "input \<Rightarrow> bool" where
  "input_ok (In_Order order) = admissible order"
| "input_ok (In_Track request) = admissible (tr_order request)"
| "input_ok _ = True"

lemma sm_live_register:
  "sm_live env s \<Longrightarrow> admissible order \<Longrightarrow> register_order env order sender s = Some s' \<Longrightarrow> sm_live env s'"
  by (cases "tracked s (so_hash order)")
    (auto simp: register_order_def Let_def sm_live_def sm_simps tracked_order_new_def
      split: Option.bind_splits dest!: hm_set_insertD)

lemma sm_live_blocks:
  assumes "sm_live env s"
  shows "\<exists>s'. handle_new_blocks env tip s = Some s' \<and> sm_live env s'"
proof -
  let ?s1 = "s\<lparr>sm_event_store := update_tips tip (sm_event_store s)\<rparr>"
  have l: "sm_live env ?s1" using assms by (simp add: sm_live_def)
  from refresh_total.loop_total [OF l] obtain s2 where
    s2: "for_each (refresh_order env (sm_all_order_hashes ?s1)) (pending_hashes env ?s1) ?s1 = Some s2" by blast
  from refresh_total.loop_inv [OF l _ s2] have "sm_live env s2" by simp
  then have "sm_live env (s2\<lparr>sm_tracked_orders :=
      hm_retain (\<lambda>_ t. \<not> tracked_is_terminal t) (sm_tracked_orders s2)\<rparr>)"
    by (auto simp: sm_live_def hm_retain_def)
  with s2 show ?thesis by (simp add: handle_new_blocks_def Let_def)
qed

lemma sm_live_event:
  assumes "sm_live env s"
  shows "\<exists>s'. handle_chain_event env event s = Some s' \<and> sm_live env s'"
proof (cases event)
  case (CE_Filled filled)
  let ?s1 = "s\<lparr>sm_metrics := record_chain_event Kind_Filled (sm_metrics s),
      sm_event_store := insert_filled filled (sm_event_store s)\<rparr>"
  have l: "sm_live env ?s1" using assms by (simp add: sm_live_def)
  from fills_total.loop_total [OF l] obtain s2 where
    s2: "for_each (check_fill env filled) (candidate_hashes env filled ?s1) ?s1 = Some s2" by blast
  from fills_total.loop_inv [OF l _ s2] have "sm_live env (update_store_metrics s2)"
    by (simp add: sm_live_def sm_simps)
  with s2 CE_Filled show ?thesis
    by (simp add: handle_chain_event_def check_fills_against_pending_def)
next
  case (CE_Order order_event)
  with assms show ?thesis by (simp add: handle_chain_event_def sm_live_def sm_simps)
qed

lemma register_order_total:
  "sm_live env s \<Longrightarrow> admissible order \<Longrightarrow> \<exists>s'. register_order env order sender s = Some s'"
  using sm_live_status [of env s order True "sm_tracker s"]
  by (auto simp: register_order_def Let_def split: option.split)

lemma sm_live_input:
  assumes live: "sm_live env s" and "input_ok i"
  shows "\<exists>s'. handle_input env i s = Some s' \<and> sm_live env s'"
proof -
  have reg: "\<exists>s'. register_order env order sender s = Some s' \<and> sm_live env s'"
    if "admissible order" for order sender
    using register_order_total [OF live that] sm_live_register [OF live that] by blast
  have "sm_live env (send_snapshot env n s)" for n
    using live by (simp add: sm_live_def send_snapshot_def)
  then show ?thesis
    using assms reg sm_live_blocks [OF live] sm_live_event [OF live] by (cases i) simp_all
qed

interpretation live_run: run_total env "sm_live env" input_ok for env :: "'w env"
proof unfold_locales
  fix s s' :: "'w state_manager" and i
  assume live: "sm_live env s"
  show "sm_live env (s\<lparr>sm_all_order_hashes := H\<rparr>)" for H
    using live by (simp add: sm_live_def)
  assume ok: "input_ok i"
  note t = sm_live_input [OF live ok]
  then show "\<exists>s'. handle_input env i s = Some s'" by blast
  show "handle_input env i s = Some s' \<Longrightarrow> sm_live env s'" using t by auto
  show "handle_input env i s = None \<Longrightarrow> sm_live env (panicked_state env i s)" using t by auto
qed

end
