(* ===== verification/ManagerGuarantees.thy ===== *)
theory ManagerGuarantees
  imports StateManagerProps
begin

text \<open>
  What the state manager guarantees to its subscribers, over each handler and over whole runs,
  with the invariant and the loop contracts of \<open>StateManagerProps\<close>.
\<close>

section \<open>Concrete runs\<close>

text \<open>An iteration in which nothing is ready, and the inputs of the demonstration runs.\<close>

definition idle :: readiness where
  "idle = \<lparr>rd_all_order_hashes = {5}, rd_cancelled = False, rd_blocks = None, rd_event = None,
     rd_order = None, rd_track = None, rd_snapshot = None\<rparr>"

definition demo_manager :: "int list \<Rightarrow> int list state_manager" where
  "demo_manager w = state_manager_new (tracker_new demo_env w) 300"

text \<open>The status of the demonstration order, an order without input tokens.\<close>

definition bare_order :: "b256 \<Rightarrow> signed_order" where
  "bare_order h = (demo_order h 2000)\<lparr>so_permitted := []\<rparr>"

definition bare_diagnostics :: "u64 \<Rightarrow> order_diagnostics" where
  "bare_diagnostics now =
     \<lparr>od_is_in_cache = MB_True,
      od_deadline_check = \<lparr>dc_expires_in = PrettyDuration (int ((2000 - unat now) * 10 ^ 9)),
        dc_deadline = Timestamp 2000, dc_checked_at = Timestamp now\<rparr>,
      od_allowance_checks =
        \<lparr>acs_all_sufficient = MB_Unknown, acs_checked_at = Timestamp now, acs_checks = []\<rparr>,
      od_balance_checks =
        \<lparr>bcs_all_sufficient = MB_Unknown, bcs_checked_at = Timestamp now, bcs_checks = []\<rparr>\<rparr>"

lemma bare_pending:
  "status_for_order demo_env (bare_order h) True (cache, 1000 # t # ts) =
     Some (Pending h 7 (bare_diagnostics 1000), (cache, t # ts))"
  by (simp add: status_for_order_def now_unix_def check_deadline_def pretty_duration_new_def
      duration_from_secs_def is_nonce_consumed_def check_balances_def check_allowances_def
      bare_order_def demo_order_def demo_env_def bare_diagnostics_def maybe_bool_from_def)

lemma bare_expired:
  "status_for_order demo_env (bare_order h) True (cache, [3000]) =
     Some (Expired h 7 (bare_diagnostics 3000), (cache, [3000]))"
  by (simp add: status_for_order_def now_unix_def check_deadline_def pretty_duration_new_def
      duration_from_secs_def is_nonce_consumed_def check_balances_def check_allowances_def
      bare_order_def demo_order_def demo_env_def bare_diagnostics_def maybe_bool_from_def)

definition demo_tracked :: "int list state_manager" where
  "demo_tracked = (demo_manager [3000])\<lparr>
     sm_tracked_orders := [(5, \<lparr>to_order = bare_order 5, to_status = Pending 5 7 (bare_diagnostics 1000)\<rparr>)],
     sm_all_order_hashes := {5},
     sm_updates := [Pending 5 7 (bare_diagnostics 1000)],
     sm_reports := [(1, Pending 5 7 (bare_diagnostics 1000))],
     sm_metrics := metrics_new\<lparr>m_tracked_orders := 1\<rparr>\<rparr>"

lemma demo_registered:
  "register_order demo_env (bare_order 5) (Some 1) ((demo_manager [1000, 3000])\<lparr>sm_all_order_hashes := {5}\<rparr>) =
     Some demo_tracked"
proof -
  have "so_hash (bare_order 5) = 5" by (simp add: bare_order_def demo_order_def)
  then show ?thesis
    by (simp add: register_order_def demo_manager_def state_manager_new_def tracker_new_def bare_pending
      demo_tracked_def broadcast_def send_report_def update_store_metrics_def hm_insert_def
      set_tracked_orders_def set_event_store_filled_def set_event_store_order_def metrics_new_def
      event_store_new_def chain_events_new_def filled_count_def ce_filled_count_def order_count_def
      bt_values_def tracked_order_new_def)
qed

definition demo_expired :: "int list state_manager" where
  "demo_expired = demo_tracked\<lparr>sm_event_store := update_tips \<lparr>bt_rollup = 501, bt_host = 9\<rparr> (sm_event_store demo_tracked),
     sm_tracked_orders := [],
     sm_updates := [Pending 5 7 (bare_diagnostics 1000), Expired 5 7 (bare_diagnostics 3000)]\<rparr>"

lemma demo_blocks:
  "handle_new_blocks demo_env \<lparr>bt_rollup = 501, bt_host = 9\<rparr> demo_tracked = Some demo_expired"
  by (simp add: handle_new_blocks_def Let_def pending_hashes_def sm_iter_def hm_iter_def demo_tracked_def
      demo_manager_def state_manager_new_def tracked_is_terminal_def refresh_order_def hm_get_def
      tracker_new_def bare_expired put_status_def broadcast_def hm_modify_def set_status_def
      hm_retain_def demo_expired_def)

lemma demo_tracked_inv: "sm_inv demo_tracked"
proof (rule register_order_inv [OF _ demo_registered])
  show "sm_inv ((demo_manager [1000, 3000])\<lparr>sm_all_order_hashes := {5}\<rparr>)"
    using coherent_run.inv_hashes [OF sm_inv_new] by (simp add: demo_manager_def)
qed

section \<open>Properties\<close>

text \<open>
  C11: the state manager is coherent in every reachable state. Whatever messages arrive in
  whatever order, and whatever the nodes answer, each tracked order sits under its own hash
  once, its status carries its hash and its owner, the event store is well formed, and the
  stored status is the last one that was broadcast for the order: a subscriber who missed no
  broadcast knows the status of every tracked order.
\<close>

theorem manager_coherent:
  assumes "run env rds cancelled (state_manager_new tracker n) = (exit, s')"
  shows "distinct (map fst (sm_tracked_orders s')) \<and> es_wf (sm_event_store s') \<and>
    (\<forall>(h, t) \<in> set (sm_tracked_orders s').
       so_hash (to_order t) = h \<and> status_order_hash (to_status t) = h \<and>
       status_owner (to_status t) = so_owner (to_order t) \<and>
       last_update h (sm_updates s') = Some (to_status t))"
proof -
  from assms obtain ex where "run_inner env rds (state_manager_new tracker n) = (ex, s')"
    by (auto simp: run_def split: prod.splits)
  then have inv: "sm_inv s'" using coherent_run.run_inner_inv [OF sm_inv_new] by blast
  then have wf: "hm_wf (sm_tracked_orders s')" by (simp add: sm_inv_def sm_wf_def)
  have "tracked s' h = Some t" if "(h, t) \<in> set (sm_tracked_orders s')" for h t
    using hm_get_in_set [OF wf] that by blast
  then show ?thesis using inv wf
    by (fastforce simp: sm_inv_def sm_wf_def coherent_def order_status_ok_def hm_wf_def)
qed

lemma demo_run:
  "run demo_env [idle\<lparr>rd_track := Some (Some \<lparr>tr_order = bare_order 5, tr_initial_report_sender = Some 1\<rparr>)\<rparr>]
     False (demo_manager [1000, 3000]) = (Running, demo_tracked)"
  using demo_registered by (simp add: run_def select_input_def idle_def)

theorem manager_coherent_witness:
  "last_update 5 (sm_updates demo_tracked) = Some (Pending 5 7 (bare_diagnostics 1000))"
  using manager_coherent [OF demo_run [unfolded demo_manager_def]]
  by (simp add: demo_tracked_def)

text \<open>
  The state manager never panics on admissible orders. When every order offered to it has
  a deadline that fits a signed 64-bit number of seconds, the clock is not before the epoch and
  the conversions behave as documented, no sequence of messages, and no failure of any query,
  makes the task panic.
\<close>

theorem manager_never_panics:
  assumes "to_u64_checked env" "from_nanos_checked env" "clock_after_epoch env"
    and "\<forall>rd \<in> set rds. \<forall>order. rd_order rd = Some (Some order) \<longrightarrow> unat (so_deadline order) < 2 ^ 63"
    and "\<forall>rd \<in> set rds. \<forall>request. rd_track rd = Some (Some request) \<longrightarrow>
      unat (so_deadline (tr_order request)) < 2 ^ 63"
  shows "fst (run env rds cancelled (state_manager_new tracker n)) \<noteq> Crashed"
proof -
  have "sm_live env (state_manager_new tracker n)"
    using assms(1-3) by (simp add: sm_live_def state_manager_new_def)
  moreover have "input_ok i" if "rd \<in> set rds" "select_input rd = Some i" for rd i
    using that assms(4,5)
    by (cases i) (auto simp: select_input_def admissible_def split: if_splits option.splits)
  ultimately have "fst (run_inner env rds (state_manager_new tracker n)) \<noteq> Crashed"
    by (intro live_run.run_inner_total) auto
  then show ?thesis by (auto simp: run_def split: prod.splits task_exit.splits)
qed

theorem manager_never_panics_witness:
  "fst (run (demo_env\<lparr>q_clock := \<lambda>w. (1000, w)\<rparr>) [idle\<lparr>rd_order := Some (Some (demo_order 5 2000))\<rparr>] False
     (demo_manager [])) \<noteq> Crashed"
  unfolding demo_manager_def
  by (rule manager_never_panics)
    (simp_all add: to_u64_checked_def from_nanos_checked_def clock_after_epoch_def demo_env_def
      demo_order_def idle_def)

text \<open>
  One order with a deadline beyond 64 bits stops the state manager. When such an order,
  not tracked yet, is the message an iteration selects, the task panics, whatever else happens
  later; no other order is served any more.
\<close>

theorem wide_deadline_crashes_manager:
  assumes "to_u64_checked env" "2 ^ 64 \<le> unat (so_deadline order)"
    and "hm_get (sm_tracked_orders s) (so_hash order) = None"
    and "select_input rd = Some (In_Order order) \<or>
      (\<exists>sender. select_input rd = Some (In_Track \<lparr>tr_order = order, tr_initial_report_sender = sender\<rparr>))"
  shows "fst (run env (rd # rds) cancelled s) = Crashed"
proof -
  have "e_to_u64 env (so_deadline order) = None"
    using assms(1,2) by (simp only: to_u64_checked_None)
  then have "check_deadline env order now = None" for now
    by (simp add: check_deadline_def)
  then have "status_for_order env order b tr = None" for b tr
    by (auto simp: status_for_order_def Let_def split: Option.bind_splits)
  then have "register_order env order sender (s\<lparr>sm_all_order_hashes := H\<rparr>) = None" for sender H
    using assms(3) by (simp add: register_order_def Let_def)
  then show ?thesis using assms(4) by (auto simp: run_def Let_def)
qed

theorem wide_deadline_crashes_manager_witness:
  "fst (run demo_env [idle\<lparr>rd_order := Some (Some (demo_order 5 (- 1)))\<rparr>,
     idle\<lparr>rd_order := Some (Some (demo_order 6 2000))\<rparr>] False (demo_manager [1000])) = Crashed"
  by (rule wide_deadline_crashes_manager [where order = "demo_order 5 (- 1)"])
    (simp_all add: demo_env_checked demo_order_def unsigned_minus_1_eq_mask mask_eq_exp_minus_1
      demo_manager_def state_manager_new_def select_input_def idle_def)

text \<open>
  C13: new blocks refresh exactly the pending orders. \<open>handle_new_blocks\<close> computes, in the
  iteration order of the map and with the tracker threaded through, one status for each pending
  order; it broadcasts exactly those statuses, in that order and once each; an order is dropped
  when it was terminal before or is terminal now, and otherwise keeps its order and carries the
  new status; no other order appears, and the event store only has its tips moved.
\<close>

theorem new_blocks_exact:
  assumes "sm_inv s" "handle_new_blocks env tip s = Some s'"
  shows "\<exists>sts tr.
    status_all env (map (\<lambda>h. (to_order (the (hm_get (sm_tracked_orders s) h)), h \<in> sm_all_order_hashes s))
      (pending_hashes env s)) (sm_tracker s) = Some (sts, tr) \<and>
    sm_tracker s' = tr \<and> map status_order_hash sts = pending_hashes env s \<and>
    sm_updates s' = sm_updates s @ sts \<and>
    sm_event_store s' = update_tips tip (sm_event_store s) \<and>
    (\<forall>h. case hm_get (sm_tracked_orders s) h of
        None \<Rightarrow> hm_get (sm_tracked_orders s') h = None
      | Some t \<Rightarrow> if is_terminal (to_status t) then hm_get (sm_tracked_orders s') h = None
          else \<exists>st \<in> set sts. status_order_hash st = h \<and>
            hm_get (sm_tracked_orders s') h = (if is_terminal st then None else Some (t\<lparr>to_status := st\<rparr>)))"
proof -
  from handle_new_blocks_effect [OF assms] obtain sts tr where
    all: "status_all env (map (\<lambda>h. (to_order (the (tracked s h)), h \<in> sm_all_order_hashes s)) (pending_hashes env s))
       (sm_tracker s) = Some (sts, tr)" and
    hashes: "map status_order_hash sts = pending_hashes env s" and
    eff: "sm_updates s' = sm_updates s @ sts" "sm_tracker s' = tr"
      "sm_event_store s' = update_tips tip (sm_event_store s)" and
    tr': "\<And>j. tracked s' j = (case map_option (refreshed sts j) (tracked s j) of
        None \<Rightarrow> None | Some t \<Rightarrow> if is_terminal (to_status t) then None else Some t)" by blast
  have wf: "hm_wf (sm_tracked_orders s)" using assms(1) by (simp add: sm_inv_def sm_wf_def)
  note ph = pending_hashes_set [OF wf, of _ env]
  have d: "distinct (map status_order_hash sts)"
    by (simp add: hashes pending_hashes_distinct [OF wf])
  have mem: "h \<in> status_order_hash ` set sts \<longleftrightarrow> (\<exists>t. tracked s h = Some t \<and> \<not> is_terminal (to_status t))" for h
    using ph [of h] arg_cong [OF hashes, of set] by auto
  have "case tracked s h of None \<Rightarrow> tracked s' h = None
      | Some t \<Rightarrow> if is_terminal (to_status t) then tracked s' h = None
          else \<exists>st \<in> set sts. status_order_hash st = h \<and>
            tracked s' h = (if is_terminal st then None else Some (t\<lparr>to_status := st\<rparr>))" for h
  proof (cases "tracked s h")
    case (Some t)
    show ?thesis
    proof (cases "is_terminal (to_status t)")
      case True
      then show ?thesis using mem [of h] tr' [of h] Some refreshed_id [of h sts] by simp
    next
      case False
      then obtain st where st: "st \<in> set sts" "status_order_hash st = h" using mem [of h] Some by auto
      then have "refreshed sts h t = t\<lparr>to_status := st\<rparr>"
        using last_update_distinct [OF d st(1)] by (simp add: refreshed_def set_status_def)
      then show ?thesis using st tr' [of h] Some False by auto
    qed
  qed (simp add: tr')
  then show ?thesis using all hashes eff by blast
qed

theorem new_blocks_exact_witness:
  "sm_updates demo_expired = sm_updates demo_tracked @ [Expired 5 7 (bare_diagnostics 3000)] \<and>
   hm_get (sm_tracked_orders demo_expired) 5 = None"
proof -
  have ph: "pending_hashes demo_env demo_tracked = [5]"
    by (simp add: pending_hashes_def sm_iter_def hm_iter_def demo_tracked_def tracked_is_terminal_def)
  have t: "hm_get (sm_tracked_orders demo_tracked) 5 =
      Some \<lparr>to_order = bare_order 5, to_status = Pending 5 7 (bare_diagnostics 1000)\<rparr>"
    "sm_all_order_hashes demo_tracked = {5}" by (simp_all add: demo_tracked_def hm_get_def)
  have all: "status_all demo_env [(bare_order 5, True)] (sm_tracker demo_tracked) =
      Some ([Expired 5 7 (bare_diagnostics 3000)], sm_tracker demo_tracked)"
    by (simp add: demo_tracked_def demo_manager_def state_manager_new_def tracker_new_def bare_expired)
  from new_blocks_exact [OF demo_tracked_inv demo_blocks] obtain sts tr where
    sts: "status_all demo_env [(bare_order 5, True)] (sm_tracker demo_tracked) = Some (sts, tr)" and
    u: "sm_updates demo_expired = sm_updates demo_tracked @ sts" and
    h: "\<exists>st \<in> set sts. status_order_hash st = 5 \<and> hm_get (sm_tracked_orders demo_expired) 5 =
      (if is_terminal st then None else
         Some (\<lparr>to_order = bare_order 5, to_status = Pending 5 7 (bare_diagnostics 1000)\<rparr>\<lparr>to_status := st\<rparr>))"
    by (clarsimp simp: ph t simp del: status_all.simps) (drule spec [of _ 5], fastforce simp: t)
  from sts all have "sts = [Expired 5 7 (bare_diagnostics 3000)]" by simp
  then show ?thesis using u h by simp
qed

text \<open>
  C12: a \<open>Filled\<close> event settles exactly the orders it pays. The statuses broadcast for it are
  distinct in their orders, each is \<open>Filled\<close> with the block, chain and transaction of the
  event, and belongs to a pending order whose outputs the event covers and whose nonce was
  answered as consumed; every other tracked order is left as it was; and a pending order that
  the event covers and whose nonce is consumed whenever it is asked is among those settled.
\<close>

theorem filled_event_exact:
  assumes "sm_inv s" "handle_chain_event env (CE_Filled filled) s = Some s'"
  shows "\<exists>sts. sm_updates s' = sm_updates s @ sts \<and> distinct (map status_order_hash sts) \<and>
    (\<forall>st \<in> set sts. \<exists>t info w. hm_get (sm_tracked_orders s) (status_order_hash st) = Some t \<and>
       \<not> is_terminal (to_status t) \<and>
       fill_outputs_are_superset_of_order_outputs (fe_outputs filled) (so_outputs (to_order t)) \<and>
       fst (q_nonce_consumed env (to_order t) w) = Inr True \<and>
       st = Filled (so_hash (to_order t)) (so_owner (to_order t)) (Some info) \<and>
       fi_block_number info = fe_block_number filled \<and>
       fi_fill_tx info = Some \<lparr>ct_chain = fe_chain filled, ct_tx_hash = fe_tx_hash filled\<rparr>) \<and>
    (\<forall>h. hm_get (sm_tracked_orders s') h = map_option
       (\<lambda>t. case last_update h sts of None \<Rightarrow> t | Some st \<Rightarrow> t\<lparr>to_status := st\<rparr>) (hm_get (sm_tracked_orders s) h)) \<and>
    (\<forall>h t. hm_get (sm_tracked_orders s) h = Some t \<and> \<not> is_terminal (to_status t) \<and>
       fill_outputs_are_superset_of_order_outputs (fe_outputs filled) (so_outputs (to_order t)) \<and>
       (\<forall>w. fst (q_nonce_consumed env (to_order t) w) = Inr True) \<longrightarrow> h \<in> status_order_hash ` set sts)"
proof -
  let ?s1 = "s\<lparr>sm_metrics := record_chain_event Kind_Filled (sm_metrics s),
      sm_event_store := insert_filled filled (sm_event_store s)\<rparr>"
  from assms(2) obtain s2 where c: "check_fills_against_pending env filled ?s1 = Some s2"
    and s': "s' = update_store_metrics s2"
    by (auto simp: handle_chain_event_def split: Option.bind_splits)
  have inv: "sm_inv ?s1"
    using assms(1) by (simp add: sm_inv_def sm_wf_def coherent_def es_wf_insert_filled)
  have same: "tracked ?s1 h = tracked s h" for h by simp
  note [simp] = refreshed_by_def
  obtain sts tr where
    eff: "refreshed_by sts tr ?s1 s2" and d: "distinct (map status_order_hash sts)" and
    sound: "\<And>st. st \<in> set sts \<Longrightarrow> \<exists>t. tracked s (status_order_hash st) = Some t \<and> \<not> is_terminal (to_status t) \<and>
       fill_outputs_are_superset_of_order_outputs (fe_outputs filled) (so_outputs (to_order t)) \<and>
       confirmed env (sm_event_store ?s1) filled t st" and
    complete: "\<And>h t. tracked s h = Some t \<Longrightarrow> \<not> is_terminal (to_status t) \<Longrightarrow>
       fill_outputs_are_superset_of_order_outputs (fe_outputs filled) (so_outputs (to_order t)) \<Longrightarrow>
       h \<in> status_order_hash ` set sts \<or> (\<exists>w. fst (q_nonce_consumed env (to_order t) w) \<noteq> Inr True)"
    by (rule check_fills_effect [OF inv c, unfolded same]) (rule that; assumption)
  have "sm_updates s' = sm_updates s @ sts" using eff by (simp add: s' sm_simps)
  moreover have "tracked s' h = map_option
       (\<lambda>t. case last_update h sts of None \<Rightarrow> t | Some st \<Rightarrow> t\<lparr>to_status := st\<rparr>) (tracked s h)" for h
    using eff by (simp add: s' sm_simps refreshed_def [abs_def] set_status_def cong: option.case_cong)
  moreover have "\<exists>t info w. tracked s (status_order_hash st) = Some t \<and> \<not> is_terminal (to_status t) \<and>
       fill_outputs_are_superset_of_order_outputs (fe_outputs filled) (so_outputs (to_order t)) \<and>
       fst (q_nonce_consumed env (to_order t) w) = Inr True \<and>
       st = Filled (so_hash (to_order t)) (so_owner (to_order t)) (Some info) \<and>
       fi_block_number info = fe_block_number filled \<and>
       fi_fill_tx info = Some \<lparr>ct_chain = fe_chain filled, ct_tx_hash = fe_tx_hash filled\<rparr>" if "st \<in> set sts" for st
    using sound [OF that] by (auto simp: confirmed_def build_fill_info_def Let_def split: Option.bind_splits)
  moreover have "h \<in> status_order_hash ` set sts" if "tracked s h = Some t \<and> \<not> is_terminal (to_status t) \<and>
       fill_outputs_are_superset_of_order_outputs (fe_outputs filled) (so_outputs (to_order t)) \<and>
       (\<forall>w. fst (q_nonce_consumed env (to_order t) w) = Inr True)" for h t
    using complete [of h t] that by auto
  ultimately show ?thesis using d
    by (intro exI [of _ sts] conjI ballI allI impI) assumption+
qed

definition demo_filled :: filled_event where
  "demo_filled = \<lparr>fe_chain = Rollup, fe_block_number = 502, fe_tx_hash = 0xD2,
     fe_outputs = so_outputs (bare_order 5)\<rparr>"

definition demo_consumed_env :: "int list env" where
  "demo_consumed_env = demo_env\<lparr>q_nonce_consumed := \<lambda>_ w. (Inr True, w)\<rparr>"

lemma demo_live: "sm_live (demo_consumed_env\<lparr>q_clock := \<lambda>w. (0, w)\<rparr>) demo_tracked"
  by (simp add: sm_live_def demo_consumed_env_def to_u64_checked_def from_nanos_checked_def
      clock_after_epoch_def demo_env_def demo_tracked_def admissible_def bare_order_def demo_order_def)

theorem filled_event_exact_witness:
  "\<exists>s'. handle_chain_event (demo_consumed_env\<lparr>q_clock := \<lambda>w. (0, w)\<rparr>) (CE_Filled demo_filled) demo_tracked = Some s' \<and>
     (\<exists>st \<in> set (sm_updates s'). status_order_hash st = 5 \<and> is_terminal st)"
proof -
  let ?env = "demo_consumed_env\<lparr>q_clock := \<lambda>w. (0, w)\<rparr>"
  obtain s' where s': "handle_chain_event ?env (CE_Filled demo_filled) demo_tracked = Some s'"
    using sm_live_event [OF demo_live] by blast
  let ?t = "\<lparr>to_order = bare_order 5, to_status = Pending 5 7 (bare_diagnostics 1000)\<rparr>"
  have t: "hm_get (sm_tracked_orders demo_tracked) 5 = Some ?t"
    by (simp add: demo_tracked_def hm_get_def)
  have c: "fill_outputs_are_superset_of_order_outputs (fe_outputs demo_filled) (so_outputs (to_order ?t))"
    by (simp add: demo_filled_def cover.covers_refl)
  have n: "\<forall>w. fst (q_nonce_consumed ?env (to_order ?t) w) = Inr True"
    by (simp add: demo_consumed_env_def)
  have "\<exists>sts. sm_updates s' = sm_updates demo_tracked @ sts \<and> 5 \<in> status_order_hash ` set sts \<and>
      (\<forall>st \<in> set sts. is_terminal st)"
    using filled_event_exact [OF demo_tracked_inv s']
  proof (elim ex_forward conjE, intro conjI ballI)
    fix sts
    assume "\<forall>h t. hm_get (sm_tracked_orders demo_tracked) h = Some t \<and> \<not> is_terminal (to_status t) \<and>
       fill_outputs_are_superset_of_order_outputs (fe_outputs demo_filled) (so_outputs (to_order t)) \<and>
       (\<forall>w. fst (q_nonce_consumed ?env (to_order t) w) = Inr True) \<longrightarrow> h \<in> status_order_hash ` set sts"
    from this [rule_format, of 5 ?t] t c n show "5 \<in> status_order_hash ` set sts" by simp
  qed (assumption, auto)
  then show ?thesis using s' by fastforce
qed

text \<open>
  The consumed nonce does not tell which event paid an order. When two pending orders want outputs
  that one event covers and both nonces are consumed when it arrives (two fills in one block),
  the first event settles both, and both are reported with its transaction.
\<close>

lemma fill_settles:
  assumes inv: "sm_inv s" and step: "handle_chain_event env (CE_Filled filled) s = Some s'"
    and t: "tracked s h = Some t" "\<not> is_terminal (to_status t)"
    and c: "fill_outputs_are_superset_of_order_outputs (fe_outputs filled) (so_outputs (to_order t))"
    and consumed: "\<And>w. fst (q_nonce_consumed env (to_order t) w) = Inr True"
  obtains t' info where "tracked s' h = Some t'" "to_status t' = Filled h (so_owner (to_order t)) (Some info)"
    "fi_fill_tx info = Some \<lparr>ct_chain = fe_chain filled, ct_tx_hash = fe_tx_hash filled\<rparr>"
proof -
  let ?s1 = "s\<lparr>sm_metrics := record_chain_event Kind_Filled (sm_metrics s),
      sm_event_store := insert_filled filled (sm_event_store s)\<rparr>"
  from step obtain s2 where ch: "check_fills_against_pending env filled ?s1 = Some s2" and s': "s' = update_store_metrics s2"
    by (auto simp: handle_chain_event_def split: Option.bind_splits)
  have inv1: "sm_inv ?s1" using inv by (simp add: sm_inv_def sm_wf_def coherent_def es_wf_insert_filled)
  have same: "tracked ?s1 j = tracked s j" for j by simp
  obtain sts tr where eff: "refreshed_by sts tr ?s1 s2" and d: "distinct (map status_order_hash sts)"
    and sound: "\<And>st. st \<in> set sts \<Longrightarrow> \<exists>t. tracked s (status_order_hash st) = Some t \<and> \<not> is_terminal (to_status t) \<and>
       fill_outputs_are_superset_of_order_outputs (fe_outputs filled) (so_outputs (to_order t)) \<and>
       confirmed env (sm_event_store ?s1) filled t st"
    and complete: "\<And>h t. tracked s h = Some t \<Longrightarrow> \<not> is_terminal (to_status t) \<Longrightarrow>
       fill_outputs_are_superset_of_order_outputs (fe_outputs filled) (so_outputs (to_order t)) \<Longrightarrow>
       h \<in> status_order_hash ` set sts \<or> (\<exists>w. fst (q_nonce_consumed env (to_order t) w) \<noteq> Inr True)"
    by (rule check_fills_effect [OF inv1 ch, unfolded same]) (rule that; assumption)
  from complete [OF t c] consumed obtain st where st: "st \<in> set sts" "status_order_hash st = h" by auto
  from sound [OF st(1)] st(2) t(1) have "confirmed env (sm_event_store ?s1) filled t st" by auto
  then obtain info where info: "st = Filled (so_hash (to_order t)) (so_owner (to_order t)) (Some info)"
    "fi_fill_tx info = Some \<lparr>ct_chain = fe_chain filled, ct_tx_hash = fe_tx_hash filled\<rparr>"
    by (auto simp: confirmed_def build_fill_info_def Let_def split: Option.bind_splits)
  have "tracked s' h = Some (set_status st t)"
    using eff last_update_distinct [OF d st(1)] st(2) t(1) by (simp add: s' refreshed_by_def refreshed_def sm_simps)
  then show thesis using that info st(2) by (simp add: sm_simps)
qed

lemma one_fill_settles_two:
  assumes "sm_inv s" "handle_chain_event env (CE_Filled filled) s = Some s'"
    and "tracked s h = Some t" "\<not> is_terminal (to_status t)" "tracked s j = Some u" "\<not> is_terminal (to_status u)"
    and "fe_outputs filled = so_outputs (to_order t)" "so_outputs (to_order u) = so_outputs (to_order t)"
    and "\<And>order w. fst (q_nonce_consumed env order w) = Inr True"
  shows "\<exists>t' u' i1 i2. tracked s' h = Some t' \<and> to_status t' = Filled h (so_owner (to_order t)) (Some i1) \<and>
    tracked s' j = Some u' \<and> to_status u' = Filled j (so_owner (to_order u)) (Some i2) \<and>
    fi_fill_tx i1 = fi_fill_tx i2"
proof -
  have c: "fill_outputs_are_superset_of_order_outputs (fe_outputs filled) (so_outputs (to_order t))"
    "fill_outputs_are_superset_of_order_outputs (fe_outputs filled) (so_outputs (to_order u))"
    using assms(7,8) by (simp_all add: cover.covers_refl)
  obtain t' i1 where "tracked s' h = Some t'" "to_status t' = Filled h (so_owner (to_order t)) (Some i1)"
    "fi_fill_tx i1 = Some \<lparr>ct_chain = fe_chain filled, ct_tx_hash = fe_tx_hash filled\<rparr>"
    by (rule fill_settles [OF assms(1-4) c(1) assms(9)])
  moreover obtain u' i2 where "tracked s' j = Some u'" "to_status u' = Filled j (so_owner (to_order u)) (Some i2)"
    "fi_fill_tx i2 = Some \<lparr>ct_chain = fe_chain filled, ct_tx_hash = fe_tx_hash filled\<rparr>"
    by (rule fill_settles [OF assms(1,2,5,6) c(2) assms(9)])
  ultimately show ?thesis by simp
qed

text \<open>
  C18: registering an order is idempotent and reports the stored status. For an order that is
  not tracked, the status computed for it (as present in the cache) is stored, broadcast once
  and reported to the requester; for a tracked one nothing is queried, stored or broadcast and
  the requester gets the stored status. Either way, right after it any further request for the
  same hash is answered with the stored status and changes nothing else.
\<close>

theorem register_order_exact:
  assumes "register_order env order sender s = Some s'"
  shows "\<exists>t. hm_get (sm_tracked_orders s') (so_hash order) = Some t \<and>
    sm_reports s' = sm_reports s @ (case sender of None \<Rightarrow> [] | Some i \<Rightarrow> [(i, to_status t)]) \<and>
    sm_event_store s' = sm_event_store s \<and>
    (case hm_get (sm_tracked_orders s) (so_hash order) of
       Some t0 \<Rightarrow> t = t0 \<and> sm_tracked_orders s' = sm_tracked_orders s \<and>
         sm_updates s' = sm_updates s \<and> sm_tracker s' = sm_tracker s
     | None \<Rightarrow> to_order t = order \<and> sm_updates s' = sm_updates s @ [to_status t] \<and>
         status_for_order env order True (sm_tracker s) = Some (to_status t, sm_tracker s') \<and>
         (\<forall>h. h \<noteq> so_hash order \<longrightarrow> hm_get (sm_tracked_orders s') h = hm_get (sm_tracked_orders s) h)) \<and>
    (\<forall>order' i. so_hash order' = so_hash order \<longrightarrow>
       register_order env order' (Some i) s' = Some (s'\<lparr>sm_reports := sm_reports s' @ [(i, to_status t)]\<rparr>))"
proof (cases "hm_get (sm_tracked_orders s) (so_hash order)")
  case (Some t)
  then have "s' = send_report sender (to_status t) s" using assms by (simp add: register_order_def)
  then show ?thesis using Some
    by (simp add: sm_simps register_order_def send_report_def split: option.split)
next
  case None
  from register_order_new [OF this assms] obtain st tr where
    st: "status_for_order env order True (sm_tracker s) = Some (st, tr)" and
    s': "s' = update_store_metrics (broadcast st (send_report sender st (s\<lparr>sm_tracker := tr,
       sm_tracked_orders := hm_insert (so_hash order) (tracked_order_new order st) (sm_tracked_orders s)\<rparr>)))" .
  have t: "hm_get (sm_tracked_orders s') (so_hash order) = Some (tracked_order_new order st)"
    by (simp add: s' sm_simps hm.get_put)
  then have "register_order env order' (Some i) s' = Some (s'\<lparr>sm_reports := sm_reports s' @ [(i, st)]\<rparr>)"
    if "so_hash order' = so_hash order" for order' i
    using that by (simp add: register_order_def send_report_def sm_simps)
  then show ?thesis using None st t
    by (intro exI [of _ "tracked_order_new order st"]) (simp add: s' sm_simps hm.get_put split: option.split)
qed

theorem register_order_exact_witness:
  "\<exists>t. hm_get (sm_tracked_orders demo_tracked) 5 = Some t \<and>
     register_order demo_env (bare_order 5) (Some 2) demo_tracked =
       Some (demo_tracked\<lparr>sm_reports := sm_reports demo_tracked @ [(2, to_status t)]\<rparr>)"
  using register_order_exact [OF demo_registered]
  by (elim ex_forward conjE) (simp add: bare_order_def demo_order_def)

text \<open>
  The gauges go stale when orders are evicted. There is a run in which a new block evicts
  the only tracked order, and afterwards the gauge of tracked orders still says one, because
  \<open>handle_new_blocks\<close> does not update the metrics of the store.
\<close>

theorem new_blocks_stale_gauge:
  "\<exists>rds. case run demo_env rds False (demo_manager [1000, 3000]) of (exit, s') \<Rightarrow>
     exit = Running \<and> sm_tracked_orders s' = [] \<and> m_tracked_orders (sm_metrics s') = 1"
proof (rule exI [of _ "[idle\<lparr>rd_track := Some (Some \<lparr>tr_order = bare_order 5, tr_initial_report_sender = Some 1\<rparr>)\<rparr>,
    idle\<lparr>rd_blocks := Some (Some \<lparr>bt_rollup = 501, bt_host = 9\<rparr>)\<rparr>]"])
  have "demo_tracked\<lparr>sm_all_order_hashes := {5}\<rparr> = demo_tracked"
    by (simp add: demo_tracked_def)
  then show "case run demo_env [idle\<lparr>rd_track := Some (Some \<lparr>tr_order = bare_order 5, tr_initial_report_sender = Some 1\<rparr>)\<rparr>,
      idle\<lparr>rd_blocks := Some (Some \<lparr>bt_rollup = 501, bt_host = 9\<rparr>)\<rparr>] False (demo_manager [1000, 3000]) of (exit, s') \<Rightarrow>
     exit = Running \<and> sm_tracked_orders s' = [] \<and> m_tracked_orders (sm_metrics s') = 1"
    using demo_registered demo_blocks
    by (simp add: run_def select_input_def idle_def) (simp add: demo_expired_def demo_tracked_def)
qed

end
