(* ===== verification/Broadcasts.thy ===== *)
theory Broadcasts
  imports ManagerGuarantees
begin

text \<open>
  How the broadcast history and the tracked orders of a run grow together: what a subscriber
  who joins a run in the middle can conclude from the statuses it sees from then on.
\<close>

section \<open>How a run extends what was broadcast\<close>

text \<open>
  One state of the manager extends another when it has broadcast more, and an order that is
  tracked without a new broadcast was tracked before, with the same status.
\<close>

definition extends :: "'w state_manager \<Rightarrow> 'w state_manager \<Rightarrow> bool" where
  "extends s s' \<longleftrightarrow> (\<exists>new. sm_updates s' = sm_updates s @ new \<and>
     (\<forall>h t. tracked s' h = Some t \<longrightarrow> h \<notin> status_order_hash ` set new \<longrightarrow> tracked s h = Some t))"

lemma extendsI:
  "sm_updates s' = sm_updates s @ new \<Longrightarrow>
     (\<And>h t. tracked s' h = Some t \<Longrightarrow> h \<notin> status_order_hash ` set new \<Longrightarrow> tracked s h = Some t) \<Longrightarrow>
     extends s s'"
  by (auto simp: extends_def)

lemma extends_refl: "extends s s"
  by (rule extendsI [of _ _ "[]"]) auto

lemma extends_trans:
  assumes "extends s s'" "extends s' s''"
  shows "extends s s''"
proof -
  from assms obtain new new' where
    "sm_updates s' = sm_updates s @ new"
    "\<forall>h t. tracked s' h = Some t \<longrightarrow> h \<notin> status_order_hash ` set new \<longrightarrow> tracked s h = Some t"
    "sm_updates s'' = sm_updates s' @ new'"
    "\<forall>h t. tracked s'' h = Some t \<longrightarrow> h \<notin> status_order_hash ` set new' \<longrightarrow> tracked s' h = Some t"
    by (auto simp: extends_def)
  then show ?thesis by (intro extendsI [of _ _ "new @ new'"]) (auto simp: image_Un)
qed

lemma extends_same:
  "sm_updates s' = sm_updates s \<Longrightarrow> sm_tracked_orders s' = sm_tracked_orders s \<Longrightarrow> extends s s'"
  by (rule extendsI [of _ _ "[]"]) auto

lemma extends_refreshed:
  assumes "refreshed_by sts tr s s'"
  shows "extends s s'"
proof (rule extendsI [of _ _ sts])
  show "sm_updates s' = sm_updates s @ sts" using assms by (simp add: refreshed_by_def)
  show "tracked s' h = Some t \<Longrightarrow> h \<notin> status_order_hash ` set sts \<Longrightarrow> tracked s h = Some t" for h t
    using assms by (simp add: refreshed_by_def refreshed_id option.map_id)
qed

lemma handle_new_blocks_extends:
  assumes "sm_inv s" "handle_new_blocks env tip s = Some s'"
  shows "extends s s'"
proof -
  obtain sts where u: "sm_updates s' = sm_updates s @ sts" and
    t: "\<And>j. tracked s' j = (case map_option (refreshed sts j) (tracked s j) of
        None \<Rightarrow> None | Some t \<Rightarrow> if is_terminal (to_status t) then None else Some t)"
    by (rule handle_new_blocks_effect [OF assms]) (rule that; assumption)
  show ?thesis
    by (rule extendsI [OF u]) (auto simp: t refreshed_id split: option.splits if_splits)
qed

lemma handle_chain_event_extends:
  assumes "sm_inv s" "handle_chain_event env event s = Some s'"
  shows "extends s s'"
proof (cases event)
  case (CE_Filled filled)
  let ?s1 = "s\<lparr>sm_metrics := record_chain_event Kind_Filled (sm_metrics s),
      sm_event_store := insert_filled filled (sm_event_store s)\<rparr>"
  from assms(2) CE_Filled obtain s2 where c: "check_fills_against_pending env filled ?s1 = Some s2"
    and s': "s' = update_store_metrics s2"
    by (auto simp: handle_chain_event_def split: Option.bind_splits)
  have "sm_inv ?s1"
    using assms(1) by (simp add: sm_inv_def sm_wf_def coherent_def es_wf_insert_filled)
  then obtain sts tr where "refreshed_by sts tr ?s1 s2"
    by (rule check_fills_effect [OF _ c])
  then have "extends ?s1 s2" by (rule extends_refreshed)
  then show ?thesis by (simp add: extends_def s' sm_simps)
next
  case (CE_Order order_event)
  with assms show ?thesis
    by (auto simp: handle_chain_event_def sm_simps intro: extends_same)
qed

lemma register_order_extends:
  assumes "register_order env order sender s = Some s'"
  shows "extends s s'"
proof (cases "tracked s (so_hash order)")
  case (Some t)
  then show ?thesis using assms by (auto simp: register_order_def sm_simps intro!: extends_same)
next
  case None
  from register_order_new [OF this assms] obtain st tr where
    st: "status_for_order env order True (sm_tracker s) = Some (st, tr)" and
    s': "s' = update_store_metrics (broadcast st (send_report sender st (s\<lparr>sm_tracker := tr,
       sm_tracked_orders := hm_insert (so_hash order) (tracked_order_new order st) (sm_tracked_orders s)\<rparr>)))" .
  have "status_order_hash st = so_hash order" using status_for_order_identity [OF st] by simp
  then show ?thesis
    by (intro extendsI [of _ _ "[st]"]) (auto simp: s' sm_simps hm.get_put split: if_splits)
qed

lemma handle_input_extends:
  "sm_inv s \<Longrightarrow> handle_input env i s = Some s' \<Longrightarrow> extends s s'"
  by (cases i)
    (auto intro: handle_new_blocks_extends handle_chain_event_extends register_order_extends
      extends_refl extends_same simp: send_snapshot_def)

lemma panicked_extends:
  assumes "sm_inv s"
  shows "extends s (panicked_state env i s)"
proof -
  from panicked_effect [OF assms, of env i] obtain sts where "partly_refreshed sts s (panicked_state env i s)" by blast
  then show ?thesis
    by (intro extendsI [of _ _ sts]) (auto simp: partly_refreshed_def refreshed_id option.map_id)
qed

interpretation history_run: run_invariant env "\<lambda>s. sm_inv s \<and> extends s0 s" "\<lambda>_. True"
  for env :: "'w env" and s0
proof unfold_locales
  fix s s' :: "'w state_manager" and i
  show "sm_inv s \<and> extends s0 s \<Longrightarrow> handle_input env i s = Some s' \<Longrightarrow> sm_inv s' \<and> extends s0 s'"
    using handle_input_inv handle_input_extends extends_trans by blast
  show "sm_inv s \<and> extends s0 s \<Longrightarrow> sm_inv (s\<lparr>sm_all_order_hashes := H\<rparr>) \<and> extends s0 (s\<lparr>sm_all_order_hashes := H\<rparr>)" for H
    using coherent_run.inv_hashes [of s H] by (simp add: extends_def)
  show "sm_inv s \<and> extends s0 s \<Longrightarrow> handle_input env i s = None \<Longrightarrow>
      sm_inv (panicked_state env i s) \<and> extends s0 (panicked_state env i s)"
    using coherent_run.inv_panicked panicked_extends extends_trans by blast
qed

text \<open>A snapshot holds one status for each tracked order.\<close>

lemma last_update_snapshot:
  assumes inv: "sm_inv s" and t: "tracked s h = Some t"
  shows "last_update h (map (\<lambda>(_, t). to_status t) (sm_iter env s)) = Some (to_status t)"
proof -
  have wf: "hm_wf (sm_tracked_orders s)" and ok: "sm_wf s" using inv by (auto simp: sm_inv_def sm_wf_def)
  have mem: "(j, u) \<in> set (sm_iter env s) \<longleftrightarrow> tracked s j = Some u" for j u
    by (simp add: sm_iter_def hm_get_in_set [OF wf])
  have hashes: "map status_order_hash (map (\<lambda>(_, t). to_status t) (sm_iter env s)) = map fst (sm_iter env s)"
    using mem sm_wfD(2) [OF ok] by (auto simp: comp_def intro!: map_cong)
  have d: "distinct (map status_order_hash (map (\<lambda>(_, t). to_status t) (sm_iter env s)))"
    unfolding hashes unfolding sm_iter_def using wf by (rule hm_iter_distinct)
  have "to_status t \<in> set (map (\<lambda>(_, t). to_status t) (sm_iter env s))"
    using mem [of h t] t by force
  from last_update_distinct [OF d this] sm_wfD(2) [OF ok t] show ?thesis by simp
qed

text \<open>
  A snapshot \<open>covers\<close> a state of the manager for a subscriber at position \<open>p\<close> of the history: its
  statuses were broadcast, and with what was broadcast from \<open>p\<close> on it tells the current status of
  every tracked order.
\<close>

definition covers :: "'w state_manager \<Rightarrow> nat \<Rightarrow> order_status list \<Rightarrow> bool" where
  "covers s p snapshot \<longleftrightarrow>
     set snapshot \<subseteq> set (sm_updates s) \<and>
     (\<forall>h t. tracked s h = Some t \<longrightarrow> last_update h (snapshot @ drop p (sm_updates s)) = Some (to_status t))"

lemma last_update_later:
  "last_update h (xs @ ys) = (if h \<in> status_order_hash ` set ys then last_update h ys else last_update h xs)"
  using last_update_None [of h ys] by (auto simp: last_update_append split: option.split)

lemma covers_snapshot:
  assumes inv: "sm_inv s" and p: "p \<le> length (sm_updates s)"
  shows "covers s p (map (\<lambda>(_, t). to_status t) (sm_iter env s))"
  unfolding covers_def
proof (intro conjI allI impI)
  have "to_status t \<in> set (sm_updates s)" if "(h, t) \<in> set (sm_iter env s)" for h t
  proof -
    have "tracked s h = Some t" using that inv by (simp add: sm_iter_def sm_inv_def sm_wf_def hm_get_in_set)
    then show ?thesis using inv by (auto simp: sm_inv_def coherent_def dest: last_update_in)
  qed
  then show "set (map (\<lambda>(_, t). to_status t) (sm_iter env s)) \<subseteq> set (sm_updates s)" by auto
  fix h t
  assume t: "tracked s h = Some t"
  then have now: "last_update h (take p (sm_updates s) @ drop p (sm_updates s)) = Some (to_status t)"
    using inv by (simp add: sm_inv_def coherent_def)
  show "last_update h (map (\<lambda>(_, t). to_status t) (sm_iter env s) @ drop p (sm_updates s)) = Some (to_status t)"
    using now [unfolded last_update_later] last_update_snapshot [OF inv t, of env]
    unfolding last_update_later by presburger
qed

lemma covers_extends:
  assumes ext: "extends s s'" and inv: "sm_inv s'" and p: "p \<le> length (sm_updates s)" and cov: "covers s p snapshot"
  shows "covers s' p snapshot"
  unfolding covers_def
proof (intro conjI allI impI)
  show "set snapshot \<subseteq> set (sm_updates s')" using ext cov by (auto simp: extends_def covers_def)
  fix h t
  assume t: "tracked s' h = Some t"
  obtain new where u: "sm_updates s' = sm_updates s @ new" and
    old: "h \<notin> status_order_hash ` set new \<Longrightarrow> tracked s h = Some t"
    using ext t by (auto simp: extends_def)
  have now: "last_update h (sm_updates s @ new) = Some (to_status t)"
    using inv t by (simp add: sm_inv_def coherent_def flip: u)
  have "last_update h ((snapshot @ drop p (sm_updates s)) @ new) = Some (to_status t)"
  proof (cases "h \<in> status_order_hash ` set new")
    case True
    then show ?thesis using now by (simp only: last_update_later if_True)
  next
    case False
    then have "last_update h (snapshot @ drop p (sm_updates s)) = Some (to_status t)"
      using old [OF False] cov by (auto simp only: covers_def)
    then show ?thesis using False by (simp only: last_update_later [of h _ new] if_False)
  qed
  then show "last_update h (snapshot @ drop p (sm_updates s')) = Some (to_status t)" using p by (simp add: u)
qed

end
