(* ===== verification/BlockWatcher.thy ===== *)
theory BlockWatcher
  imports Tasks EventStore Metrics
begin

text \<open>
  The block watcher (\<open>ingestion/block_watcher.rs\<close>): it waits for a rollup header, polls the
  host until its tip has advanced, and publishes the pair of tips. What the \<open>select!\<close> loops
  receive is an input list: every list is a possible history, and a loop that has used up its
  list is still waiting.
\<close>

text \<open>\<open>BlockWatcher::new\<close>: both block numbers, or the first error.\<close>

definition block_watcher_new :: "'w env \<Rightarrow> 'w \<Rightarrow> (report + block_tip) \<times> 'w" where
  "block_watcher_new env w =
     (case q_block_number env Rollup w of
        (Inl e, w1) \<Rightarrow> (Inl (''failed to fetch initial block numbers'' # report_of e), w1)
      | (Inr rollup_tip, w1) \<Rightarrow>
     (case q_block_number env Host w1 of
        (Inl e, w2) \<Rightarrow> (Inl (''failed to fetch initial block numbers'' # report_of e), w2)
      | (Inr host_tip, w2) \<Rightarrow> (Inr \<lparr>bt_rollup = rollup_tip, bt_host = host_tip\<rparr>, w2)))"

section \<open>Polling the host\<close>

datatype poll_event = Poll_Cancelled | Poll_Tick

text \<open>\<^term>\<open>None\<close>: the loop is still polling when the events end.\<close>

fun poll_host_tip ::
  "'w env \<Rightarrow> u64 \<Rightarrow> poll_event list \<Rightarrow> 'w \<Rightarrow> ((report + u64) \<times> 'w) option" where
  "poll_host_tip env previous_tip [] w = None"
| "poll_host_tip env previous_tip (Poll_Cancelled # events) w = Some (Inr previous_tip, w)"
| "poll_host_tip env previous_tip (Poll_Tick # events) w =
     (case q_block_number env Host w of
        (Inl e, w') \<Rightarrow> Some (Inl (''failed to poll host block number'' # report_of e), w')
      | (Inr tip, w') \<Rightarrow>
          if tip > previous_tip then Some (Inr tip, w')
          else poll_host_tip env previous_tip events w')"

section \<open>Watching\<close>

text \<open>
  One iteration of \<open>watch_blocks\<close>: the token, a header (with what the poll that follows
  sees), a lagged subscription or its end.
\<close>

datatype block_input =
    Block_Cancelled
  | Block_Header u64 "poll_event list"
  | Block_Lagged nat
  | Block_Closed

text \<open>
  The state of the watcher: the value of the watch channel, all values published so far, the
  metrics and the world. The exit is \<^term>\<open>None\<close> while the loop runs.
\<close>

record 'w block_watcher =
  bw_tip :: block_tip
  bw_published :: "block_tip list"
  bw_metrics :: metrics
  bw_world :: 'w

definition send_replace :: "block_tip \<Rightarrow> 'w block_watcher \<Rightarrow> 'w block_watcher" where
  "send_replace tip s = s\<lparr>bw_tip := tip, bw_published := bw_published s @ [tip]\<rparr>"

fun watch_blocks_loop ::
  "'w env \<Rightarrow> block_input list \<Rightarrow> 'w block_watcher \<Rightarrow> (report + unit) option \<times> 'w block_watcher" where
  "watch_blocks_loop env [] s = (None, s)"
| "watch_blocks_loop env (Block_Cancelled # inputs) s = (Some (Inr ()), s)"
| "watch_blocks_loop env (Block_Header rollup_block polls # inputs) s =
     (let s1 = s\<lparr>bw_metrics := record_block_received Rollup (bw_metrics s)\<rparr>
      in case poll_host_tip env (bt_host (bw_tip s)) polls (bw_world s) of
        None \<Rightarrow> (None, s1)
      | Some (Inl e, w) \<Rightarrow> (Some (Inl e), s1\<lparr>bw_world := w\<rparr>)
      | Some (Inr host_block, w) \<Rightarrow>
          watch_blocks_loop env inputs
            (send_replace \<lparr>bt_rollup = rollup_block, bt_host = host_block\<rparr>
              (s1\<lparr>bw_world := w, bw_metrics := record_block_received Host (bw_metrics s1)\<rparr>)))"
| "watch_blocks_loop env (Block_Lagged missed # inputs) s = watch_blocks_loop env inputs s"
| "watch_blocks_loop env (Block_Closed # inputs) s =
     (Some (Inl [''rollup block subscription closed'']), s)"

text \<open>
  The whole task: the subscription may fail (\<open>sub\<close>), and the exit is normalised against the
  token as it stands when the loop ends.
\<close>

definition watch_blocks ::
  "'w env \<Rightarrow> ext_error option \<Rightarrow> block_input list \<Rightarrow> bool \<Rightarrow> 'w block_watcher \<Rightarrow>
     ((report + unit) \<times> bool) option \<times> 'w block_watcher" where
  "watch_blocks env sub inputs cancelled s =
     (case (case sub of
              Some e \<Rightarrow> (Some (Inl (''failed to subscribe to rollup blocks'' # report_of e)), s)
            | None \<Rightarrow> watch_blocks_loop env inputs s) of
        (exit, s') \<Rightarrow> (map_option (\<lambda>r. handle_task_exit ''block_watcher'' r cancelled) exit, s'))"

section \<open>Receiving\<close>

text \<open>
  \<open>BlockNumbers\<close>: a receiver of the watch channel, as the number of publications it has seen.
  \<open>changed\<close> waits (\<^term>\<open>None\<close>) until there is a newer one and returns the latest value.
\<close>

definition block_numbers_rollup :: "'w block_watcher \<Rightarrow> u64" where
  "block_numbers_rollup s = bt_rollup (bw_tip s)"

definition block_numbers_host :: "'w block_watcher \<Rightarrow> u64" where
  "block_numbers_host s = bt_host (bw_tip s)"

definition block_numbers_changed :: "nat \<Rightarrow> 'w block_watcher \<Rightarrow> (block_tip \<times> nat) option" where
  "block_numbers_changed seen s =
     (if seen < length (bw_published s) then Some (bw_tip s, length (bw_published s)) else None)"

text \<open>
  The watcher that \<open>new\<close> returns for the tips read, and \<open>subscribe\<close>: a new receiver has seen
  what was published before it.
\<close>

definition block_watcher_of :: "block_tip \<Rightarrow> 'w \<Rightarrow> 'w block_watcher" where
  "block_watcher_of tip w = \<lparr>bw_tip = tip, bw_published = [], bw_metrics = metrics_new, bw_world = w\<rparr>"

definition block_watcher_subscribe :: "'w block_watcher \<Rightarrow> nat" where
  "block_watcher_subscribe s = length (bw_published s)"

text \<open>\<open>spawn\<close>: the receiver for the state manager, and the watcher that the task starts with.\<close>

definition block_watcher_spawn :: "'w block_watcher \<Rightarrow> nat \<times> 'w block_watcher" where
  "block_watcher_spawn s = (block_watcher_subscribe s, s)"

lemma spawn_simps [simp]: "block_watcher_spawn (block_watcher_of tip w) =
    (0, \<lparr>bw_tip = tip, bw_published = [], bw_metrics = metrics_new, bw_world = w\<rparr>)"
  by (simp add: block_watcher_spawn_def block_watcher_subscribe_def block_watcher_of_def)

text \<open>A receiver waits until something is published after its subscription.\<close>

lemma subscribe_waits:
  "block_numbers_changed (block_watcher_subscribe s) s = None"
  "block_numbers_changed (block_watcher_subscribe s) (send_replace tip s) = Some (tip, Suc (block_watcher_subscribe s))"
  by (simp_all add: block_numbers_changed_def block_watcher_subscribe_def send_replace_def)

section \<open>Lemmas\<close>

lemma poll_host_tip_Inr:
  "poll_host_tip env previous_tip events w = Some (Inr tip, w') \<Longrightarrow>
     previous_tip < tip \<or> tip = previous_tip \<and> Poll_Cancelled \<in> set events"
  by (induction env previous_tip events w rule: poll_host_tip.induct)
    (auto split: prod.splits sum.splits if_splits)

text \<open>The host's answers to a run of polls.\<close>

fun host_answers :: "'w env \<Rightarrow> nat \<Rightarrow> 'w \<Rightarrow> (ext_error + u64) list" where
  "host_answers env 0 w = []"
| "host_answers env (Suc n) w = (case q_block_number env Host w of (r, w') \<Rightarrow> r # host_answers env n w')"

lemma poll_host_tip_first_advance:
  assumes "host_answers env n w = map Inr stale @ Inr tip # rest" "\<forall>t \<in> set stale. t \<le> previous_tip"
    "previous_tip < tip"
  shows "\<exists>w'. poll_host_tip env previous_tip (replicate n Poll_Tick) w = Some (Inr tip, w')"
  using assms
proof (induction n arbitrary: w stale)
  case (Suc n)
  obtain r w1 where q: "q_block_number env Host w = (r, w1)" by fastforce
  show ?case
  proof (cases stale)
    case Nil
    with Suc.prems q show ?thesis by simp
  next
    case (Cons t ts)
    with Suc.prems q have "r = Inr t" "host_answers env n w1 = map Inr ts @ Inr tip # rest" "\<not> t > previous_tip"
      by auto
    with Suc.IH [of w1 ts] Suc.prems Cons q show ?thesis by simp
  qed
qed simp

text \<open>No poll of these inputs sees the cancellation.\<close>

definition polls_uncancelled :: "block_input list \<Rightarrow> bool" where
  "polls_uncancelled inputs \<longleftrightarrow> (\<forall>r polls. Block_Header r polls \<in> set inputs \<longrightarrow> Poll_Cancelled \<notin> set polls)"

lemma watch_blocks_loop_tips:
  assumes "watch_blocks_loop env inputs s = (exit, s')"
  shows "\<exists>new. bw_published s' = bw_published s @ new \<and> bw_tip s' = last (bw_tip s # new) \<and>
    sorted (map bt_host (bw_tip s # new)) \<and>
    (polls_uncancelled inputs \<longrightarrow> sorted_wrt (<) (map bt_host (bw_tip s # new)))"
  using assms
proof (induction env inputs s rule: watch_blocks_loop.induct)
  case (3 env rollup_block polls inputs s)
  show ?case
  proof (cases "poll_host_tip env (bt_host (bw_tip s)) polls (bw_world s)")
    case (Some p)
    obtain r w where p: "p = (r, w)" by fastforce
    show ?thesis
    proof (cases r)
      case (Inr h)
      let ?tip = "\<lparr>bt_rollup = rollup_block, bt_host = h\<rparr>"
      let ?s1 = "s\<lparr>bw_metrics := record_block_received Rollup (bw_metrics s)\<rparr>"
      from "3.prems" Some p Inr
      have "watch_blocks_loop env inputs (send_replace ?tip
          (?s1\<lparr>bw_world := w, bw_metrics := record_block_received Host (bw_metrics ?s1)\<rparr>)) = (exit, s')"
        by (simp add: Let_def)
      from "3.IH" [OF refl Some p [symmetric] Inr this] obtain new where new:
        "bw_published s' = (bw_published s @ [?tip]) @ new" "bw_tip s' = last (?tip # new)"
        "sorted (map bt_host (?tip # new))"
        "polls_uncancelled inputs \<longrightarrow> sorted_wrt (<) (map bt_host (?tip # new))"
        by (auto simp: send_replace_def)
      from poll_host_tip_Inr [of env "bt_host (bw_tip s)" polls "bw_world s" h w] Some p Inr
      have h: "bt_host (bw_tip s) < h \<or> h = bt_host (bw_tip s) \<and> Poll_Cancelled \<in> set polls" by simp
      have "polls_uncancelled (Block_Header rollup_block polls # inputs) \<longrightarrow>
          polls_uncancelled inputs \<and> Poll_Cancelled \<notin> set polls"
        by (auto simp: polls_uncancelled_def)
      then show ?thesis using new h by (intro exI [of _ "?tip # new"]) auto
    next
      case (Inl e)
      with "3.prems" Some p have "s' = s\<lparr>bw_metrics := record_block_received Rollup (bw_metrics s), bw_world := w\<rparr>"
        by (simp add: Let_def)
      then show ?thesis by (intro exI [of _ "[]"]) simp
    qed
  next
    case None
    with "3.prems" have "s' = s\<lparr>bw_metrics := record_block_received Rollup (bw_metrics s)\<rparr>"
      by (simp add: Let_def)
    then show ?thesis by (intro exI [of _ "[]"]) simp
  qed
next
  case (4 env missed inputs s)
  from "4.prems" have "watch_blocks_loop env inputs s = (exit, s')" by simp
  from "4.IH" [OF this] show ?case by (simp add: polls_uncancelled_def)
next
  case (1 env s)
  then have "s' = s" by simp
  then show ?case by (intro exI [of _ "[]"]) simp
next
  case (2 env inputs s)
  then have "s' = s" by simp
  then show ?case by (intro exI [of _ "[]"]) simp
next
  case (5 env inputs s)
  then have "s' = s" by simp
  then show ?case by (intro exI [of _ "[]"]) simp
qed

section \<open>Properties\<close>

text \<open>
  C27: the host tip advances with every publication. The host numbers that the watcher publishes
  never decrease, from the tip it started with; they increase strictly as long as no poll is cut
  short by the cancellation; and the channel's value is always the last publication.
\<close>

theorem host_tip_advances:
  assumes "watch_blocks env sub inputs cancelled s = (exit, s')"
  shows "\<exists>new. bw_published s' = bw_published s @ new \<and> bw_tip s' = last (bw_tip s # new) \<and>
    sorted (map bt_host (bw_tip s # new)) \<and>
    (polls_uncancelled inputs \<longrightarrow> sorted_wrt (<) (map bt_host (bw_tip s # new)))"
proof (cases sub)
  case None
  obtain e s1 where l: "watch_blocks_loop env inputs s = (e, s1)" by (rule prod.exhaust)
  with assms None have "s1 = s'" by (simp add: watch_blocks_def)
  with watch_blocks_loop_tips [OF l] show ?thesis by simp
next
  case (Some e)
  with assms have "s' = s" by (simp add: watch_blocks_def)
  then show ?thesis by (intro exI [of _ "[]"]) simp
qed

definition demo_watcher :: "u64 \<Rightarrow> int list block_watcher" where
  "demo_watcher h = \<lparr>bw_tip = \<lparr>bt_rollup = 1, bt_host = h\<rparr>, bw_published = [],
     bw_metrics = metrics_new, bw_world = []\<rparr>"

theorem host_tip_advances_witness:
  "\<exists>exit s'. watch_blocks demo_env None [Block_Header 8 [Poll_Tick], Block_Closed] False (demo_watcher 499) = (exit, s')
     \<and> bw_tip s' = last (bw_published s') \<and> sorted (map bt_host (bw_published s'))"
proof -
  obtain exit s' where e: "watch_blocks demo_env None [Block_Header 8 [Poll_Tick], Block_Closed] False
      (demo_watcher 499) = (exit, s')" by (rule prod.exhaust)
  then have "bw_published s' \<noteq> []"
    by (auto simp: watch_blocks_def demo_watcher_def demo_env_def send_replace_def)
  with host_tip_advances [OF e] e show ?thesis by (auto simp: demo_watcher_def)
qed

text \<open>
  The poll of the host returns as soon as the host advances. When the host's answers are
  any number of block numbers at or below the previous tip followed by one above it, polling
  returns that one; the poll never returns an older number.
\<close>

theorem poll_returns_first_advance:
  assumes "host_answers env n w = map Inr stale @ Inr tip # rest"
    and "\<forall>t \<in> set stale. t \<le> previous_tip" and "previous_tip < tip"
  shows "\<exists>w'. poll_host_tip env previous_tip (replicate n Poll_Tick) w = Some (Inr tip, w')"
  using assms by (rule poll_host_tip_first_advance)

theorem poll_returns_first_advance_witness:
  "\<exists>w'. poll_host_tip (demo_env\<lparr>q_block_number := \<lambda>_ w. (Inr (if w = [] then 7 else 8), 0 # w)\<rparr>) 7
     (replicate 3 Poll_Tick) [] = Some (Inr 8, w')"
  by (rule poll_returns_first_advance [where stale = "[7]" and rest = "[Inr 8]"])
    (simp_all add: numeral_3_eq_3)

end
