(* ===== verification/OrderDiscovery.thy ===== *)
theory OrderDiscovery
  imports Tasks Metrics
begin

text \<open>
  Order discovery (\<open>ingestion/order_discovery.rs\<close>): it polls the transaction cache, forwards the
  orders it has not seen since they entered the cache, and publishes the set of hashes that are
  in the cache.
\<close>

section \<open>One poll\<close>

text \<open>
  \<open>stream_orders().filter_orders(..).try_collect()\<close>: the filter's closure runs on each order as
  the stream reaches it and inserts the hash into both sets; the first error ends the
  collection, and what the closure has inserted by then stays.
\<close>

fun collect_new ::
  "(ext_error + signed_order) list \<Rightarrow> b256 set \<Rightarrow> b256 set \<Rightarrow> signed_order list \<Rightarrow>
     (ext_error + signed_order list) \<times> b256 set \<times> b256 set" where
  "collect_new [] seen_hashes current_hashes acc = (Inr acc, seen_hashes, current_hashes)"
| "collect_new (Inl e # items) seen_hashes current_hashes acc = (Inl e, seen_hashes, current_hashes)"
| "collect_new (Inr order # items) seen_hashes current_hashes acc =
     (let hash = so_hash order
      in collect_new items (insert hash seen_hashes) (insert hash current_hashes)
           (if hash \<notin> seen_hashes then acc @ [order] else acc))"

text \<open>\<open>poll_cache\<close>: the result, the seen hashes it leaves behind and the world.\<close>

definition poll_cache ::
  "'w env \<Rightarrow> b256 set \<Rightarrow> 'w \<Rightarrow> (ext_error + signed_order list \<times> b256 set) \<times> b256 set \<times> 'w" where
  "poll_cache env seen_hashes w =
     (case q_stream_orders env w of (items, w') \<Rightarrow>
       (case collect_new items seen_hashes {} [] of
          (Inl e, seen', _) \<Rightarrow> (Inl e, seen', w')
        | (Inr new_orders, seen', current_hashes) \<Rightarrow>
            (Inr (new_orders, current_hashes), {hash \<in> seen'. hash \<in> current_hashes}, w')))"

section \<open>The loop\<close>

record 'w discovery =
  od_seen :: "b256 set"
  od_all_hashes :: "b256 set"
  od_sent :: "signed_order list"
  od_metrics :: metrics
  od_world :: 'w

text \<open>
  One iteration: the token, or a tick; a tick says how many more orders the channel to the
  state manager takes before it is found closed (\<^term>\<open>None\<close>: it stays open).
\<close>

datatype discovery_input = Discovery_Cancelled | Discovery_Tick "nat option"

text \<open>\<open>send_new_orders\<close>: the orders that were sent and whether the channel was found closed.\<close>

fun send_new_orders :: "nat option \<Rightarrow> signed_order list \<Rightarrow> signed_order list \<times> (report + unit)" where
  "send_new_orders room [] = ([], Inr ())"
| "send_new_orders (Some 0) (order # orders) = ([], Inl [''order channel closed''])"
| "send_new_orders (Some (Suc n)) (order # orders) =
     (case send_new_orders (Some n) orders of (sent, r) \<Rightarrow> (order # sent, r))"
| "send_new_orders None (order # orders) =
     (case send_new_orders None orders of (sent, r) \<Rightarrow> (order # sent, r))"

text \<open>The counter that \<open>poll_cache\<close> bumps before it returns new orders.\<close>

definition discovered_metric :: "signed_order list \<Rightarrow> metrics \<Rightarrow> metrics" where
  "discovered_metric new_orders m =
     (if new_orders \<noteq> [] then record_orders_discovered (length new_orders) m else m)"

fun discovery_loop ::
  "'w env \<Rightarrow> discovery_input list \<Rightarrow> 'w discovery \<Rightarrow> (report + unit) option \<times> 'w discovery" where
  "discovery_loop env [] s = (None, s)"
| "discovery_loop env (Discovery_Cancelled # inputs) s = (Some (Inr ()), s)"
| "discovery_loop env (Discovery_Tick room # inputs) s =
     (case poll_cache env (od_seen s) (od_world s) of
        (Inl e, seen', w') \<Rightarrow> discovery_loop env inputs (s\<lparr>od_seen := seen', od_world := w'\<rparr>)
      | (Inr (new_orders, current_hashes), seen', w') \<Rightarrow>
          (case send_new_orders room new_orders of
             (sent, r) \<Rightarrow>
               let s' = s\<lparr>od_seen := seen', od_all_hashes := current_hashes,
                 od_sent := od_sent s @ sent,
                 od_metrics := discovered_metric new_orders (od_metrics s), od_world := w'\<rparr>
               in (case r of Inl e \<Rightarrow> (Some (Inl e), s') | Inr _ \<Rightarrow> discovery_loop env inputs s')))"

definition discovery_new :: "'w \<Rightarrow> 'w discovery" where
  "discovery_new w = \<lparr>od_seen = {}, od_all_hashes = {}, od_sent = [],
     od_metrics = metrics_new, od_world = w\<rparr>"

definition discovery_run ::
  "'w env \<Rightarrow> discovery_input list \<Rightarrow> bool \<Rightarrow> 'w \<Rightarrow> ((report + unit) \<times> bool) option \<times> 'w discovery" where
  "discovery_run env inputs cancelled w =
     (case discovery_loop env inputs (discovery_new w) of
        (exit, s') \<Rightarrow> (map_option (\<lambda>r. handle_task_exit ''order_discovery'' r cancelled) exit, s'))"

section \<open>Lemmas\<close>

text \<open>The orders of a stream before its first error.\<close>

fun delivered :: "(ext_error + signed_order) list \<Rightarrow> signed_order list" where
  "delivered [] = []"
| "delivered (Inl e # items) = []"
| "delivered (Inr order # items) = order # delivered items"

text \<open>The orders of a list whose hash is neither in a set nor that of an earlier one.\<close>

fun fresh_orders :: "b256 set \<Rightarrow> signed_order list \<Rightarrow> signed_order list" where
  "fresh_orders seen [] = []"
| "fresh_orders seen (order # orders) =
     (if so_hash order \<in> seen then fresh_orders seen orders
      else order # fresh_orders (insert (so_hash order) seen) orders)"

lemma fresh_orders_hashes: "so_hash ` set (fresh_orders seen orders) = so_hash ` set orders - seen"
  by (induction seen orders rule: fresh_orders.induct) auto

lemma fresh_orders_distinct: "distinct (map so_hash (fresh_orders seen orders))"
proof (induction seen orders rule: fresh_orders.induct)
  case (2 seen order orders)
  then show ?case using fresh_orders_hashes [of "insert (so_hash order) seen" orders] by auto
qed simp

lemma fresh_orders_subset: "set (fresh_orders seen orders) \<subseteq> set orders"
  by (induction seen orders rule: fresh_orders.induct) auto

lemma collect_new_sets:
  "collect_new items seen current acc = (r, seen', current') \<Longrightarrow>
     seen' = seen \<union> so_hash ` set (delivered items) \<and> current' = current \<union> so_hash ` set (delivered items)"
  by (induction items seen current acc rule: collect_new.induct) (auto simp: Let_def)

lemma collect_new_Inr:
  "collect_new items seen current acc = (Inr new, seen', current') \<Longrightarrow>
     new = acc @ fresh_orders seen (delivered items) \<and> (\<forall>x \<in> set items. \<exists>order. x = Inr order)"
  by (induction items seen current acc rule: collect_new.induct)
    (auto simp: Let_def insert_absorb split: if_splits)

lemma poll_cache_Inr:
  assumes "poll_cache env seen w = (Inr (new, current), seen', w')"
  shows "\<exists>items. q_stream_orders env w = (items, w') \<and> new = fresh_orders seen (delivered items) \<and>
    current = so_hash ` set (delivered items) \<and> seen' = current"
proof -
  obtain items w1 where q: "q_stream_orders env w = (items, w1)" by fastforce
  obtain r s1 c1 where c: "collect_new items seen {} [] = (r, s1, c1)" by (rule prod_cases3)
  with assms q obtain n where r: "r = Inr n" and eqs: "n = new" "c1 = current"
      "seen' = {hash \<in> s1. hash \<in> current}" "w1 = w'"
    by (auto simp: poll_cache_def split: sum.splits)
  from collect_new_sets [OF c] collect_new_Inr [OF c [unfolded r]] q eqs show ?thesis by auto
qed

lemma poll_cache_Inl:
  assumes "poll_cache env seen w = (Inl e, seen', w')"
  shows "\<exists>items. q_stream_orders env w = (items, w') \<and> seen' = seen \<union> so_hash ` set (delivered items)"
proof -
  obtain items w1 where q: "q_stream_orders env w = (items, w1)" by fastforce
  obtain r s1 c1 where c: "collect_new items seen {} [] = (r, s1, c1)" by (rule prod_cases3)
  with assms q have "seen' = s1" "w1 = w'" by (auto simp: poll_cache_def split: sum.splits)
  with collect_new_sets [OF c] q show ?thesis by auto
qed

section \<open>Properties\<close>

text \<open>
  C28: a successful poll reports exactly what entered the cache. The orders it returns are those
  of the cache, in the cache's order, whose hash was not seen before, each hash once; the
  published set is the set of hashes in the cache, and it is also what counts as seen from then
  on, so the set of seen hashes is never larger than the cache.
\<close>

theorem poll_cache_discovers:
  assumes "poll_cache env seen w = (Inr (new_orders, current), seen', w')"
  shows "\<exists>items. q_stream_orders env w = (items, w') \<and> new_orders = fresh_orders seen (delivered items) \<and>
    so_hash ` set new_orders = current - seen \<and> distinct (map so_hash new_orders) \<and>
    current = so_hash ` set (delivered items) \<and> seen' = current"
proof -
  from poll_cache_Inr [OF assms] obtain items where "q_stream_orders env w = (items, w')"
    "new_orders = fresh_orders seen (delivered items)" "current = so_hash ` set (delivered items)"
    "seen' = current" by blast
  then show ?thesis
    by (intro exI [of _ items]) (simp add: fresh_orders_hashes fresh_orders_distinct)
qed

theorem poll_cache_discovers_witness:
  "\<exists>new_orders current seen' w'.
     poll_cache (demo_env\<lparr>q_stream_orders := \<lambda>w. ([Inr (demo_order 5 2000), Inr (demo_order 6 2000)], w)\<rparr>)
       {6} [] = (Inr (new_orders, current), seen', w') \<and> so_hash ` set new_orders = {5, 6} - {6}"
proof -
  let ?env = "demo_env\<lparr>q_stream_orders := \<lambda>w. ([Inr (demo_order 5 2000), Inr (demo_order 6 2000)], w)\<rparr>"
  obtain new_orders current seen' w' where
    p: "poll_cache ?env {6} [] = (Inr (new_orders, current), seen', w')" and "current = {5, 6}"
    by (auto simp: poll_cache_def Let_def demo_order_def)
  with poll_cache_discovers [OF p] show ?thesis by auto
qed

text \<open>
  C40: a poll that fails half-way loses the orders before the failure. When the stream of one
  poll breaks off with an error, every order it had already delivered counts as seen, though
  none was returned; as long as such an order stays in the cache, no later successful poll
  returns it.
\<close>

theorem interrupted_poll_loses_orders:
  assumes "q_stream_orders env w = (map Inr orders @ Inl e # rest, w1)"
    and "order \<in> set orders"
    and "poll_cache env seen w = (r, seen1, w2)"
    and "poll_cache env seen1 w3 = (Inr (new_orders, current), seen2, w4)"
  shows "r = Inl e \<and> so_hash order \<notin> so_hash ` set new_orders \<and>
    (so_hash order \<in> current \<longrightarrow> so_hash order \<in> seen2)"
proof -
  have d: "delivered (map Inr os @ Inl e # rest) = os" for os
    by (induction os) auto
  obtain x s1 c1 where c: "collect_new (map Inr orders @ Inl e # rest) seen {} [] = (x, s1, c1)"
    by (rule prod_cases3)
  have "\<exists>e'. x = Inl e'"
    using collect_new_Inr [of _ seen "{}" "[]" _ s1 c1] c by (cases x) fastforce+
  moreover have "fst (collect_new (map Inr os @ Inl e # rest) sn cu ac) = Inl e" for os sn cu ac
    by (induction os arbitrary: sn cu ac) (auto simp: Let_def)
  then have "x = Inl e" using c by (metis fst_conv)
  ultimately have r: "r = Inl e" and "seen1 = s1"
    using assms(1,3) c by (auto simp: poll_cache_def)
  with collect_new_sets [OF c] d have "so_hash order \<in> seen1" using assms(2) by auto
  with poll_cache_discovers [OF assms(4)] r show ?thesis by auto
qed

text \<open>A cache with one order, whose first listing breaks off after that order.\<close>

definition demo_flaky_env :: "int list env" where
  "demo_flaky_env = demo_env\<lparr>q_stream_orders := (\<lambda>w.
     if w = [] then ([Inr (demo_order 5 2000), Inl (Ext_Error ''timeout'' None)], [1])
     else ([Inr (demo_order 5 2000)], w))\<rparr>"

theorem interrupted_poll_loses_orders_witness:
  "\<exists>r seen1 w2 new_orders current seen2 w4.
     poll_cache demo_flaky_env {} [] = (r, seen1, w2) \<and>
     poll_cache demo_flaky_env seen1 w2 = (Inr (new_orders, current), seen2, w4) \<and>
     5 \<in> current \<and> 5 \<notin> so_hash ` set new_orders"
proof -
  let ?o = "demo_order 5 2000"
  have q: "q_stream_orders demo_flaky_env [] = (map Inr [?o] @ Inl (Ext_Error ''timeout'' None) # [], [1])"
    by (simp add: demo_flaky_env_def)
  have p1: "poll_cache demo_flaky_env {} [] = (Inl (Ext_Error ''timeout'' None), {5}, [1])"
    by (simp add: poll_cache_def demo_flaky_env_def Let_def demo_order_def)
  obtain new_orders current seen2 w4 where
    p2: "poll_cache demo_flaky_env {5} [1] = (Inr (new_orders, current), seen2, w4)" and "5 \<in> current"
    by (auto simp: poll_cache_def demo_flaky_env_def Let_def demo_order_def)
  moreover have "so_hash ?o = 5" by (simp add: demo_order_def)
  ultimately show ?thesis
    using interrupted_poll_loses_orders [OF q _ p1 p2, of ?o] p1 by auto
qed

end
