(* ===== verification/Config.thy ===== *)
theory Config
  imports Tasks "HOL-Library.Sublist"
begin

text \<open>
  The configuration of the server (\<open>config.rs\<close>): the builder and the port, the connection
  loops with their choice of transient errors and their backoff, the help text and the display of
  a provider's URL. Connecting itself belongs to other crates: each attempt's outcome is an input.
\<close>

section \<open>Configuration values\<close>

text \<open>\<open>BuiltInConnectionString\<close>: the transport of a provider.\<close>

datatype connection_string = Http string | Ws string | Ipc string | Other_Transport

record ('t, 'm) config =
  cf_host_rpc :: connection_string
  cf_ru_rpc :: connection_string
  cf_tx_pool_url :: string
  cf_port :: "u16 option"
  cf_constants :: system_constants
  cf_tracing :: 't
  cf_metrics :: 'm

record ('t, 'm) config_builder =
  cb_host_rpc :: connection_string
  cb_ru_rpc :: connection_string
  cb_tx_pool_url :: string
  cb_port :: "u16 option"
  cb_constants :: system_constants
  cb_tracing :: 't
  cb_metrics :: 'm

definition default_port :: u16 where
  "default_port = 8019"

definition config_builder_new ::
  "'t \<Rightarrow> 'm \<Rightarrow> connection_string \<Rightarrow> connection_string \<Rightarrow> string \<Rightarrow> system_constants \<Rightarrow> ('t, 'm) config_builder" where
  "config_builder_new default_tracing default_metrics host_rpc ru_rpc tx_pool_url constants =
     \<lparr>cb_host_rpc = host_rpc, cb_ru_rpc = ru_rpc, cb_tx_pool_url = tx_pool_url, cb_port = None,
      cb_constants = constants, cb_tracing = default_tracing, cb_metrics = default_metrics\<rparr>"

definition with_port :: "u16 \<Rightarrow> ('t, 'm) config_builder \<Rightarrow> ('t, 'm) config_builder" where
  "with_port port b = b\<lparr>cb_port := Some port\<rparr>"

definition with_tracing :: "'t \<Rightarrow> ('t, 'm) config_builder \<Rightarrow> ('t, 'm) config_builder" where
  "with_tracing tracing b = b\<lparr>cb_tracing := tracing\<rparr>"

definition with_metrics :: "'m \<Rightarrow> ('t, 'm) config_builder \<Rightarrow> ('t, 'm) config_builder" where
  "with_metrics metrics b = b\<lparr>cb_metrics := metrics\<rparr>"

definition build :: "('t, 'm) config_builder \<Rightarrow> ('t, 'm) config" where
  "build b = \<lparr>cf_host_rpc = cb_host_rpc b, cf_ru_rpc = cb_ru_rpc b, cf_tx_pool_url = cb_tx_pool_url b,
     cf_port = cb_port b, cf_constants = cb_constants b, cf_tracing = cb_tracing b, cf_metrics = cb_metrics b\<rparr>"

definition config_port :: "('t, 'm) config \<Rightarrow> u16" where
  "config_port c = (case cf_port c of Some port \<Rightarrow> port | None \<Rightarrow> default_port)"

text \<open>\<open>Init4Config\<close> and \<open>Config::constants\<close>.\<close>

definition config_tracing :: "('t, 'm) config \<Rightarrow> 't" where
  "config_tracing c = cf_tracing c"

definition config_metrics :: "('t, 'm) config \<Rightarrow> 'm" where
  "config_metrics c = cf_metrics c"

definition config_constants :: "('t, 'm) config \<Rightarrow> system_constants" where
  "config_constants c = cf_constants c"

text \<open>\<open>DisplayUrl\<close>.\<close>

datatype display_url = DU_Url string | DU_Ipc string | DU_Unknown

definition display_url_from :: "connection_string \<Rightarrow> display_url" where
  "display_url_from c = (case c of Http url \<Rightarrow> DU_Url url | Ws url \<Rightarrow> DU_Url url | Ipc path \<Rightarrow> DU_Ipc path
     | Other_Transport \<Rightarrow> DU_Unknown)"

definition display_url_fmt :: "display_url \<Rightarrow> string" where
  "display_url_fmt d = (case d of DU_Url url \<Rightarrow> url | DU_Ipc path \<Rightarrow> path | DU_Unknown \<Rightarrow> ''unknown'')"

section \<open>The help text\<close>

record env_item =
  ei_var :: string
  ei_description :: string
  ei_optional :: bool

text \<open>
  The variables that the attributes of \<open>Config\<close> name. The whole inventory, with those of the
  nested configurations, is generated by the \<open>FromEnv\<close> derive and is a parameter.
\<close>

definition config_items :: "env_item list" where
  "config_items =
     [\<lparr>ei_var = ''HOST_RPC_URL'', ei_description = ''URL for Host RPC node'', ei_optional = False\<rparr>,
      \<lparr>ei_var = ''ROLLUP_RPC_URL'', ei_description = ''URL for Rollup RPC node'', ei_optional = False\<rparr>,
      \<lparr>ei_var = ''TX_POOL_URL'', ei_description = ''URL of the tx pool to poll for orders'', ei_optional = False\<rparr>,
      \<lparr>ei_var = ''TRACKER_PORT'', ei_description = ''Port for the tracker HTTP server [default: 8019]'', ei_optional = True\<rparr>]"

text \<open>\<open>{:width$}\<close> pads on the right.\<close>

definition pad_right :: "nat \<Rightarrow> string \<Rightarrow> string" where
  "pad_right width s = s @ replicate (width - length s) CHR '' ''"

definition max_width :: "env_item list \<Rightarrow> nat" where
  "max_width inventory = fold (\<lambda>item w. max (length (ei_var item)) w) inventory 0"

definition env_line :: "nat \<Rightarrow> env_item \<Rightarrow> string" where
  "env_line width item = ''  '' @ pad_right width (ei_var item) @ ''  '' @ ei_description item @
     (if ei_optional item then '' [optional]'' else [])"

fun join :: "string \<Rightarrow> string list \<Rightarrow> string" where
  "join sep [] = []"
| "join sep [s] = s"
| "join sep (s # ss) = s @ sep @ join sep ss"

definition env_var_info :: "env_item list \<Rightarrow> string" where
  "env_var_info inventory = join [CHR 0x0A] (map (env_line (max_width inventory)) inventory)"

section \<open>Transient errors\<close>

text \<open>The errors of the two clients, as far as the predicates read them.\<close>

datatype rpc_error =
    RE_ErrorResp bool
  | RE_NullResp
  | RE_UnsupportedFeature
  | RE_LocalUsageError
  | RE_SerError
  | RE_DeserError
  | RE_Transport bool

fun is_transient_transport_error :: "rpc_error \<Rightarrow> bool" where
  "is_transient_transport_error (RE_ErrorResp is_retry_err) = is_retry_err"
| "is_transient_transport_error RE_NullResp = False"
| "is_transient_transport_error RE_UnsupportedFeature = False"
| "is_transient_transport_error RE_LocalUsageError = False"
| "is_transient_transport_error RE_SerError = False"
| "is_transient_transport_error RE_DeserError = False"
| "is_transient_transport_error (RE_Transport is_retry_err) = is_retry_err"

record reqwest_error =
  rw_is_timeout :: bool
  rw_is_connect :: bool
  rw_is_request :: bool
  rw_status :: "nat option"

definition is_transient_reqwest_error :: "reqwest_error \<Rightarrow> bool" where
  "is_transient_reqwest_error e =
     (if rw_is_timeout e \<or> rw_is_connect e \<or> rw_is_request e then True
      else case rw_status e of
        Some status \<Rightarrow> (500 \<le> status \<and> status < 600) \<or> status = 429
      | None \<Rightarrow> False)"

section \<open>Connecting\<close>

text \<open>
  \<open>backoff()\<close>: the settings of \<open>backon\<close>'s exponential builder (the factor as a fraction, delays
  in nanoseconds), from whatever its defaults are.
\<close>

record exponential_builder =
  eb_factor :: "nat \<times> nat"
  eb_min_delay :: nat
  eb_max_delay :: "nat option"
  eb_max_times :: "nat option"

definition backoff :: "exponential_builder \<Rightarrow> exponential_builder" where
  "backoff new = new\<lparr>eb_factor := (3, 2), eb_min_delay := 100 * 10 ^ 6, eb_max_delay := Some (10 * 10 ^ 9),
     eb_max_times := None\<rparr>"

text \<open>
  \<open>retry(..).when(..)\<close>: the outcomes of the attempts so far give the result, or \<^term>\<open>None\<close>
  while it keeps retrying, which it does as often as the builder's limit allows.
\<close>

fun retry_when :: "nat option \<Rightarrow> ('e \<Rightarrow> bool) \<Rightarrow> ('e + 'a) list \<Rightarrow> ('e + 'a) option" where
  "retry_when retries transient [] = None"
| "retry_when retries transient (Inr v # outcomes) = Some (Inr v)"
| "retry_when retries transient (Inl e # outcomes) =
     (if transient e \<and> retries \<noteq> Some 0
      then retry_when (map_option (\<lambda>n. n - 1) retries) transient outcomes
      else Some (Inl e))"

text \<open>An attempt at a provider connects and then asks for the chain id.\<close>

definition provider_attempt :: "(rpc_error + 'p) \<times> (rpc_error + u64) \<Rightarrow> rpc_error + 'p" where
  "provider_attempt attempt =
     (case fst attempt of
        Inl e \<Rightarrow> Inl e
      | Inr provider \<Rightarrow> (case snd attempt of Inl e \<Rightarrow> Inl e | Inr _ \<Rightarrow> Inr provider))"

definition connect_provider ::
  "exponential_builder \<Rightarrow> (rpc_error \<Rightarrow> report) \<Rightarrow> string \<Rightarrow> ((rpc_error + 'p) \<times> (rpc_error + u64)) list \<Rightarrow> (report + 'p) option" where
  "connect_provider new describe name attempts =
     map_option (\<lambda>r. wrap_err (''failed to connect to '' @ name @ '' provider'') (map_sum describe id r))
       (retry_when (eb_max_times (backoff new)) is_transient_transport_error (map provider_attempt attempts))"

definition connect_ru_provider ::
  "exponential_builder \<Rightarrow> (rpc_error \<Rightarrow> report) \<Rightarrow> ((rpc_error + 'p) \<times> (rpc_error + u64)) list \<Rightarrow> (report + 'p) option" where
  "connect_ru_provider new describe attempts = connect_provider new describe ''rollup'' attempts"

definition connect_host_provider ::
  "exponential_builder \<Rightarrow> (rpc_error \<Rightarrow> report) \<Rightarrow> ((rpc_error + 'p) \<times> (rpc_error + u64)) list \<Rightarrow> (report + 'p) option" where
  "connect_host_provider new describe attempts = connect_provider new describe ''host'' attempts"

text \<open>\<open>connect_tx_cache\<close>: joining the orders path to the URL, then the same loop.\<close>

definition connect_tx_cache ::
  "exponential_builder \<Rightarrow> (reqwest_error \<Rightarrow> report) \<Rightarrow> report + 'c \<Rightarrow> (reqwest_error + unit) list \<Rightarrow> (report + 'c) option" where
  "connect_tx_cache new describe joined attempts =
     (case wrap_err ''failed to construct transaction cache orders URL'' joined of
        Inl e \<Rightarrow> Some (Inl e)
      | Inr tx_cache \<Rightarrow>
          map_option (\<lambda>r. wrap_err ''failed to connect to transaction cache''
              (map_sum describe (\<lambda>_. tx_cache) r))
            (retry_when (eb_max_times (backoff new)) is_transient_reqwest_error attempts))"

text \<open>
  \<open>try_join!\<close> of \<open>n\<close> connections, from their results in the order in which they complete: the
  first error, or success once all have succeeded.
\<close>

fun try_join :: "nat \<Rightarrow> (report + unit) list \<Rightarrow> (report + unit) option" where
  "try_join 0 results = Some (Inr ())"
| "try_join (Suc n) [] = None"
| "try_join (Suc n) (Inl e # results) = Some (Inl e)"
| "try_join (Suc n) (Inr () # results) = try_join n results"

text \<open>\<open>connect_tracker\<close>: both providers and the transaction cache.\<close>

definition connect_tracker :: "(unit \<Rightarrow> 't) \<Rightarrow> (report + unit) list \<Rightarrow> (report + 't) option" where
  "connect_tracker order_tracker_new results =
     map_option (map_sum id order_tracker_new) (try_join 3 results)"

section \<open>Lemmas\<close>

lemma try_join_Inl: "try_join n rs = Some (Inl e) \<Longrightarrow> Inl e \<in> set rs"
  by (induction n rs rule: try_join.induct) auto

lemma try_join_Inr: "try_join n rs = Some (Inr ()) \<Longrightarrow> n \<le> length rs \<and> (\<forall>r \<in> set (take n rs). r = Inr ())"
  by (induction n rs rule: try_join.induct) auto

definition decisive :: "('e \<Rightarrow> bool) \<Rightarrow> 'e + 'a \<Rightarrow> bool" where
  "decisive transient r = (case r of Inr _ \<Rightarrow> True | Inl e \<Rightarrow> \<not> transient e)"

lemma retry_when_find: "retry_when None transient outcomes = find (decisive transient) outcomes"
  by (induction "None :: nat option" transient outcomes rule: retry_when.induct) (auto simp: decisive_def)

lemma backoff_unlimited: "eb_max_times (backoff new) = None"
  by (simp add: backoff_def)

text \<open>
  The delays that \<open>backon\<close> documents for a builder: the first is the minimum, each further one
  the factor times the one before, up to the maximum. Those of \<open>backoff()\<close> grow from a tenth of
  a second to ten seconds, which they reach at the thirteenth, and stay there.
\<close>

definition next_delay :: "exponential_builder \<Rightarrow> nat \<Rightarrow> nat" where
  "next_delay b d = (let d' = fst (eb_factor b) * d div snd (eb_factor b)
     in case eb_max_delay b of None \<Rightarrow> d' | Some limit \<Rightarrow> min limit d')"

definition exponential_delays :: "exponential_builder \<Rightarrow> (nat \<Rightarrow> nat) \<Rightarrow> bool" where
  "exponential_delays b delay \<longleftrightarrow> delay 0 = eb_min_delay b \<and> (\<forall>n. delay (Suc n) = next_delay b (delay n))"

lemma backoff_next: "next_delay (backoff new) d = min (10 * 10 ^ 9) (3 * d div 2)"
  by (simp add: next_delay_def backoff_def)

lemma backoff_delays:
  assumes "exponential_delays (backoff new) delay"
  shows "100 * 10 ^ 6 \<le> delay n" "delay n \<le> delay (Suc n)" "delay n \<le> 10 * 10 ^ 9" "delay (n + 12) = 10 * 10 ^ 9"
proof -
  have d0: "delay 0 = 100 * 10 ^ 6" and step: "delay (Suc n) = min (10 * 10 ^ 9) (3 * delay n div 2)" for n
    using assms unfolding exponential_delays_def backoff_next by (simp_all add: backoff_def)
  show limit: "delay n \<le> 10 * 10 ^ 9" for n using d0 step by (cases n) simp_all
  show "delay n \<le> delay (Suc n)" for n using limit [of n] step [of n] by simp
  then have mono: "m \<le> n \<Longrightarrow> delay m \<le> delay n" for m n by (rule lift_Suc_mono_le)
  then show "100 * 10 ^ 6 \<le> delay n" using d0 by (metis le0)
  have "delay 12 = 10 * 10 ^ 9"
    using step [of 0] step [of 1] step [of 2] step [of 3] step [of 4] step [of 5] step [of 6] step [of 7]
      step [of 8] step [of 9] step [of 10] step [of 11]
    by (simp add: d0 del: One_nat_def flip: One_nat_def)
  then show "delay (n + 12) = 10 * 10 ^ 9" using mono [of 12 "n + 12"] limit [of "n + 12"] by simp
qed

lemma max_width_fold:
  "fold (\<lambda>item w. max (length (ei_var item)) w) items w = Max (insert w ((\<lambda>i. length (ei_var i)) ` set items))"
proof (induction items arbitrary: w)
  case (Cons item items)
  have "fold (\<lambda>item w. max (length (ei_var item)) w) (item # items) w =
      Max (insert (max (length (ei_var item)) w) ((\<lambda>i. length (ei_var i)) ` set items))"
    using Cons [of "max (length (ei_var item)) w"] by simp
  also have "\<dots> = Max (insert w ((\<lambda>i. length (ei_var i)) ` set (item # items)))"
    by (cases "items = []") (auto simp: max.left_commute max.assoc)
  finally show ?case .
qed simp

lemma max_width_ge: "item \<in> set items \<Longrightarrow> length (ei_var item) \<le> max_width items"
  by (simp add: max_width_def max_width_fold)

lemma length_pad_right: "length s \<le> n \<Longrightarrow> length (pad_right n s) = n"
  by (simp add: pad_right_def)

text \<open>In the help text every description starts in the same column.\<close>

lemma env_line_column:
  "item \<in> set items \<Longrightarrow> drop (max_width items + 4) (env_line (max_width items) item) =
     ei_description item @ (if ei_optional item then '' [optional]'' else [])"
proof -
  let ?w = "max_width items"
  let ?head = "''  '' @ pad_right ?w (ei_var item) @ ''  ''"
  assume "item \<in> set items"
  then have "length (pad_right ?w (ei_var item)) = ?w" by (intro length_pad_right max_width_ge)
  then have "length ?head = ?w + 4" by simp
  moreover have "env_line ?w item = ?head @ ei_description item @ (if ei_optional item then '' [optional]'' else [])"
    by (simp add: env_line_def)
  ultimately show ?thesis by (metis append_eq_conv_conj)
qed

text \<open>The help text has a line for every variable, those of \<open>Config\<close> with their descriptions.\<close>

lemma sublist_join: "s \<in> set ss \<Longrightarrow> sublist s (join sep ss)"
proof (induction sep ss rule: join.induct)
  case (3 sep s1 s2 ss)
  then show ?case
    by (auto intro: sublist_appendI sublist_order.order.trans [OF _ sublist_append_leftI])
qed simp_all

lemma help_lists_item: "item \<in> set inventory \<Longrightarrow> sublist (env_line (max_width inventory) item) (env_var_info inventory)"
  by (simp add: env_var_info_def sublist_join)

lemma help_lists_config:
  assumes "set config_items \<subseteq> set inventory"
  shows "sublist (''  '' @ pad_right (max_width inventory) ''TRACKER_PORT'' @
     ''  Port for the tracker HTTP server [default: 8019] [optional]'') (env_var_info inventory)"
proof -
  let ?item = "\<lparr>ei_var = ''TRACKER_PORT'', ei_description = ''Port for the tracker HTTP server [default: 8019]'', ei_optional = True\<rparr>"
  have "?item \<in> set inventory" using assms by (simp add: config_items_def)
  from help_lists_item [OF this] show ?thesis by (simp add: env_line_def)
qed

lemma build_keeps:
  "config_tracing (build (with_tracing t b)) = t" "config_metrics (build (with_metrics m b)) = m"
  "config_constants (build (config_builder_new t' m' h r u c)) = c"
  by (simp_all add: config_tracing_def config_metrics_def config_constants_def build_def with_tracing_def
      with_metrics_def config_builder_new_def)

lemma config_port_build:
  "config_port (build (with_port p b)) = p"
  "config_port (build (config_builder_new t m h r u c)) = 8019"
  by (simp_all add: config_port_def build_def with_port_def config_builder_new_def default_port_def)

lemma wrap_err_Inr: "wrap_err msg (Inr v) = Inr v"
  by (simp add: wrap_err_def)

lemma wrapped_outcome:
  "map_option (\<lambda>r. wrap_err msg (map_sum f g r)) found =
     (case found of None \<Rightarrow> None | Some (Inr v) \<Rightarrow> Some (Inr (g v)) | Some (Inl e) \<Rightarrow> Some (Inl (msg # f e)))"
  by (auto simp: wrap_err_def split: option.split sum.split)

section \<open>Properties\<close>

text \<open>
  C37: connecting retries exactly the transient failures. The connection to a provider is
  decided by the first attempt that succeeds (connected and answered its chain id) or fails
  with an error that is not transient; until there is one it keeps trying; and the connection to
  the transaction cache is decided in the same way, where timeouts, connection and request
  errors, answers of the server-error class and 429 are transient.
\<close>

theorem connect_retries_transient:
  "connect_provider new describe name attempts =
     (case find (\<lambda>r. case r of Inr _ \<Rightarrow> True | Inl e \<Rightarrow> e \<notin> {RE_ErrorResp True, RE_Transport True})
         (map (\<lambda>(c, i). case c of Inl e \<Rightarrow> Inl e | Inr p \<Rightarrow> (case i of Inl e \<Rightarrow> Inl e | Inr _ \<Rightarrow> Inr p)) attempts) of
        None \<Rightarrow> None
      | Some (Inr provider) \<Rightarrow> Some (Inr provider)
      | Some (Inl e) \<Rightarrow> Some (Inl ((''failed to connect to '' @ name @ '' provider'') # describe e))) \<and>
   connect_tx_cache new describe' (Inr tx_cache) outcomes =
     (case find (\<lambda>r. case r of Inr _ \<Rightarrow> True
         | Inl e \<Rightarrow> \<not> rw_is_timeout e \<and> \<not> rw_is_connect e \<and> \<not> rw_is_request e \<and>
             rw_status e \<notin> Some ` ({500..<600} \<union> {429})) outcomes of
        None \<Rightarrow> None
      | Some (Inr _) \<Rightarrow> Some (Inr tx_cache)
      | Some (Inl e) \<Rightarrow> Some (Inl (''failed to connect to transaction cache'' # describe' e)))"
proof -
  have t: "is_transient_transport_error e \<longleftrightarrow> e \<in> {RE_ErrorResp True, RE_Transport True}" for e
    by (cases e) auto
  have p: "decisive is_transient_transport_error =
      (\<lambda>r :: rpc_error + 'p. case r of Inr _ \<Rightarrow> True | Inl e \<Rightarrow> e \<notin> {RE_ErrorResp True, RE_Transport True})" for dummy :: 'p
    by (auto simp: fun_eq_iff decisive_def t split: sum.split)
  have a: "provider_attempt = (\<lambda>(c, i). case c of Inl e \<Rightarrow> Inl e | Inr p \<Rightarrow> (case i of Inl e \<Rightarrow> Inl e | Inr _ \<Rightarrow> Inr p))"
    by (auto simp: fun_eq_iff provider_attempt_def split: sum.split)
  have r: "decisive is_transient_reqwest_error =
      (\<lambda>r :: reqwest_error + unit. case r of Inr _ \<Rightarrow> True
         | Inl e \<Rightarrow> \<not> rw_is_timeout e \<and> \<not> rw_is_connect e \<and> \<not> rw_is_request e \<and>
             rw_status e \<notin> Some ` ({500..<600} \<union> {429}))"
    by (auto simp: fun_eq_iff decisive_def is_transient_reqwest_error_def split: sum.split option.split)
  show ?thesis
    unfolding connect_provider_def connect_tx_cache_def backoff_unlimited retry_when_find p a r
    by (simp only: wrapped_outcome wrap_err_Inr sum.case id_apply simp_thms)
qed

end
