(* ===== verification/Server.thy ===== *)
theory Server
  imports Broadcasts BlockWatcher OrderDiscovery Config
begin

text \<open>
  The whole server (\<open>run\<close> in \<open>lib.rs\<close>): the tasks, the channels between them and the token, as
  a step relation in which one task at a time takes one step, in any order. A step of a task is
  one iteration of its loop (of sending, for order discovery), with the definitions of the
  task's own theory. A bounded channel is the queue of what it holds: a full one blocks its
  sender, one whose receiver is gone makes sending fail, and one whose senders are gone ends its
  receiver once it is empty. The exit of a task takes several steps: it looks at the token, may
  cancel it, returns. When the server task's loop ends, and with which result, is up to the HTTP
  library, which lets open connections finish first (\<open>Http_End\<close>). Each task sees the world through
  its own queries.
\<close>

section \<open>State\<close>

definition event_capacity :: nat where "event_capacity = 1024"
definition order_capacity :: nat where "order_capacity = 256"
definition request_capacity :: nat where "request_capacity = 64"
definition retention_blocks :: u64 where "retention_blocks = 300"

text \<open>
  Beside the tasks and channels the state records, for the statements, the logs that were
  delivered, the orders that polls returned and the messages that the manager has taken.

  A handler of the manager is one step, but what it broadcasts goes out one status at a time, and
  other tasks can run between two of them. \<open>sv_before\<close> is how many statuses had been broadcast when
  the manager took its last message: until the next one, a task that looks at the broadcast channel
  may find any number between that and all of them.
\<close>

record 'w server =
  sv_cancelled :: bool
  sv_block_watcher :: "'w block_watcher"
  sv_block_task :: task
  sv_blocks_seen :: nat
  sv_event_task :: task
  sv_events :: "chain_event list"
  sv_discovery :: "'w discovery"
  sv_sending :: "signed_order list"
  sv_discovery_task :: task
  sv_orders :: "signed_order list"
  sv_http_task :: task
  sv_tracks :: "track_order_request list"
  sv_snapshots :: "nat list"
  sv_manager :: "'w state_manager"
  sv_manager_task :: task
  sv_logs :: "rpc_log list"
  sv_discovered :: "signed_order list"
  sv_taken :: "input list"
  sv_before :: nat

definition server_new :: "'w env \<Rightarrow> 'w \<Rightarrow> 'w \<Rightarrow> 'w \<Rightarrow> block_tip \<Rightarrow> 'w server" where
  "server_new env w_manager w_blocks w_discovery tip =
     \<lparr>sv_cancelled = False,
      sv_block_watcher = snd (block_watcher_spawn (block_watcher_of tip w_blocks)), sv_block_task = T_Running,
      sv_blocks_seen = fst (block_watcher_spawn (block_watcher_of tip w_blocks)), sv_event_task = T_Running, sv_events = [],
      sv_discovery = discovery_new w_discovery, sv_sending = [], sv_discovery_task = T_Running,
      sv_orders = [], sv_http_task = T_Running, sv_tracks = [], sv_snapshots = [],
      sv_manager = state_manager_new (tracker_new env w_manager) retention_blocks,
      sv_manager_task = T_Running, sv_logs = [], sv_discovered = [], sv_taken = [], sv_before = 0\<rparr>"

text \<open>
  \<open>run\<close>: the five connections are joined; when the token is cancelled before the join is over
  the result is \<open>Ok(None)\<close>. Then the block watcher reads the first tips, and the tasks are
  spawned.
\<close>

definition startup :: "'w env \<Rightarrow> (report + unit) list \<Rightarrow> 'w \<Rightarrow> 'w \<Rightarrow> 'w \<Rightarrow> report + 'w server option" where
  "startup env connections w_manager w_blocks w_discovery =
     (case try_join 5 connections of
        None \<Rightarrow> Inr None
      | Some (Inl e) \<Rightarrow> Inl e
      | Some (Inr _) \<Rightarrow>
          (case block_watcher_new env w_blocks of
             (r, w) \<Rightarrow> (case wrap_err ''failed to start block watcher'' r of
                Inl e \<Rightarrow> Inl e
              | Inr tip \<Rightarrow> Inr (Some (server_new env w_manager w w_discovery tip)))))"

section \<open>Steps\<close>

text \<open>A task whose loop has ended leaves with the result; its exit is then taken step by step.\<close>

definition task_over :: "task \<Rightarrow> bool" where
  "task_over t \<longleftrightarrow> (case t of T_Exited _ \<Rightarrow> True | T_Panicked \<Rightarrow> True | _ \<Rightarrow> False)"

definition end_block_task :: "report + unit \<Rightarrow> 'w server \<Rightarrow> 'w server" where
  "end_block_task r sv = sv\<lparr>sv_block_task := T_Leaving r\<rparr>"

definition end_event_task :: "report + unit \<Rightarrow> 'w server \<Rightarrow> 'w server" where
  "end_event_task r sv = sv\<lparr>sv_event_task := T_Leaving r\<rparr>"

definition end_discovery_task :: "report + unit \<Rightarrow> 'w server \<Rightarrow> 'w server" where
  "end_discovery_task r sv = sv\<lparr>sv_discovery_task := T_Leaving r\<rparr>"

definition end_http_task :: "report + unit \<Rightarrow> 'w server \<Rightarrow> 'w server" where
  "end_http_task r sv = sv\<lparr>sv_http_task := T_Leaving r\<rparr>"

definition end_manager_task :: "report + unit \<Rightarrow> 'w server \<Rightarrow> 'w server" where
  "end_manager_task r sv = sv\<lparr>sv_manager_task := T_Leaving r\<rparr>"

text \<open>
  What the manager's \<open>select!\<close> finds. The request channels have no sender left at the earliest
  when the HTTP task is over; the token is cancelled then, and is looked at first.
\<close>

fun receive :: "'a list \<Rightarrow> bool \<Rightarrow> 'a option option" where
  "receive [] senders_gone = (if senders_gone then Some None else None)"
| "receive (x # xs) senders_gone = Some (Some x)"

definition manager_readiness :: "'w server \<Rightarrow> readiness" where
  "manager_readiness sv =
     \<lparr>rd_all_order_hashes = od_all_hashes (sv_discovery sv),
      rd_cancelled = sv_cancelled sv,
      rd_blocks = (case block_numbers_changed (sv_blocks_seen sv) (sv_block_watcher sv) of
          Some (tip, _) \<Rightarrow> Some (Some tip)
        | None \<Rightarrow> if task_over (sv_block_task sv) then Some None else None),
      rd_event = receive (sv_events sv) (task_over (sv_event_task sv)),
      rd_order = receive (sv_orders sv) (task_over (sv_discovery_task sv)),
      rd_track = receive (sv_tracks sv) (task_over (sv_http_task sv)),
      rd_snapshot = receive (sv_snapshots sv) (task_over (sv_http_task sv))\<rparr>"

text \<open>Taking a message out of its channel.\<close>

fun take_message :: "input \<Rightarrow> 'w server \<Rightarrow> 'w server" where
  "take_message (In_Blocks _) sv = sv\<lparr>sv_blocks_seen := length (bw_published (sv_block_watcher sv))\<rparr>"
| "take_message (In_Event _) sv = sv\<lparr>sv_events := tl (sv_events sv)\<rparr>"
| "take_message (In_Order _) sv = sv\<lparr>sv_orders := tl (sv_orders sv)\<rparr>"
| "take_message (In_Track _) sv = sv\<lparr>sv_tracks := tl (sv_tracks sv)\<rparr>"
| "take_message (In_Snapshot _) sv = sv\<lparr>sv_snapshots := tl (sv_snapshots sv)\<rparr>"
| "take_message _ sv = sv"

definition block_input_possible :: "bool \<Rightarrow> block_input \<Rightarrow> bool" where
  "block_input_possible cancelled i \<longleftrightarrow> (i = Block_Cancelled \<longleftrightarrow> cancelled)"

fun poll_saw_cancel :: "block_input \<Rightarrow> bool" where
  "poll_saw_cancel (Block_Header _ polls) = (Poll_Cancelled \<in> set polls)"
| "poll_saw_cancel _ = False"

fun poll_finished :: "'w env \<Rightarrow> block_input \<Rightarrow> 'w block_watcher \<Rightarrow> bool" where
  "poll_finished env (Block_Header _ polls) bw = (poll_host_tip env (bt_host (bw_tip bw)) polls (bw_world bw) \<noteq> None)"
| "poll_finished env _ bw = True"

inductive server_step :: "'w env \<Rightarrow> 'w server \<Rightarrow> 'w server \<Rightarrow> bool" for env where
  Signal: "server_step env sv (sv\<lparr>sv_cancelled := True\<rparr>)"
| Block: "sv_block_task sv = T_Running \<Longrightarrow> block_input_possible (sv_cancelled sv) i \<Longrightarrow>
    poll_finished env i (sv_block_watcher sv) \<Longrightarrow>
    watch_blocks_loop env [i] (sv_block_watcher sv) = (exit, bw) \<Longrightarrow>
    sv1 = sv\<lparr>sv_block_watcher := bw, sv_cancelled := sv_cancelled sv \<or> poll_saw_cancel i\<rparr> \<Longrightarrow>
    server_step env sv (case exit of None \<Rightarrow> sv1 | Some r \<Rightarrow> end_block_task r sv1)"
| Block_Unsubscribed: "sv_block_task sv = T_Running \<Longrightarrow> bw_published (sv_block_watcher sv) = [] \<Longrightarrow>
    server_step env sv (end_block_task (Inl (''failed to subscribe to rollup blocks'' # report_of e)) sv)"
| Log_Unsubscribed: "sv_event_task sv = T_Running \<Longrightarrow> sv_logs sv = [] \<Longrightarrow>
    server_step env sv (end_event_task (Inl (''failed to subscribe to rollup log events'' # report_of e)) sv)"
| Log_Ignored: "sv_event_task sv = T_Running \<Longrightarrow> \<not> sv_cancelled sv \<Longrightarrow> decode_log env log = Some None \<Longrightarrow>
    server_step env sv (sv\<lparr>sv_logs := sv_logs sv @ [log]\<rparr>)"
| Log_Sent: "sv_event_task sv = T_Running \<Longrightarrow> \<not> sv_cancelled sv \<Longrightarrow> decode_log env log = Some (Some event) \<Longrightarrow>
    \<not> task_over (sv_manager_task sv) \<Longrightarrow> length (sv_events sv) < event_capacity \<Longrightarrow>
    server_step env sv (sv\<lparr>sv_logs := sv_logs sv @ [log], sv_events := sv_events sv @ [event]\<rparr>)"
| Log_Refused: "sv_event_task sv = T_Running \<Longrightarrow> \<not> sv_cancelled sv \<Longrightarrow> decode_log env log = Some (Some event) \<Longrightarrow>
    task_over (sv_manager_task sv) \<Longrightarrow>
    server_step env sv (end_event_task (Inl [''rollup event channel closed'']) (sv\<lparr>sv_logs := sv_logs sv @ [log]\<rparr>))"
| Log_Panic: "sv_event_task sv = T_Running \<Longrightarrow> \<not> sv_cancelled sv \<Longrightarrow> decode_log env log = None \<Longrightarrow>
    server_step env sv (sv\<lparr>sv_logs := sv_logs sv @ [log], sv_event_task := T_Panicked\<rparr>)"
| Log_End: "sv_event_task sv = T_Running \<Longrightarrow> \<not> sv_cancelled sv \<Longrightarrow>
    server_step env sv (end_event_task (Inl [''rollup log subscription closed'']) sv)"
| Log_Cancel: "sv_event_task sv = T_Running \<Longrightarrow> sv_cancelled sv \<Longrightarrow>
    server_step env sv (end_event_task (Inr ()) sv)"
| Poll: "sv_discovery_task sv = T_Running \<Longrightarrow> \<not> sv_cancelled sv \<Longrightarrow> sv_sending sv = [] \<Longrightarrow>
    poll_cache env (od_seen (sv_discovery sv)) (od_world (sv_discovery sv)) =
      (Inr (new_orders, current_hashes), seen', w') \<Longrightarrow>
    server_step env sv (sv\<lparr>sv_discovery := (sv_discovery sv)\<lparr>od_seen := seen', od_all_hashes := current_hashes,
        od_metrics := discovered_metric new_orders (od_metrics (sv_discovery sv)), od_world := w'\<rparr>,
      sv_sending := new_orders, sv_discovered := sv_discovered sv @ new_orders\<rparr>)"
| Poll_Failed: "sv_discovery_task sv = T_Running \<Longrightarrow> \<not> sv_cancelled sv \<Longrightarrow> sv_sending sv = [] \<Longrightarrow>
    poll_cache env (od_seen (sv_discovery sv)) (od_world (sv_discovery sv)) = (Inl e, seen', w') \<Longrightarrow>
    server_step env sv (sv\<lparr>sv_discovery := (sv_discovery sv)\<lparr>od_seen := seen', od_world := w'\<rparr>\<rparr>)"
| Order_Sent: "sv_discovery_task sv = T_Running \<Longrightarrow> sv_sending sv = order # orders \<Longrightarrow>
    \<not> task_over (sv_manager_task sv) \<Longrightarrow> length (sv_orders sv) < order_capacity \<Longrightarrow>
    server_step env sv (sv\<lparr>sv_sending := orders, sv_orders := sv_orders sv @ [order],
      sv_discovery := (sv_discovery sv)\<lparr>od_sent := od_sent (sv_discovery sv) @ [order]\<rparr>\<rparr>)"
| Order_Refused: "sv_discovery_task sv = T_Running \<Longrightarrow> sv_sending sv = order # orders \<Longrightarrow>
    task_over (sv_manager_task sv) \<Longrightarrow>
    server_step env sv (end_discovery_task (Inl [''order channel closed'']) sv)"
| Discovery_Cancel: "sv_discovery_task sv = T_Running \<Longrightarrow> sv_cancelled sv \<Longrightarrow> sv_sending sv = [] \<Longrightarrow>
    server_step env sv (end_discovery_task (Inr ()) sv)"
| Track: "\<not> task_over (sv_manager_task sv) \<Longrightarrow>
    length (sv_tracks sv) < request_capacity \<Longrightarrow>
    server_step env sv (sv\<lparr>sv_tracks := sv_tracks sv @ [request]\<rparr>)"
| Snapshot: "\<not> task_over (sv_manager_task sv) \<Longrightarrow>
    length (sv_snapshots sv) < request_capacity \<Longrightarrow>
    server_step env sv (sv\<lparr>sv_snapshots := sv_snapshots sv @ [n]\<rparr>)"
| Http_End: "sv_http_task sv = T_Running \<Longrightarrow> server_step env sv (end_http_task r sv)"
| Manager: "sv_manager_task sv = T_Running \<Longrightarrow> select_input (manager_readiness sv) = Some i \<Longrightarrow>
    run_inner env [manager_readiness sv] (sv_manager sv) = (exit, m) \<Longrightarrow>
    sv1 = (take_message i sv)\<lparr>sv_manager := m, sv_taken := sv_taken sv @ [i],
      sv_before := length (sm_updates (sv_manager sv))\<rparr> \<Longrightarrow>
    server_step env sv (case exit of
      Running \<Rightarrow> sv1
    | Exited r \<Rightarrow> end_manager_task r sv1
    | Crashed \<Rightarrow> sv1\<lparr>sv_manager_task := T_Panicked\<rparr>)"
| Block_Exit: "exit_step ''block_watcher'' (sv_block_task sv) (sv_cancelled sv) = Some (t, token) \<Longrightarrow>
    server_step env sv (sv\<lparr>sv_block_task := t, sv_cancelled := token\<rparr>)"
| Event_Exit: "exit_step ''rollup_event_watcher'' (sv_event_task sv) (sv_cancelled sv) = Some (t, token) \<Longrightarrow>
    server_step env sv (sv\<lparr>sv_event_task := t, sv_cancelled := token\<rparr>)"
| Discovery_Exit: "exit_step ''order_discovery'' (sv_discovery_task sv) (sv_cancelled sv) = Some (t, token) \<Longrightarrow>
    server_step env sv (sv\<lparr>sv_discovery_task := t, sv_cancelled := token\<rparr>)"
| Http_Exit: "exit_step ''server'' (sv_http_task sv) (sv_cancelled sv) = Some (t, token) \<Longrightarrow>
    server_step env sv (sv\<lparr>sv_http_task := t, sv_cancelled := token\<rparr>)"
| Manager_Exit: "exit_step ''state_manager'' (sv_manager_task sv) (sv_cancelled sv) = Some (t, token) \<Longrightarrow>
    server_step env sv (sv\<lparr>sv_manager_task := t, sv_cancelled := token\<rparr>)"

text \<open>The states that a started server can reach.\<close>

inductive reachable :: "'w env \<Rightarrow> 'w server \<Rightarrow> bool" for env where
  start: "startup env connections w_manager w_blocks w_discovery = Inr (Some sv) \<Longrightarrow> reachable env sv"
| step: "reachable env sv \<Longrightarrow> server_step env sv sv' \<Longrightarrow> reachable env sv'"

end
