(* ===== verification/ServerProps.thy ===== *)
theory ServerProps
  imports Server
begin

text \<open>
  What holds of the whole server in every state that it can reach, whatever the order in which
  its tasks take their steps: delivery through the channels, the state of the manager, failures
  and shutdown. Every invariant is an instance of one interface, \<open>server_invariant\<close>.
\<close>

inductive_cases server_stepE: "server_step env sv sv'"

section \<open>Lemmas\<close>

named_theorems task_ends \<open>how the end of a task changes the server\<close>

lemmas end_task_eqs [task_ends] = end_block_task_def end_event_task_def end_discovery_task_def
  end_http_task_def end_manager_task_def

lemma task_over_simps [simp]:
  "\<not> task_over T_Running" "\<not> task_over (T_Leaving r)" "\<not> task_over (T_Failing r)" "\<not> task_over (T_Returning r)"
  "task_over (T_Exited r)" "task_over T_Panicked"
  by (simp_all add: task_over_def)

text \<open>What an operation of an exit can be, and what it leaves alone.\<close>

lemma exit_step_Some:
  "exit_step n t c = Some (t', c') \<longleftrightarrow>
     (\<exists>r. t = T_Leaving r \<and> t' = exit_check r c \<and> c' = c) \<or>
     (\<exists>r. t = T_Failing r \<and> t' = T_Returning (exit_failure n r) \<and> c') \<or>
     (\<exists>r. t = T_Returning r \<and> t' = T_Exited r \<and> c' = c)"
  by (cases t) auto

lemma exit_step_parts:
  "exit_step n t c = Some (t', c') \<Longrightarrow> t \<noteq> T_Running \<and> t' \<noteq> T_Running \<and> t \<noteq> T_Panicked \<and> t' \<noteq> T_Panicked \<and>
     \<not> task_over t \<and> t' \<noteq> t \<and> (c \<longrightarrow> c')"
  by (auto simp: exit_step_Some exit_check_def split: if_splits)

lemma exit_step_moves: "\<not> task_over t \<Longrightarrow> t \<noteq> T_Running \<Longrightarrow> \<exists>t' c'. exit_step n t c = Some (t', c')"
  by (cases t) auto

text \<open>The messages of the manager's inputs, channel by channel.\<close>

fun events_in :: "input list \<Rightarrow> chain_event list" where
  "events_in [] = []"
| "events_in (In_Event event # is) = event # events_in is"
| "events_in (_ # is) = events_in is"

fun orders_in :: "input list \<Rightarrow> signed_order list" where
  "orders_in [] = []"
| "orders_in (In_Order order # is) = order # orders_in is"
| "orders_in (_ # is) = orders_in is"

lemma events_in_append [simp]: "events_in (is @ js) = events_in is @ events_in js"
  by (induction "is" rule: events_in.induct) auto

lemma orders_in_append [simp]: "orders_in (is @ js) = orders_in is @ orders_in js"
  by (induction "is" rule: orders_in.induct) auto

lemma receive_eqs:
  "receive q g = None \<longleftrightarrow> q = [] \<and> \<not> g" "receive q g = Some None \<longleftrightarrow> q = [] \<and> g"
  "receive q g = Some (Some x) \<longleftrightarrow> (\<exists>r. q = x # r)"
  by (cases q; auto)+

text \<open>What the manager selects is the first message of its channel, and it is taken out.\<close>

lemma select_takes:
  assumes "select_input (manager_readiness sv) = Some i"
  shows "sv_events sv = events_in [i] @ sv_events (take_message i sv) \<and>
    sv_orders sv = orders_in [i] @ sv_orders (take_message i sv) \<and>
    length (sv_tracks (take_message i sv)) \<le> length (sv_tracks sv) \<and>
    length (sv_snapshots (take_message i sv)) \<le> length (sv_snapshots sv)"
  using assms
  by (auto simp: select_input_def manager_readiness_def receive_eqs
      split: if_splits option.splits)

lemma select_cancelled: "sv_cancelled sv \<Longrightarrow> select_input (manager_readiness sv) = Some In_Cancelled"
  by (simp add: select_input_def manager_readiness_def)

lemma take_message_parts [simp]:
  "sv_cancelled (take_message i sv) = sv_cancelled sv"
  "sv_block_watcher (take_message i sv) = sv_block_watcher sv"
  "sv_block_task (take_message i sv) = sv_block_task sv"
  "sv_event_task (take_message i sv) = sv_event_task sv"
  "sv_discovery (take_message i sv) = sv_discovery sv"
  "sv_sending (take_message i sv) = sv_sending sv"
  "sv_discovery_task (take_message i sv) = sv_discovery_task sv"
  "sv_http_task (take_message i sv) = sv_http_task sv"
  "sv_manager (take_message i sv) = sv_manager sv"
  "sv_manager_task (take_message i sv) = sv_manager_task sv"
  "sv_logs (take_message i sv) = sv_logs sv"
  "sv_discovered (take_message i sv) = sv_discovered sv"
  "sv_taken (take_message i sv) = sv_taken sv"
  by (cases i; simp)+

lemma startup_eq:
  "startup env connections w_manager w_blocks w_discovery = Inr (Some sv) \<Longrightarrow>
     \<exists>tip w. sv = server_new env w_manager w w_discovery tip"
  by (auto simp: startup_def wrap_err_def split: option.splits prod.splits sum.splits)

section \<open>Invariants\<close>

text \<open>What holds of a new server and is kept by every step from a reachable state holds always.\<close>

locale server_invariant =
  fixes env :: "'w env" and inv :: "'w server \<Rightarrow> bool"
  assumes new: "inv (server_new env w_manager w_blocks w_discovery tip)"
    and kept: "reachable env sv \<Longrightarrow> server_step env sv sv' \<Longrightarrow> inv sv \<Longrightarrow> inv sv'"
begin

lemma always: "reachable env sv \<Longrightarrow> inv sv"
proof (induction rule: reachable.induct)
  case (start connections w_manager w_blocks w_discovery sv)
  from startup_eq [OF this] show ?case by (auto simp: new)
qed (rule kept)

end

text \<open>The events of the logs that were delivered.\<close>

definition log_events :: "'w env \<Rightarrow> rpc_log list \<Rightarrow> chain_event list" where
  "log_events env logs =
     concat (map (\<lambda>log. case decode_log env log of Some (Some e) \<Rightarrow> [e] | _ \<Rightarrow> []) logs)"

lemma log_events_simps [simp]:
  "log_events env [] = []"
  "log_events env (logs @ [log]) =
     log_events env logs @ (case decode_log env log of Some (Some e) \<Rightarrow> [e] | _ \<Rightarrow> [])"
  by (simp_all add: log_events_def)

definition pipeline :: "'w env \<Rightarrow> 'w server \<Rightarrow> bool" where
  "pipeline env sv \<longleftrightarrow>
     prefix (events_in (sv_taken sv) @ sv_events sv) (log_events env (sv_logs sv)) \<and>
     (sv_event_task sv = T_Running \<longrightarrow>
        events_in (sv_taken sv) @ sv_events sv = log_events env (sv_logs sv)) \<and>
     orders_in (sv_taken sv) @ sv_orders sv @ sv_sending sv = sv_discovered sv \<and>
     length (sv_events sv) \<le> event_capacity \<and> length (sv_orders sv) \<le> order_capacity \<and>
     length (sv_tracks sv) \<le> request_capacity \<and> length (sv_snapshots sv) \<le> request_capacity"

lemma pipeline_step:
  assumes "server_step env sv sv'" "pipeline env sv"
  shows "pipeline env sv'"
  using assms
proof (induction rule: server_step.induct)
  case (Block sv i exit bw sv1)
  then show ?case by (cases exit) (auto simp: pipeline_def task_ends)
next
  case (Manager sv i exit m sv1)
  note t = select_takes [OF Manager.hyps(2)]
  have "pipeline env sv1" using Manager.prems t
    by (auto simp: pipeline_def Manager.hyps(4))
  then show ?case by (cases exit) (auto simp: pipeline_def task_ends)
qed (auto simp: pipeline_def task_ends dest: exit_step_parts)

interpretation pipeline: server_invariant env "pipeline env" for env :: "'w env"
proof unfold_locales
  show "pipeline env (server_new env w_manager w_blocks w_discovery tip)" for w_manager w_blocks w_discovery :: 'w and tip
    by (simp add: pipeline_def server_new_def)
qed (rule pipeline_step)

section \<open>The manager in the server\<close>

lemma run_inner_snoc:
  "run_inner env rds s = (Running, s1) \<Longrightarrow> run_inner env (rds @ [rd]) s = run_inner env [rd] s1"
proof (induction rds arbitrary: s)
  case (Cons r rds)
  let ?s = "s\<lparr>sm_all_order_hashes := rd_all_order_hashes r\<rparr>"
  show ?case
  proof (cases "select_input r")
    case None
    with Cons show ?thesis by (simp add: Let_def del: run_inner.simps(2) add: run_inner.simps(2) [of env r])
  next
    case (Some i)
    with Cons show ?thesis
      by (cases i) (simp_all add: Let_def run_inner.simps(2) [of env r] del: run_inner.simps(2) handle_input.simps
          split: option.splits)
  qed
qed simp

text \<open>A run of the manager over the messages taken so far has led to its state.\<close>

definition manager_run :: "'w env \<Rightarrow> 'w server \<Rightarrow> readiness list \<Rightarrow> (report + unit) task_exit \<Rightarrow> bool" where
  "manager_run env sv rds exit \<longleftrightarrow>
     (\<exists>w. run_inner env rds (state_manager_new (tracker_new env w) retention_blocks) = (exit, sv_manager sv)) \<and>
     map select_input rds = map Some (sv_taken sv) \<and>
     (sv_manager_task sv = T_Running \<longleftrightarrow> exit = Running) \<and> (sv_manager_task sv = T_Panicked \<longleftrightarrow> exit = Crashed)"

lemma manager_run_same:
  "manager_run env sv rds exit \<Longrightarrow> sv_manager sv' = sv_manager sv \<Longrightarrow> sv_taken sv' = sv_taken sv \<Longrightarrow>
     sv_manager_task sv' = sv_manager_task sv \<Longrightarrow> \<exists>rds exit. manager_run env sv' rds exit"
  by (auto simp: manager_run_def)

lemma manager_run_step:
  assumes "server_step env sv sv'" "manager_run env sv rds exit"
  shows "\<exists>rds exit. manager_run env sv' rds exit"
  using assms
proof (induction rule: server_step.induct)
  case (Block sv i e bw sv1)
  from Block.prems show ?case
    by (rule manager_run_same) (simp_all add: Block.hyps(5) task_ends split: option.split)
next
  case (Manager sv i e m sv1)
  let ?rd = "manager_readiness sv"
  from Manager.prems Manager.hyps(1) obtain w where
    r: "run_inner env rds (state_manager_new (tracker_new env w) retention_blocks) = (Running, sv_manager sv)"
    and taken: "map select_input rds = map Some (sv_taken sv)" by (auto simp: manager_run_def)
  have "run_inner env (rds @ [?rd]) (state_manager_new (tracker_new env w) retention_blocks) = (e, m)"
    using run_inner_snoc [OF r, of ?rd] Manager.hyps(3) by simp
  then have "manager_run env (case e of Running \<Rightarrow> sv1 | Exited r \<Rightarrow> end_manager_task r sv1
      | Crashed \<Rightarrow> sv1\<lparr>sv_manager_task := T_Panicked\<rparr>) (rds @ [?rd]) e"
    using taken Manager.hyps(1,2)
    by (cases e) (auto simp: manager_run_def Manager.hyps(4) task_ends)
  then show ?case by blast
next
  case (Manager_Exit sv t token)
  then have "manager_run env (sv\<lparr>sv_manager_task := t, sv_cancelled := token\<rparr>) rds exit"
    using exit_step_parts [OF Manager_Exit.hyps] by (auto simp: manager_run_def)
  then show ?case by blast
qed (erule manager_run_same; simp add: task_ends)+

interpretation manager_run: server_invariant env "\<lambda>sv. \<exists>rds exit. manager_run env sv rds exit"
  for env :: "'w env"
proof unfold_locales
  show "\<exists>rds exit. manager_run env (server_new env w_manager w_blocks w_discovery tip) rds exit"
    for w_manager w_blocks w_discovery :: 'w and tip
    by (rule exI [of _ "[]"], rule exI [of _ Running]) (auto simp: manager_run_def server_new_def)
qed (blast dest: manager_run_step)

section \<open>Panics\<close>

text \<open>Only two tasks can panic: the event watcher on a log, and the manager.\<close>

definition panics_from_logs :: "'w env \<Rightarrow> 'w server \<Rightarrow> bool" where
  "panics_from_logs env sv \<longleftrightarrow> sv_block_task sv \<noteq> T_Panicked \<and> sv_discovery_task sv \<noteq> T_Panicked \<and>
     sv_http_task sv \<noteq> T_Panicked \<and>
     (sv_event_task sv = T_Panicked \<longrightarrow> (\<exists>log \<in> set (sv_logs sv). decode_log env log = None))"

lemma panics_from_logs_step:
  assumes "server_step env sv sv'" "panics_from_logs env sv"
  shows "panics_from_logs env sv'"
  using assms
proof (induction rule: server_step.induct)
  case (Block sv i exit bw sv1)
  then show ?case by (cases exit) (auto simp: panics_from_logs_def task_ends)
next
  case (Manager sv i exit m sv1)
  then show ?case by (cases exit) (auto simp: panics_from_logs_def task_ends)
qed (auto simp: panics_from_logs_def task_ends dest: exit_step_parts)

interpretation panics_from_logs: server_invariant env "panics_from_logs env" for env :: "'w env"
proof unfold_locales
  show "panics_from_logs env (server_new env w_manager w_blocks w_discovery tip)"
    for w_manager w_blocks w_discovery :: 'w and tip
    by (simp add: panics_from_logs_def server_new_def)
qed (rule panics_from_logs_step)

lemma manager_not_panicked:
  assumes "reachable env sv" "sm_live env (state_manager_new (tracker_new env w) retention_blocks)"
    and "\<forall>i \<in> set (sv_taken sv). input_ok i"
  shows "sv_manager_task sv \<noteq> T_Panicked"
proof -
  from manager_run.always [OF assms(1)] obtain w rds exit where
    r: "run_inner env rds (state_manager_new (tracker_new env w) retention_blocks) = (exit, sv_manager sv)"
    and taken: "map select_input rds = map Some (sv_taken sv)" and panic: "sv_manager_task sv = T_Panicked \<longleftrightarrow> exit = Crashed"
    by (auto simp: manager_run_def)
  have ok: "input_ok i" if "rd \<in> set rds" "select_input rd = Some i" for rd i
  proof -
    have "Some i \<in> set (map select_input rds)" using that by force
    then show ?thesis using assms(3) unfolding taken by auto
  qed
  have "sm_live env (state_manager_new (tracker_new env w) retention_blocks)"
    using assms(2) by (simp add: sm_live_def state_manager_new_def)
  with ok have "fst (run_inner env rds (state_manager_new (tracker_new env w) retention_blocks)) \<noteq> Crashed"
    by (intro live_run.run_inner_total) auto
  then show ?thesis using r panic by simp
qed

section \<open>Failures and shutdown\<close>

text \<open>The join handles of the tasks; a panic's message is \<open>msg\<close>.\<close>

definition joined_of :: "string \<Rightarrow> task \<Rightarrow> joined option" where
  "joined_of msg t = (case t of T_Exited r \<Rightarrow> Some (Returned r) | T_Panicked \<Rightarrow> Some (Panicked msg) | _ \<Rightarrow> None)"

definition handles_of :: "string \<Rightarrow> 'w server \<Rightarrow> tasks_join_handles" where
  "handles_of msg sv =
     \<lparr>th_server = joined_of msg (sv_http_task sv), th_block_watcher = joined_of msg (sv_block_task sv),
      th_event_watcher = joined_of msg (sv_event_task sv),
      th_order_discovery = joined_of msg (sv_discovery_task sv),
      th_state_manager = joined_of msg (sv_manager_task sv)\<rparr>"

definition tasks_of :: "'w server \<Rightarrow> task list" where
  "tasks_of sv = [sv_http_task sv, sv_block_task sv, sv_event_task sv, sv_discovery_task sv, sv_manager_task sv]"

text \<open>
  What a task returns if the token is cancelled now: one that has not looked at it will find it
  cancelled. The names are those that the exit and the join use for it.
\<close>

definition outcome :: "string \<Rightarrow> string \<Rightarrow> string \<Rightarrow> task \<Rightarrow> report + unit" where
  "outcome exit_name join_name msg t = (case t of
     T_Running \<Rightarrow> Inr ()
   | T_Leaving _ \<Rightarrow> Inr ()
   | T_Failing r \<Rightarrow> exit_failure exit_name r
   | T_Returning r \<Rightarrow> r
   | T_Exited r \<Rightarrow> r
   | T_Panicked \<Rightarrow> Inl [join_name @ '' panicked: '' @ msg])"

definition outcomes :: "string \<Rightarrow> 'w server \<Rightarrow> (report + unit) list" where
  "outcomes msg sv =
     [outcome ''server'' ''server'' msg (sv_http_task sv),
      outcome ''block_watcher'' ''block_watcher'' msg (sv_block_task sv),
      outcome ''rollup_event_watcher'' ''event_watcher'' msg (sv_event_task sv),
      outcome ''order_discovery'' ''order_discovery'' msg (sv_discovery_task sv),
      outcome ''state_manager'' ''state_manager'' msg (sv_manager_task sv)]"

lemma outcome_simps [simp]:
  "outcome n j msg T_Running = Inr ()" "outcome n j msg (T_Leaving r) = Inr ()"
  "outcome n j msg (T_Failing r) = exit_failure n r" "outcome n j msg (T_Returning r) = r"
  "outcome n j msg (T_Exited r) = r" "outcome n j msg T_Panicked = Inl [j @ '' panicked: '' @ msg]"
  by (simp_all add: outcome_def)

lemma exit_step_outcome:
  "exit_step n t c = Some (t', c') \<Longrightarrow> c' \<Longrightarrow> \<forall>j msg. outcome n j msg t' = outcome n j msg t"
  by (auto simp: exit_step_Some exit_check_def)

text \<open>No task returns before the token is cancelled.\<close>

definition returns_cancelled :: "'w server \<Rightarrow> bool" where
  "returns_cancelled sv \<longleftrightarrow> sv_cancelled sv \<or>
     (\<forall>t \<in> set (tasks_of sv). \<forall>r. t \<noteq> T_Returning r \<and> t \<noteq> T_Exited r)"

lemma returns_cancelled_step:
  assumes "server_step env sv sv'" "returns_cancelled sv"
  shows "returns_cancelled sv'"
  using assms
proof (induction rule: server_step.induct)
  case (Block sv i exit bw sv1)
  then show ?case by (cases exit) (auto simp: returns_cancelled_def tasks_of_def task_ends)
next
  case (Manager sv i exit m sv1)
  then show ?case by (cases exit) (auto simp: returns_cancelled_def tasks_of_def task_ends)
qed (auto simp: returns_cancelled_def tasks_of_def task_ends exit_step_Some exit_check_def)

interpretation returns_cancelled: server_invariant env returns_cancelled for env :: "'w env"
proof unfold_locales
  show "returns_cancelled (server_new env w_manager w_blocks w_discovery tip)" for w_manager w_blocks w_discovery :: 'w and tip
    by (simp add: returns_cancelled_def tasks_of_def server_new_def)
qed (rule returns_cancelled_step)

text \<open>The step that cancels the token changes no outcome.\<close>

lemma cancelling_step:
  "server_step env sv sv' \<Longrightarrow> \<not> sv_cancelled sv \<Longrightarrow> sv_cancelled sv' \<Longrightarrow> outcomes msg sv' = outcomes msg sv"
proof (induction rule: server_step.induct)
  case (Block sv i exit bw sv1)
  then show ?case by (cases exit) (simp_all add: outcomes_def task_ends)
next
  case (Manager sv i exit m sv1)
  then show ?case by (cases exit) (simp_all add: task_ends)
qed (simp_all add: outcomes_def task_ends, (drule exit_step_outcome, simp, simp)+)

text \<open>A step that changes something.\<close>

definition active_step :: "'w env \<Rightarrow> 'w server \<Rightarrow> 'w server \<Rightarrow> bool" where
  "active_step env sv sv' \<longleftrightarrow> server_step env sv sv' \<and> sv' \<noteq> sv"

text \<open>How many steps a cancelled server can still make.\<close>

definition steps_left :: "task \<Rightarrow> nat" where
  "steps_left t = (case t of T_Running \<Rightarrow> 3 | T_Leaving _ \<Rightarrow> 2 | T_Failing _ \<Rightarrow> 2 | T_Returning _ \<Rightarrow> 1 | _ \<Rightarrow> 0)"

definition stop_bound :: "'w server \<Rightarrow> nat" where
  "stop_bound sv = sum_list (map steps_left (tasks_of sv)) + length (sv_sending sv) +
     (request_capacity - length (sv_tracks sv)) + (request_capacity - length (sv_snapshots sv))"

definition stops :: "task \<Rightarrow> task \<Rightarrow> bool" where
  "stops t t' \<longleftrightarrow> t' = t \<or> steps_left t' < steps_left t"

lemma steps_left_simps [simp]:
  "steps_left T_Running = 3" "steps_left (T_Leaving r) = 2" "steps_left (T_Failing r) = 2"
  "steps_left (T_Returning r) = 1" "steps_left (T_Exited r) = 0" "steps_left T_Panicked = 0"
  by (simp_all add: steps_left_def)

lemma exit_step_left: "exit_step n t c = Some (t', c') \<Longrightarrow> c \<Longrightarrow> steps_left t' < steps_left t"
  by (auto simp: exit_step_Some exit_check_def)

text \<open>
  What a cancelled server can turn into: its tasks come nearer to their end with the outcome they
  have, and the manager does nothing more.
\<close>

definition stopping :: "'w server \<Rightarrow> 'w server \<Rightarrow> bool" where
  "stopping sv sv' \<longleftrightarrow> sv_cancelled sv' \<and> list_all2 stops (tasks_of sv) (tasks_of sv') \<and>
     (\<forall>msg. outcomes msg sv' = outcomes msg sv) \<and>
     sm_tracked_orders (sv_manager sv') = sm_tracked_orders (sv_manager sv) \<and>
     sm_updates (sv_manager sv') = sm_updates (sv_manager sv) \<and>
     events_in (sv_taken sv') = events_in (sv_taken sv) \<and> orders_in (sv_taken sv') = orders_in (sv_taken sv)"

lemma stopping_refl: "sv_cancelled sv \<Longrightarrow> stopping sv sv"
  by (simp add: stopping_def tasks_of_def stops_def)

lemma stops_trans: "stops a b \<Longrightarrow> stops b c \<Longrightarrow> stops a c"
  by (auto simp: stops_def)

lemma stopping_trans: "stopping a b \<Longrightarrow> stopping b c \<Longrightarrow> stopping a c"
  by (auto simp: stopping_def tasks_of_def intro: stops_trans)

lemma signal_again: "sv_cancelled sv \<Longrightarrow> sv\<lparr>sv_cancelled := True\<rparr> = sv"
  by (cases sv) simp

lemmas stopping_defs = stopping_def stop_bound_def tasks_of_def stops_def outcomes_def

text \<open>A step of an exit, as each task takes it.\<close>

lemma exit_step_cancelled:
  "exit_step n t c = Some (t', c') \<Longrightarrow> c \<Longrightarrow> c' \<and> steps_left t' < steps_left t \<and> (\<forall>j msg. outcome n j msg t' = outcome n j msg t)"
  using exit_step_left exit_step_outcome exit_step_parts by blast

lemma cancelled_step:
  "server_step env sv sv' \<Longrightarrow> sv_cancelled sv \<Longrightarrow> sv' = sv \<or> stopping sv sv' \<and> stop_bound sv' < stop_bound sv"
proof (induction rule: server_step.induct)
  case (Signal sv)
  then show ?case by (simp add: signal_again)
next
  case (Block sv i e bw sv1)
  then have i: "i = Block_Cancelled" by (simp add: block_input_possible_def)
  with Block.hyps(4) have e: "e = Some (Inr ())" by simp
  show ?case
    by (rule disjI2, use Block.hyps(1,5) Block.prems e in \<open>simp add: stopping_defs task_ends\<close>)
next
  case (Manager sv i e m sv1)
  then have i: "i = In_Cancelled" by (simp add: select_cancelled)
  with Manager.hyps(3) Manager.prems have m: "e = Exited (Inr ())" "sm_tracked_orders m = sm_tracked_orders (sv_manager sv)"
    "sm_updates m = sm_updates (sv_manager sv)" by (auto simp: select_cancelled Let_def)
  show ?case
    by (rule disjI2, use Manager.hyps(1,4) Manager.prems i m in \<open>simp add: stopping_defs task_ends\<close>)
qed (((drule (1) exit_step_cancelled)?, rule disjI2, simp add: stopping_defs task_ends)+)

definition all_over :: "'w server \<Rightarrow> bool" where
  "all_over sv \<longleftrightarrow> (\<forall>t \<in> set (tasks_of sv). task_over t)"

lemma watch_cancelled: "watch_blocks_loop env [Block_Cancelled] bw = (Some (Inr ()), bw)"
  by simp

text \<open>A cancelled server with a running task can make a step.\<close>

lemma cancelled_progress:
  assumes c: "sv_cancelled sv" and running: "\<not> all_over sv"
  shows "\<exists>sv'. active_step env sv sv'"
proof -
  have active: "\<exists>sv'. active_step env sv sv'" if "server_step env sv sv'" "tasks_of sv' \<noteq> tasks_of sv" for sv'
    using that by (auto simp: active_step_def)
  have manager: "\<exists>sv'. active_step env sv sv'" if go: "\<not> task_over (sv_manager_task sv)"
  proof (cases "sv_manager_task sv = T_Running")
    case True
    obtain e m where r: "run_inner env [manager_readiness sv] (sv_manager sv) = (e, m)" by (rule prod.exhaust)
    then have "e = Exited (Inr ())" using c by (auto simp: select_cancelled Let_def)
    with server_step.Manager [OF True select_cancelled [OF c] r refl] show ?thesis
      by (intro active) (auto simp: task_ends tasks_of_def True)
  next
    case False
    with go obtain t token where e: "exit_step ''state_manager'' (sv_manager_task sv) (sv_cancelled sv) = Some (t, token)"
      using exit_step_moves by blast
    show ?thesis by (rule active [OF server_step.Manager_Exit [OF e]]) (simp add: tasks_of_def exit_step_parts [OF e])
  qed
  have http: "\<exists>sv'. active_step env sv sv'" if go: "\<not> task_over (sv_http_task sv)"
  proof (cases "sv_http_task sv = T_Running")
    case True
    show ?thesis
      by (rule active [OF server_step.Http_End [OF True, of env "Inr ()"]]) (simp add: task_ends tasks_of_def True)
  next
    case False
    with go obtain t token where e: "exit_step ''server'' (sv_http_task sv) (sv_cancelled sv) = Some (t, token)"
      using exit_step_moves by blast
    show ?thesis by (rule active [OF server_step.Http_Exit [OF e]]) (simp add: tasks_of_def exit_step_parts [OF e])
  qed
  have blocks: "\<exists>sv'. active_step env sv sv'" if go: "\<not> task_over (sv_block_task sv)"
  proof (cases "sv_block_task sv = T_Running")
    case True
    have "server_step env sv (end_block_task (Inr ()) (sv\<lparr>sv_block_watcher := sv_block_watcher sv, sv_cancelled := True\<rparr>))"
      using server_step.Block [OF True _ _ watch_cancelled refl] c
      by (simp add: block_input_possible_def)
    then show ?thesis by (rule active) (simp add: task_ends tasks_of_def True)
  next
    case False
    with go obtain t token where e: "exit_step ''block_watcher'' (sv_block_task sv) (sv_cancelled sv) = Some (t, token)"
      using exit_step_moves by blast
    show ?thesis by (rule active [OF server_step.Block_Exit [OF e]]) (simp add: tasks_of_def exit_step_parts [OF e])
  qed
  have events: "\<exists>sv'. active_step env sv sv'" if go: "\<not> task_over (sv_event_task sv)"
  proof (cases "sv_event_task sv = T_Running")
    case True
    show ?thesis
      by (rule active [OF server_step.Log_Cancel [OF True c]]) (simp add: task_ends tasks_of_def True)
  next
    case False
    with go obtain t token where e: "exit_step ''rollup_event_watcher'' (sv_event_task sv) (sv_cancelled sv) = Some (t, token)"
      using exit_step_moves by blast
    show ?thesis by (rule active [OF server_step.Event_Exit [OF e]]) (simp add: tasks_of_def exit_step_parts [OF e])
  qed
  have discovery: "\<exists>sv'. active_step env sv sv'"
    if go: "\<not> task_over (sv_discovery_task sv)" and m: "task_over (sv_manager_task sv)"
  proof (cases "sv_discovery_task sv = T_Running")
    case True
    show ?thesis
    proof (cases "sv_sending sv")
      case Nil
      show ?thesis
        by (rule active [OF server_step.Discovery_Cancel [OF True c Nil]]) (simp add: task_ends tasks_of_def True)
    next
      case (Cons order orders)
      show ?thesis
        by (rule active [OF server_step.Order_Refused [OF True Cons m]]) (simp add: task_ends tasks_of_def True)
    qed
  next
    case False
    with go obtain t token where e: "exit_step ''order_discovery'' (sv_discovery_task sv) (sv_cancelled sv) = Some (t, token)"
      using exit_step_moves by blast
    show ?thesis by (rule active [OF server_step.Discovery_Exit [OF e]]) (simp add: tasks_of_def exit_step_parts [OF e])
  qed
  show ?thesis using running manager http blocks events discovery by (auto simp: all_over_def tasks_of_def)
qed

lemma over_no_step: "all_over sv \<Longrightarrow> sv_cancelled sv \<Longrightarrow> \<not> active_step env sv sv'"
  by (auto simp: active_step_def all_over_def tasks_of_def signal_again dest: exit_step_parts elim!: server_stepE)

lemma shutdown_steps:
  "(active_step env ^^ n) sv sv' \<Longrightarrow> sv_cancelled sv \<Longrightarrow> stopping sv sv' \<and> n + stop_bound sv' \<le> stop_bound sv"
proof (induction n arbitrary: sv')
  case 0
  then show ?case by (simp add: stopping_refl)
next
  case (Suc n)
  then obtain s where s: "(active_step env ^^ n) sv s" "active_step env s sv'" by auto
  from Suc.IH [OF s(1) Suc.prems(2)] have ih: "stopping sv s" "n + stop_bound s \<le> stop_bound sv" by auto
  then have "sv_cancelled s" by (simp add: stopping_def)
  with cancelled_step [of env s sv'] s(2) have "stopping s sv'" "stop_bound sv' < stop_bound s"
    by (auto simp: active_step_def)
  then show ?case using ih stopping_trans by auto
qed

lemma stopping_steps:
  "(server_step env)\<^sup>*\<^sup>* sv sv' \<Longrightarrow> sv_cancelled sv \<Longrightarrow> stopping sv sv'"
proof (induction rule: rtranclp_induct)
  case (step s s')
  then have "stopping sv s" "sv_cancelled s" by (auto simp: stopping_def)
  then show ?case using cancelled_step [OF step.hyps(2)] stopping_trans by blast
qed (rule stopping_refl)

text \<open>A cancelled server can always be brought to its end.\<close>

lemma shutdown_reached:
  assumes "sv_cancelled sv"
  shows "\<exists>sv'. (server_step env)\<^sup>*\<^sup>* sv sv' \<and> all_over sv'"
  using assms
proof (induction "stop_bound sv" arbitrary: sv rule: less_induct)
  case less
  show ?case
  proof (cases "all_over sv")
    case False
    then obtain s where s: "active_step env sv s" using cancelled_progress [OF less.prems] by blast
    then have step: "server_step env sv s" "s \<noteq> sv" by (auto simp: active_step_def)
    with cancelled_step [OF step(1) less.prems] have "stopping sv s" "stop_bound s < stop_bound sv" by auto
    with less.hyps [of s] obtain sv' where "(server_step env)\<^sup>*\<^sup>* s sv'" "all_over sv'" by (auto simp: stopping_def)
    then show ?thesis using step(1) by (blast intro: converse_rtranclp_into_rtranclp)
  qed blast
qed

text \<open>The result of the process is the first error among the outcomes of its tasks.\<close>

lemma joined_over:
  "task_over t \<Longrightarrow> \<exists>j. joined_of msg t = Some j \<and> flatten_task_result join_name j = outcome n join_name msg t"
  by (cases t) (auto simp: joined_of_def flatten_task_result_def)

lemma into_future_over:
  assumes "all_over sv"
  shows "into_future (handles_of msg sv) = Some (first_err (outcomes msg sv))"
proof -
  have over: "task_over (sv_http_task sv)" "task_over (sv_block_task sv)" "task_over (sv_event_task sv)"
    "task_over (sv_discovery_task sv)" "task_over (sv_manager_task sv)"
    using assms by (simp_all add: all_over_def tasks_of_def)
  note j = joined_over [of _ msg]
  from j [OF over(1), of "''server''" "''server''"] j [OF over(2), of "''block_watcher''" "''block_watcher''"]
    j [OF over(3), of "''event_watcher''" "''rollup_event_watcher''"]
    j [OF over(4), of "''order_discovery''" "''order_discovery''"] j [OF over(5), of "''state_manager''" "''state_manager''"]
  show ?thesis by (auto simp: into_future_def handles_of_def outcomes_def)
qed

lemma all_running_outcomes:
  "set (tasks_of sv) = {T_Running} \<Longrightarrow> outcomes msg sv = replicate 5 (Inr ())"
  by (auto simp: tasks_of_def outcomes_def numeral_eq_Suc)

text \<open>A server that has just been started, and its first event.\<close>

definition demo_server :: "int list server" where
  "demo_server = server_new demo_env [] [] [] \<lparr>bt_rollup = 500, bt_host = 500\<rparr>"

lemma demo_joined: "try_join 5 (replicate 5 (Inr ())) = Some (Inr ())"
  by (simp add: numeral_eq_Suc)

lemma demo_reachable: "reachable demo_env demo_server"
  by (rule reachable.start [of _ "replicate 5 (Inr ())" "[]" "[]" "[]"], unfold startup_def demo_joined)
    (simp add: block_watcher_new_def wrap_err_def demo_env_def demo_server_def)

lemma demo_decode: "decode_log demo_env (demo_event_log 0xF1) =
    Some (Some (CE_Filled \<lparr>fe_chain = Rollup, fe_block_number = 480, fe_tx_hash = 0xD1, fe_outputs = []\<rparr>))"
  by (simp add: decode_log_def demo_event_log_def demo_env_def)

lemma demo_step:
  "server_step demo_env demo_server (demo_server\<lparr>sv_logs := [demo_event_log 0xF1],
     sv_events := [CE_Filled \<lparr>fe_chain = Rollup, fe_block_number = 480, fe_tx_hash = 0xD1, fe_outputs = []\<rparr>]\<rparr>)"
  using server_step.Log_Sent [OF _ _ demo_decode, of demo_server]
  by (simp add: demo_server_def server_new_def task_over_def event_capacity_def)

section \<open>Properties\<close>

text \<open>
  C4: every event and every discovered order reaches the state manager once, in order. In every
  reachable state the events that the manager has taken, followed by those in the channel, are
  the decodings of the logs delivered so far, none missing while the event watcher runs (when it
  ends because the manager is gone, a last one may be missing); the orders it has taken, those
  in the channel and those still to be sent are the orders that the polls have found; and no
  channel ever holds more than its capacity.
\<close>

theorem delivered_exactly_once:
  assumes "reachable env sv"
  shows "prefix (events_in (sv_taken sv) @ sv_events sv) (log_events env (sv_logs sv)) \<and>
    (sv_event_task sv = T_Running \<longrightarrow> events_in (sv_taken sv) @ sv_events sv = log_events env (sv_logs sv)) \<and>
    orders_in (sv_taken sv) @ sv_orders sv @ sv_sending sv = sv_discovered sv \<and>
    length (sv_events sv) \<le> event_capacity \<and> length (sv_orders sv) \<le> order_capacity \<and>
    length (sv_tracks sv) \<le> request_capacity \<and> length (sv_snapshots sv) \<le> request_capacity"
  using pipeline.always [OF assms] by (simp add: pipeline_def)

theorem delivered_exactly_once_witness:
  "\<exists>sv. reachable demo_env sv \<and> length (sv_events sv) = 1 \<and>
     events_in (sv_taken sv) @ sv_events sv = log_events demo_env (sv_logs sv)"
proof -
  note r = reachable.step [OF demo_reachable demo_step]
  show ?thesis
    by (rule exI, rule conjI [OF r]) (use delivered_exactly_once [OF r]
      in \<open>simp add: demo_server_def server_new_def log_events_def demo_decode\<close>)
qed

text \<open>
  C10: no task of the server panics on admissible input. In every reachable state, if the orders
  that the manager has taken have deadlines that fit a signed 64-bit number of seconds, the
  \<open>Order\<close> logs delivered have deadlines that fit 64 bits, the clock is not before the epoch and
  the conversions behave as documented, then no task has panicked, whatever the nodes, the cache
  and the clients have answered or failed to answer, and in whatever order.
\<close>

theorem server_never_panics:
  assumes "reachable env sv" "to_u64_checked env" "from_nanos_checked env" "clock_after_epoch env"
    and "\<forall>order. In_Order order \<in> set (sv_taken sv) \<longrightarrow> unat (so_deadline order) < 2 ^ 63"
    and "\<forall>request. In_Track request \<in> set (sv_taken sv) \<longrightarrow> unat (so_deadline (tr_order request)) < 2 ^ 63"
    and "\<forall>log \<in> set (sv_logs sv). \<forall>deadline outs.
      e_decode_order env (log_address log) (log_topics log) (log_data log) = Inr (deadline, outs) \<longrightarrow> unat deadline < 2 ^ 64"
  shows "T_Panicked \<notin> set (tasks_of sv)"
proof -
  have "input_ok i" if "i \<in> set (sv_taken sv)" for i
    by (cases i) (use that assms(5,6) in \<open>auto simp: admissible_def\<close>)
  moreover have "sm_live env (state_manager_new (tracker_new env w) retention_blocks)" for w
    using assms(2-4) by (simp add: sm_live_def state_manager_new_def)
  ultimately have "sv_manager_task sv \<noteq> T_Panicked" by (intro manager_not_panicked [OF assms(1)]) auto
  moreover have "decode_log env log \<noteq> None" if "log \<in> set (sv_logs sv)" for log
  proof
    assume "decode_log env log = None"
    then obtain deadline outs where "e_decode_order env (log_address log) (log_topics log) (log_data log) = Inr (deadline, outs)"
      "e_to_u64 env deadline = None" by (auto simp: decode_log_panic)
    then show False using assms(7) that to_u64_checked_None [OF assms(2), of deadline] by fastforce
  qed
  ultimately show ?thesis using panics_from_logs.always [OF assms(1)]
    by (fastforce simp: panics_from_logs_def tasks_of_def)
qed

theorem server_never_panics_witness:
  "\<exists>sv. reachable (demo_env\<lparr>q_clock := \<lambda>w. (1000, w)\<rparr>) sv \<and> sv_logs sv \<noteq> [] \<and> T_Panicked \<notin> set (tasks_of sv)"
proof -
  let ?env = "demo_env\<lparr>q_clock := \<lambda>w. (1000, w)\<rparr>"
  let ?sv = "server_new ?env [] [] [] \<lparr>bt_rollup = 500, bt_host = 500\<rparr>"
  let ?e = "CE_Filled \<lparr>fe_chain = Rollup, fe_block_number = 480, fe_tx_hash = 0xD1, fe_outputs = []\<rparr>"
  let ?sv' = "?sv\<lparr>sv_logs := sv_logs ?sv @ [demo_event_log 0xF1], sv_events := sv_events ?sv @ [?e]\<rparr>"
  have r: "reachable ?env ?sv"
    by (rule reachable.start [of _ "replicate 5 (Inr ())" "[]" "[]" "[]"], unfold startup_def demo_joined)
      (simp add: block_watcher_new_def wrap_err_def demo_env_def)
  have "decode_log ?env (demo_event_log 0xF1) = Some (Some ?e)"
    by (simp add: decode_log_def demo_event_log_def demo_env_def)
  then have "server_step ?env ?sv ?sv'"
    by (rule server_step.Log_Sent [rotated 2]) (simp_all add: server_new_def task_over_def event_capacity_def)
  note r' = reachable.step [OF r this]
  have "T_Panicked \<notin> set (tasks_of ?sv')"
    by (rule server_never_panics [OF r'])
      (simp_all add: to_u64_checked_def from_nanos_checked_def clock_after_epoch_def demo_env_def server_new_def demo_event_log_def)
  with r' show ?thesis by (intro exI [of _ ?sv']) (simp add: server_new_def)
qed

text \<open>
  C9: the result of the process is decided when the token is cancelled. In every reachable state
  with the token not cancelled no task has returned. Take the step that cancels it first, whichever
  it is, and any steps after it until all tasks are over: then the result of the process is the
  first error, in the order in which the handles are joined, of the tasks that had seen the token
  uncancelled just before that step or had panicked, and \<open>Ok\<close> when there is none. So a task that
  looks at the token later is never reported, whatever it ended with; but looking and cancelling
  are two operations, so several tasks can fail, and of those one error is returned.
\<close>

theorem result_decided_at_cancellation:
  assumes "reachable env sv" "\<not> sv_cancelled sv" "server_step env sv sv1" "sv_cancelled sv1"
    and "(server_step env)\<^sup>*\<^sup>* sv1 sv'" "all_over sv'"
  shows "(\<forall>r. T_Returning r \<notin> set (tasks_of sv) \<and> T_Exited r \<notin> set (tasks_of sv)) \<and>
    into_future (handles_of msg sv') = Some (first_err (map (\<lambda>(exit_name, join_name, t). case t of
        T_Failing (Inl e) \<Rightarrow> Inl e
      | T_Failing (Inr _) \<Rightarrow> Inl [exit_name @ '' exited unexpectedly'']
      | T_Panicked \<Rightarrow> Inl [join_name @ '' panicked: '' @ msg]
      | _ \<Rightarrow> Inr ())
     [(''server'', ''server'', sv_http_task sv), (''block_watcher'', ''block_watcher'', sv_block_task sv),
      (''rollup_event_watcher'', ''event_watcher'', sv_event_task sv),
      (''order_discovery'', ''order_discovery'', sv_discovery_task sv),
      (''state_manager'', ''state_manager'', sv_manager_task sv)]))"
proof -
  have none: "\<forall>t \<in> set (tasks_of sv). \<forall>r. t \<noteq> T_Returning r \<and> t \<noteq> T_Exited r"
    using returns_cancelled.always [OF assms(1)] assms(2) by (simp add: returns_cancelled_def)
  let ?result = "\<lambda>(exit_name, join_name, t). case t of
        T_Failing (Inl e) \<Rightarrow> Inl e
      | T_Failing (Inr _) \<Rightarrow> Inl [exit_name @ '' exited unexpectedly'']
      | T_Panicked \<Rightarrow> Inl [join_name @ '' panicked: '' @ msg]
      | _ \<Rightarrow> Inr ()"
  have same: "?result (n, j, t) = outcome n j msg t" if "t \<in> set (tasks_of sv)" for n j t
    using none that by (cases t) (auto simp: exit_failure_def split: sum.split unit.split)
  have http: "?result (n, j, sv_http_task sv) = outcome n j msg (sv_http_task sv)"
    and blocks: "?result (n, j, sv_block_task sv) = outcome n j msg (sv_block_task sv)"
    and events: "?result (n, j, sv_event_task sv) = outcome n j msg (sv_event_task sv)"
    and discovery: "?result (n, j, sv_discovery_task sv) = outcome n j msg (sv_discovery_task sv)"
    and manager: "?result (n, j, sv_manager_task sv) = outcome n j msg (sv_manager_task sv)" for n j
    by (rule same, simp add: tasks_of_def)+
  have "stopping sv1 sv'" by (rule stopping_steps [OF assms(5,4)])
  then have "outcomes msg sv' = outcomes msg sv"
    using cancelling_step [OF assms(3,2,4), of msg] by (simp add: stopping_def)
  then have "into_future (handles_of msg sv') = Some (first_err (outcomes msg sv))"
    using into_future_over [OF assms(6), of msg] by simp
  then have "into_future (handles_of msg sv') = Some (first_err (map ?result
     [(''server'', ''server'', sv_http_task sv), (''block_watcher'', ''block_watcher'', sv_block_task sv),
      (''rollup_event_watcher'', ''event_watcher'', sv_event_task sv),
      (''order_discovery'', ''order_discovery'', sv_discovery_task sv),
      (''state_manager'', ''state_manager'', sv_manager_task sv)]))"
    by (simp only: outcomes_def list.map http blocks events discovery manager)
  then show ?thesis using none by blast
qed

text \<open>
  The WebSocket connection is lost: both watchers see the token uncancelled, then the event watcher
  cancels it. Both fail, and the process returns the error of the block watcher.
\<close>

lemma demo_both_failing:
  "reachable demo_env (demo_server\<lparr>sv_block_task := T_Failing (Inl [''failed to subscribe to rollup blocks'', ''gone'']),
     sv_event_task := T_Failing (Inl [''rollup log subscription closed''])\<rparr>)"
proof -
  let ?b = "Inl [''failed to subscribe to rollup blocks'', ''gone''] :: report + unit"
  let ?l = "Inl [''rollup log subscription closed''] :: report + unit"
  let ?sv1 = "demo_server\<lparr>sv_block_task := T_Leaving ?b\<rparr>" and ?sv2 = "demo_server\<lparr>sv_block_task := T_Failing ?b\<rparr>"
  let ?sv3 = "demo_server\<lparr>sv_block_task := T_Failing ?b, sv_event_task := T_Leaving ?l\<rparr>"
  have new: "sv_cancelled demo_server = False" by (simp add: demo_server_def server_new_def)
  have "server_step demo_env demo_server ?sv1"
    using server_step.Block_Unsubscribed [of demo_server demo_env "Ext_Error ''gone'' None"]
    by (simp add: demo_server_def server_new_def block_watcher_spawn_def block_watcher_of_def end_block_task_def report_of_def)
  note r1 = reachable.step [OF demo_reachable this]
  have "server_step demo_env ?sv1 (?sv1\<lparr>sv_block_task := T_Failing ?b, sv_cancelled := False\<rparr>)"
    by (rule server_step.Block_Exit) (simp add: exit_check_def new)
  then have "server_step demo_env ?sv1 ?sv2" by (simp add: demo_server_def server_new_def)
  note r2 = reachable.step [OF r1 this]
  have "server_step demo_env ?sv2 (end_event_task ?l ?sv2)"
    by (rule server_step.Log_End) (simp_all add: demo_server_def server_new_def)
  then have "server_step demo_env ?sv2 ?sv3" by (simp add: end_event_task_def)
  note r3 = reachable.step [OF r2 this]
  have "server_step demo_env ?sv3 (?sv3\<lparr>sv_event_task := T_Failing ?l, sv_cancelled := False\<rparr>)"
    by (rule server_step.Event_Exit) (simp add: exit_check_def new)
  then have "server_step demo_env ?sv3 (demo_server\<lparr>sv_block_task := T_Failing ?b, sv_event_task := T_Failing ?l\<rparr>)"
    by (simp add: demo_server_def server_new_def)
  from reachable.step [OF r3 this] show ?thesis .
qed

theorem result_decided_at_cancellation_witness:
  "\<exists>sv. (\<exists>e. sv_event_task sv = T_Returning (Inl e)) \<and>
     (\<exists>sv'. (server_step demo_env)\<^sup>*\<^sup>* sv sv' \<and> all_over sv' \<and>
       into_future (handles_of ''boom'' sv') = Some (Inl [''failed to subscribe to rollup blocks'', ''gone'']))"
proof -
  let ?sv = "demo_server\<lparr>sv_block_task := T_Failing (Inl [''failed to subscribe to rollup blocks'', ''gone'']),
     sv_event_task := T_Failing (Inl [''rollup log subscription closed''])\<rparr>"
  let ?sv1 = "?sv\<lparr>sv_event_task := T_Returning (Inl [''rollup log subscription closed'']), sv_cancelled := True\<rparr>"
  have step: "server_step demo_env ?sv ?sv1"
    by (rule server_step.Event_Exit) (simp add: exit_failure_def)
  obtain sv' where sv': "(server_step demo_env)\<^sup>*\<^sup>* ?sv1 sv'" "all_over sv'"
    using shutdown_reached [of ?sv1 demo_env] by auto
  have "into_future (handles_of ''boom'' sv') = Some (Inl [''failed to subscribe to rollup blocks'', ''gone''])"
    using result_decided_at_cancellation [OF demo_both_failing _ step _ sv', of "''boom''"]
    by (simp add: demo_server_def server_new_def)
  then show ?thesis using sv' by (intro exI [of _ ?sv1]) auto
qed

text \<open>
  C8: after a cancellation the server stops. However its tasks are scheduled, a cancelled server
  makes at most \<open>stop_bound\<close> further steps; it can go on as long as a task is not over and only
  so long; a task that has not looked at the token yet ends with \<open>Ok\<close>, and no outcome changes any
  more; the manager takes no more events or orders, and neither the tracked orders nor what was
  broadcast changes. So the result of the process is known, and it is \<open>Ok\<close> when all tasks were
  running.
\<close>

theorem shutdown_completes:
  assumes "sv_cancelled sv" and "(active_step env ^^ n) sv sv'"
  shows "n \<le> stop_bound sv \<and> stopping sv sv' \<and> (all_over sv' \<longleftrightarrow> (\<nexists>sv''. active_step env sv' sv'')) \<and>
    (all_over sv' \<longrightarrow> into_future (handles_of msg sv') = Some (first_err (outcomes msg sv))) \<and>
    (all_over sv' \<and> set (tasks_of sv) = {T_Running} \<longrightarrow> into_future (handles_of msg sv') = Some (Inr ()))"
proof -
  from shutdown_steps [OF assms(2,1)] have s: "stopping sv sv'" and n: "n \<le> stop_bound sv" by auto
  then have c: "sv_cancelled sv'" and same: "outcomes msg sv' = outcomes msg sv" by (simp_all add: stopping_def)
  have result: "all_over sv' \<Longrightarrow> into_future (handles_of msg sv') = Some (first_err (outcomes msg sv))"
    using into_future_over [of sv' msg] same by simp
  moreover have "into_future (handles_of msg sv') = Some (Inr ())" if "all_over sv'" "set (tasks_of sv) = {T_Running}"
    using result [OF that(1)] all_running_outcomes [OF that(2), of msg] by (simp add: numeral_eq_Suc)
  moreover have "all_over sv' \<longleftrightarrow> (\<nexists>sv''. active_step env sv' sv'')"
    using cancelled_progress [OF c, of env] over_no_step [OF _ c, of env] by blast
  ultimately show ?thesis using s n by simp
qed

theorem shutdown_completes_witness:
  "\<exists>sv'. active_step demo_env (demo_server\<lparr>sv_cancelled := True\<rparr>) sv' \<and> stopping (demo_server\<lparr>sv_cancelled := True\<rparr>) sv'"
proof -
  let ?sv = "demo_server\<lparr>sv_cancelled := True\<rparr>"
  obtain sv' where a: "active_step demo_env ?sv sv'"
    using cancelled_progress [of ?sv demo_env]
    by (auto simp: all_over_def tasks_of_def demo_server_def server_new_def)
  then have "(active_step demo_env ^^ 1) ?sv sv'" by (simp only: relpowp_1)
  from shutdown_completes [OF _ this] a show ?thesis by auto
qed

end
