(* ===== verification/Program.thy ===== *)
theory Program
  imports ServerProps Config
begin

text \<open>
  The binary (\<open>main.rs\<close>) and the start of the process (\<open>config_from_env\<close> and
  \<open>handle_signals\<close> of \<open>lib.rs\<close>). Reading the environment and registering a signal handler
  belong to other crates and to the operating system: their results are arguments.
\<close>

definition newline :: string where
  "newline = [CHR 0x0A]"

text \<open>\<open>print_help\<close>; \<open>println!\<close> ends the text with a newline of its own.\<close>

definition print_help :: "string \<Rightarrow> env_item list \<Rightarrow> string" where
  "print_help pkg_version inventory =
     ''Signet order tracker server v'' @ pkg_version @ newline @ newline @
     ''Run with no args. The process will run until it receives a SIGTERM or SIGINT signal.'' @
     newline @ newline @ ''Configuration is via the following environment variables:'' @ newline @
     env_var_info inventory @ newline @ newline"

definition help_requested :: "string list \<Rightarrow> bool" where
  "help_requested args = list_ex (\<lambda>arg. arg = ''-h'' \<or> arg = ''--help'') args"

definition config_from_env :: "report + 'c \<Rightarrow> report + 'c" where
  "config_from_env loaded =
     wrap_err ''failed to load tracker config (run with '--help' to see required env vars)'' loaded"

text \<open>\<open>handle_signals\<close>: a fresh token, once both handlers are registered.\<close>

definition handle_signals :: "report + unit \<Rightarrow> report + unit \<Rightarrow> report + bool" where
  "handle_signals sigint sigterm =
     (case wrap_err ''failed to register SIGINT handler'' sigint of
        Inl e \<Rightarrow> Inl e
      | Inr _ \<Rightarrow> (case wrap_err ''failed to register SIGTERM handler'' sigterm of
          Inl e \<Rightarrow> Inl e
        | Inr _ \<Rightarrow> Inr False))"

text \<open>What the process has done when \<open>main\<close> gets to the tasks, or without them.\<close>

datatype 'w program = Printed string | Stopped_Early | Serving "'w server"

definition program_start ::
  "'w env \<Rightarrow> string \<Rightarrow> env_item list \<Rightarrow> string list \<Rightarrow> report + 'c \<Rightarrow> report + unit \<Rightarrow> report + unit \<Rightarrow>
     (report + unit) list \<Rightarrow> 'w \<Rightarrow> 'w \<Rightarrow> 'w \<Rightarrow> report + 'w program" where
  "program_start env pkg_version inventory args loaded sigint sigterm connections w_manager w_blocks w_discovery =
     (if help_requested args then Inr (Printed (print_help pkg_version inventory))
      else case config_from_env loaded of
        Inl e \<Rightarrow> Inl e
      | Inr _ \<Rightarrow> (case handle_signals sigint sigterm of
          Inl e \<Rightarrow> Inl e
        | Inr _ \<Rightarrow> (case startup env connections w_manager w_blocks w_discovery of
            Inl e \<Rightarrow> Inl e
          | Inr None \<Rightarrow> Inr Stopped_Early
          | Inr (Some sv) \<Rightarrow> Inr (Serving sv))))"

text \<open>\<open>tasks.await\<close>: the result of the process, once there is one.\<close>

definition program_result :: "string \<Rightarrow> 'w program \<Rightarrow> (report + unit) option" where
  "program_result msg p = (case p of
     Printed _ \<Rightarrow> Some (Inr ()) | Stopped_Early \<Rightarrow> Some (Inr ()) | Serving sv \<Rightarrow> into_future (handles_of msg sv))"

section \<open>Lemmas\<close>

lemma handle_signals_ok: "handle_signals sigint sigterm = Inr token \<longleftrightarrow> \<not> token \<and> sigint = Inr () \<and> sigterm = Inr ()"
  by (cases sigint; cases sigterm) (simp_all add: handle_signals_def wrap_err_def)

lemma config_from_env_ok: "config_from_env loaded = Inr c \<longleftrightarrow> loaded = Inr c"
  by (cases loaded) (simp_all add: config_from_env_def wrap_err_def)

lemma startup_ok:
  "(\<exists>sv. startup env connections w1 w2 w3 = Inr (Some sv)) \<longleftrightarrow> try_join 5 connections = Some (Inr ()) \<and>
     (\<exists>ru w. q_block_number env Rollup w2 = (Inr ru, w) \<and> (\<exists>host w'. q_block_number env Host w = (Inr host, w')))"
  by (auto simp: startup_def block_watcher_new_def wrap_err_def split: option.splits sum.splits prod.splits)

lemma program_start_serving:
  "program_start env v inventory args loaded sigint sigterm connections w1 w2 w3 = Inr (Serving sv) \<longleftrightarrow>
     \<not> help_requested args \<and> (\<exists>c. loaded = Inr c) \<and> handle_signals sigint sigterm = Inr False \<and>
     startup env connections w1 w2 w3 = Inr (Some sv)"
  by (cases loaded; cases sigint; cases sigterm; cases "startup env connections w1 w2 w3")
    (auto simp: program_start_def config_from_env_def wrap_err_def handle_signals_def split: option.splits)

section \<open>Properties\<close>

text \<open>
  C38: the process serves exactly when everything it needs is there. Without a help flag it gets
  to serving if and only if the configuration loads, both signal handlers register, all five
  connections succeed before a cancellation and both chains answer their first block number;
  then all five tasks are running and the process has no result yet; and a help flag alone
  decides that it only prints.
\<close>

theorem program_serves_iff:
  "((\<exists>sv. program_start env v inventory args loaded sigint sigterm connections w1 w2 w3 = Inr (Serving sv)) \<longleftrightarrow>
      \<not> help_requested args \<and> (\<exists>c. loaded = Inr c) \<and> sigint = Inr () \<and> sigterm = Inr () \<and>
      try_join 5 connections = Some (Inr ()) \<and> (\<exists>ru w. q_block_number env Rollup w2 = (Inr ru, w) \<and>
        (\<exists>host w'. q_block_number env Host w = (Inr host, w')))) \<and>
   (program_start env v inventory args loaded sigint sigterm connections w1 w2 w3 = Inr (Serving sv) \<longrightarrow>
      reachable env sv \<and> set (tasks_of sv) = {T_Running} \<and> \<not> sv_cancelled sv \<and>
      program_result msg (Serving sv) = None)"
proof -
  have "reachable env sv \<and> set (tasks_of sv) = {T_Running} \<and> \<not> sv_cancelled sv \<and> program_result msg (Serving sv) = None"
    if "program_start env v inventory args loaded sigint sigterm connections w1 w2 w3 = Inr (Serving sv)"
  proof -
    have s: "startup env connections w1 w2 w3 = Inr (Some sv)" using that by (simp add: program_start_serving)
    from startup_eq [OF this] obtain tip w where "sv = server_new env w1 w w3 tip" by blast
    then show ?thesis using reachable.start [OF s]
      by (simp add: tasks_of_def server_new_def program_result_def into_future_def handles_of_def joined_of_def)
  qed
  then show ?thesis
    unfolding program_start_serving using startup_ok [of env connections w1 w2 w3] handle_signals_ok [of sigint sigterm False]
    by blast
qed

theorem program_serves_iff_witness:
  "\<exists>sv. program_start demo_env ''0.1'' [] [''tracker''] (Inr ()) (Inr ()) (Inr ()) (replicate 5 (Inr ())) [] [] [] =
     Inr (Serving sv) \<and> reachable demo_env sv"
proof -
  have h: "\<not> help_requested [''tracker'']" by (simp add: help_requested_def)
  have q: "q_block_number demo_env ch [] = (Inr 500, [])" for ch by (simp add: demo_env_def)
  show ?thesis
    using program_serves_iff [of demo_env "''0.1''" "[]" "[''tracker'']" "Inr ()" "Inr ()" "Inr ()" "replicate 5 (Inr ())" "[]" "[]" "[]"]
      h q demo_joined by blast
qed

end
