(* ===== verification/Service.thy ===== *)
theory Service
  imports OrderTrackerProps Metrics Tasks
begin

text \<open>
  The HTTP service (\<open>service.rs\<close>): routes, the status endpoint and its error answers, and the
  exit of the server task. Parsing a hash and printing one belong to the \<open>alloy\<close> crate and are
  parameters; a JSON body is the value it is printed from.
\<close>

section \<open>Answers\<close>

datatype body =
    Body_Health string
  | Body_Error string
  | Body_Report order_status
  | Body_Text string
  | Body_Empty

record response =
  rs_status :: nat
  rs_body :: body

definition healthcheck :: response where
  "healthcheck = \<lparr>rs_status = 200, rs_body = Body_Health ''ok''\<rparr>"

definition route_not_found :: "string \<Rightarrow> response" where
  "route_not_found uri = \<lparr>rs_status = 404, rs_body = Body_Error (''No route for '' @ uri)\<rparr>"

definition parse_order_hash :: "(string \<Rightarrow> string + b256) \<Rightarrow> string \<Rightarrow> response + b256" where
  "parse_order_hash from_str raw =
     (case from_str raw of
        Inl error \<Rightarrow> Inl \<lparr>rs_status = 400, rs_body = Body_Error (''malformed order hash: '' @ error)\<rparr>
      | Inr hash \<Rightarrow> Inr hash)"

text \<open>
  \<open>GET /orders/{order_hash}\<close>: the answer, with the tracker and the metrics after it, or a panic
  of the tracker. \<open>elapsed\<close> is what the clock measures between the two readings.
\<close>

definition order_status_get ::
  "'w env \<Rightarrow> (string \<Rightarrow> string + b256) \<Rightarrow> (b256 \<Rightarrow> string) \<Rightarrow> nat \<Rightarrow> string \<Rightarrow> 'w tracker \<Rightarrow> metrics \<Rightarrow>
     (response \<times> 'w tracker \<times> metrics) option" where
  "order_status_get env from_str show elapsed raw_hash s m =
     (case parse_order_hash from_str raw_hash of
        Inl response \<Rightarrow> Some (response, s, m)
      | Inr order_hash \<Rightarrow> do {
          (result, s') \<leftarrow> status env order_hash s;
          let (response, m') = (case result of
              Inr report \<Rightarrow> (\<lparr>rs_status = 200, rs_body = Body_Report report\<rparr>, record_request RR_Success m)
            | Inl (OrderNotFound _) \<Rightarrow>
                (\<lparr>rs_status = 404, rs_body = Body_Error ''order not found in tx-cache''\<rparr>,
                 record_request RR_NotFound m)
            | Inl err \<Rightarrow>
                (\<lparr>rs_status = 500, rs_body = Body_Error (error_display show False err)\<rparr>,
                 record_request RR_Error m));
          Some (response, s', record_request_duration elapsed m')
        })"

section \<open>Routes\<close>

text \<open>
  The route table, over the segments of a path. The router prefers a literal segment to a
  parameter, whatever the order of registration, and a parameter stands for a segment that is not
  empty.
\<close>

datatype endpoint =
    EP_Healthcheck
  | EP_Order_Status string
  | EP_Single_Order_Ws string
  | EP_All_Orders_Ws
  | EP_Not_Found

fun route :: "string list \<Rightarrow> endpoint" where
  "route [a] = (if a = ''healthcheck'' then EP_Healthcheck else EP_Not_Found)"
| "route [a, b] =
     (if a = ''orders'' then (if b = ''ws'' then EP_All_Orders_Ws else if b = [] then EP_Not_Found else EP_Order_Status b)
      else EP_Not_Found)"
| "route [a, b, c] = (if a = ''orders'' \<and> b \<noteq> [] \<and> c = ''ws'' then EP_Single_Order_Ws b else EP_Not_Found)"
| "route _ = EP_Not_Found"

section \<open>The server task\<close>

text \<open>
  \<open>serve_tracker\<close>: the results of binding the port and of serving, and whether the token is
  cancelled at the exit.
\<close>

definition serve_tracker ::
  "(u16 \<Rightarrow> string) \<Rightarrow> (report + unit) \<Rightarrow> (report + unit) \<Rightarrow> u16 \<Rightarrow> bool \<Rightarrow> (report + unit) \<times> bool" where
  "serve_tracker show_port bind_result serve_result port cancelled =
     handle_task_exit ''server''
       (case wrap_err (''failed to bind tracker server on port '' @ show_port port) bind_result of
          Inl e \<Rightarrow> Inl e
        | Inr _ \<Rightarrow> wrap_err ''failed serving tracker'' serve_result)
       cancelled"

section \<open>Lemmas\<close>

text \<open>The first item of the cache's stream that decides a look-up.\<close>

definition deciding :: "b256 \<Rightarrow> ext_error + signed_order \<Rightarrow> bool" where
  "deciding h item = (case item of Inl _ \<Rightarrow> True | Inr order \<Rightarrow> so_hash order = h)"

lemma try_next_order_find:
  "try_next_order (\<lambda>order. so_hash order = h) items =
     (case find (deciding h) items of
        None \<Rightarrow> Inr None
      | Some (Inl e) \<Rightarrow> Inl e
      | Some (Inr order) \<Rightarrow> Inr (Some order))"
proof (induction items)
  case (Cons item items)
  then show ?case by (cases item) (auto simp: deciding_def)
qed simp

lemma find_deciding: "find (deciding h) items = Some (Inr order) \<Longrightarrow> so_hash order = h"
  by (induction items) (auto simp: deciding_def split: if_splits)

lemma status_cases:
  assumes "status env h s = Some (result, s')"
  shows "case find (deciding h) (fst (q_stream_orders env (snd s))) of
      None \<Rightarrow> result = Inl (OrderNotFound h)
    | Some (Inl e) \<Rightarrow> result = Inl (TxCacheFailed e)
    | Some (Inr order) \<Rightarrow> \<exists>st w. result = Inr st \<and>
        status_for_order env order True (fst s, w) = Some (st, s')"
  using assms
  by (auto simp: status_def fetch_order_def try_next_order_find split: prod.splits option.splits sum.splits)

section \<open>Properties\<close>

text \<open>
  C25: the status endpoint's answer is decided by the hash and the cache. A malformed hash gets
  400 and touches neither tracker nor metrics; otherwise the first item of the cache's stream
  that is an error or an order with this hash decides: none gives 404, an error 500, an order
  200 with a status about exactly that order; and each request with a well-formed hash counts
  once, under the label of its outcome only, with one duration sample.
\<close>

theorem status_endpoint_exact:
  assumes "order_status_get env from_str show elapsed raw s m = Some (resp, s', m')"
  shows "case from_str raw of
      Inl _ \<Rightarrow> rs_status resp = 400 \<and> s' = s \<and> m' = m
    | Inr h \<Rightarrow>
        m_request_durations m' = m_request_durations m @ [elapsed] \<and>
        (case find (\<lambda>item. case item of Inl _ \<Rightarrow> True | Inr order \<Rightarrow> so_hash order = h)
            (fst (q_stream_orders env (snd s))) of
           None \<Rightarrow> rs_status resp = 404 \<and> rs_body resp = Body_Error ''order not found in tx-cache'' \<and>
             m_requests m' = (m_requests m)(''not_found'' := Suc (m_requests m ''not_found''))
         | Some (Inl e) \<Rightarrow> rs_status resp = 500 \<and> rs_body resp = Body_Error ''tx-cache request failed'' \<and>
             m_requests m' = (m_requests m)(''error'' := Suc (m_requests m ''error''))
         | Some (Inr order) \<Rightarrow> rs_status resp = 200 \<and>
             (\<exists>st. rs_body resp = Body_Report st \<and> status_order_hash st = h \<and> status_owner st = so_owner order) \<and>
             m_requests m' = (m_requests m)(''success'' := Suc (m_requests m ''success'')))"
proof (cases "from_str raw")
  case (Inl e)
  then show ?thesis using assms by (auto simp: order_status_get_def parse_order_hash_def)
next
  case (Inr h)
  from assms Inr obtain result where st: "status env h s = Some (result, s')"
    by (auto simp: order_status_get_def parse_order_hash_def split: Option.bind_splits prod.splits)
  note out = assms [unfolded order_status_get_def parse_order_hash_def Inr sum.case st bind.bind_lunit]
  note labels = record_request_def record_request_duration_def increment_def request_result_as_str_def
    error_display_def
  have fold: "(\<lambda>item. case item of Inl _ \<Rightarrow> True | Inr order \<Rightarrow> so_hash order = h) = deciding h"
    by (simp add: deciding_def fun_eq_iff)
  show ?thesis
    unfolding Inr sum.case fold
    using status_cases [OF st] out find_deciding [of h "fst (q_stream_orders env (snd s))"]
    by (auto simp: labels split: option.splits sum.splits dest: status_for_order_identity)
qed

theorem status_endpoint_exact_witness:
  "\<exists>resp s' m'. order_status_get demo_env (\<lambda>_. Inr 5) (\<lambda>_. ''0x5'') 3 ''0x5'' (tracker_new demo_env []) metrics_new =
     Some (resp, s', m') \<and> rs_status resp = 404 \<and> m_requests m' ''not_found'' = 1"
proof -
  obtain resp s' m' where g: "order_status_get demo_env (\<lambda>_. Inr 5) (\<lambda>_. ''0x5'') 3 ''0x5''
      (tracker_new demo_env []) metrics_new = Some (resp, s', m')"
    by (auto simp: order_status_get_def parse_order_hash_def status_def fetch_order_def demo_env_def)
  then show ?thesis using status_endpoint_exact [OF g] by (simp add: demo_env_def metrics_new_def)
qed

end
