(* ===== verification/WsHandlers.thy ===== *)
theory WsHandlers
  imports StateManager
begin

text \<open>
  The WebSocket handlers (\<open>ws/handlers.rs\<close>, \<open>ws/messages.rs\<close>): the single-order session,
  the all-orders session and its filter. What a handler selects on is an input list: statuses
  and errors from the broadcast receiver, messages from the client. The client's side of the
  connection is an oracle that says, for each attempt to send, whether it completes within the
  timeout; the JSON printer and the parser of filters are parameters.
\<close>

section \<open>Filters\<close>

datatype status_filter = SF_Pending | SF_Filled | SF_Expired

record order_filter =
  of_owners :: "address list option"
  of_statuses :: "status_filter list option"

definition order_filter_default :: order_filter where
  "order_filter_default = \<lparr>of_owners = None, of_statuses = None\<rparr>"

fun filter_status_matches :: "status_filter \<Rightarrow> order_status \<Rightarrow> bool" where
  "filter_status_matches SF_Pending (Pending _ _ _) = True"
| "filter_status_matches SF_Filled (Filled _ _ _) = True"
| "filter_status_matches SF_Expired (Expired _ _ _) = True"
| "filter_status_matches _ _ = False"

definition matches_filter :: "order_status \<Rightarrow> order_filter \<Rightarrow> bool" where
  "matches_filter st f =
     (let status_matches = (case of_statuses f of
            None \<Rightarrow> True
          | Some statuses \<Rightarrow> list_ex (\<lambda>filter_status. filter_status_matches filter_status st) statuses)
      in if \<not> status_matches then False
         else case of_owners f of
             None \<Rightarrow> True
           | Some owners \<Rightarrow> if \<not> List.member owners (status_owner st) then False else True)"

section \<open>The connection\<close>

datatype ws_message = WM_Text string | WM_Close

record connection =
  cn_attempts :: nat
  cn_sent :: "ws_message list"
  cn_closed :: bool
  cn_requests :: "signed_order list"
  cn_metrics :: metrics

type_synonym network = "nat \<Rightarrow> bool"

definition timed_send :: "network \<Rightarrow> ws_message \<Rightarrow> connection \<Rightarrow> bool \<times> connection" where
  "timed_send net message c =
     (if net (cn_attempts c)
      then (True, c\<lparr>cn_attempts := Suc (cn_attempts c), cn_sent := cn_sent c @ [message]\<rparr>)
      else (False, c\<lparr>cn_attempts := Suc (cn_attempts c)\<rparr>))"

definition send_status ::
  "network \<Rightarrow> (order_status \<Rightarrow> string option) \<Rightarrow> ws_endpoint \<Rightarrow> order_status \<Rightarrow> connection \<Rightarrow> bool \<times> connection" where
  "send_status net to_string endpoint st c =
     (case to_string st of
        None \<Rightarrow> (False, c)
      | Some json \<Rightarrow>
          (case timed_send net (WM_Text json) c of
             (False, c') \<Rightarrow> (False, c')
           | (True, c') \<Rightarrow> (True, c'\<lparr>cn_metrics := ws_message_sent endpoint (cn_metrics c')\<rparr>)))"

definition close_connection :: "network \<Rightarrow> connection \<Rightarrow> connection" where
  "close_connection net c = (snd (timed_send net WM_Close c))\<lparr>cn_closed := True\<rparr>"

text \<open>\<open>WsMetricsGuard\<close>: created when a session starts, dropped on every way out of it.\<close>

definition guard_new :: "ws_endpoint \<Rightarrow> connection \<Rightarrow> connection" where
  "guard_new endpoint c = c\<lparr>cn_metrics := ws_connection_opened endpoint (cn_metrics c)\<rparr>"

definition guard_drop :: "ws_endpoint \<Rightarrow> connection \<Rightarrow> connection" where
  "guard_drop endpoint c = c\<lparr>cn_metrics := ws_connection_closed endpoint (cn_metrics c)\<rparr>"

section \<open>Sessions\<close>

text \<open>What an iteration of a session's loop selects.\<close>

datatype ws_input =
    WI_Update order_status
  | WI_Lagged nat
  | WI_Updates_Closed
  | WI_Text string
  | WI_Disconnected
  | WI_Other

datatype session = Open | Ended

fun single_order_loop ::
  "network \<Rightarrow> (order_status \<Rightarrow> string option) \<Rightarrow> b256 \<Rightarrow> ws_input list \<Rightarrow> connection \<Rightarrow> session \<times> connection" where
  "single_order_loop net to_string order_hash [] c = (Open, c)"
| "single_order_loop net to_string order_hash (WI_Update st # inputs) c =
     (if status_order_hash st = order_hash
      then let terminal = is_terminal st
           in case send_status net to_string WS_Single st c of
                (False, c') \<Rightarrow> (Ended, c')
              | (True, c') \<Rightarrow>
                  if terminal then (Ended, close_connection net c')
                  else single_order_loop net to_string order_hash inputs c'
      else single_order_loop net to_string order_hash inputs c)"
| "single_order_loop net to_string order_hash (WI_Lagged missed # inputs) c =
     single_order_loop net to_string order_hash inputs c"
| "single_order_loop net to_string order_hash (WI_Updates_Closed # inputs) c = (Ended, close_connection net c)"
| "single_order_loop net to_string order_hash (WI_Disconnected # inputs) c = (Ended, c)"
| "single_order_loop net to_string order_hash (WI_Text _ # inputs) c =
     single_order_loop net to_string order_hash inputs c"
| "single_order_loop net to_string order_hash (WI_Other # inputs) c =
     single_order_loop net to_string order_hash inputs c"

text \<open>
  The part of \<open>handle_single_order\<close> between the guard and the loop. The look-up's error is
  discarded (\<open>.ok().flatten()\<close>); \<open>manager_open\<close> says whether the request can be sent, and
  \<open>report\<close> is what arrives on the oneshot channel. \<open>update_sender.subscribe()\<close> comes after the
  report has been sent: the inputs are what is broadcast from then on.
\<close>

definition single_order_session ::
  "network \<Rightarrow> (order_status \<Rightarrow> string option) \<Rightarrow> string \<Rightarrow> b256 \<Rightarrow> (ext_error + signed_order) list \<Rightarrow> bool \<Rightarrow>
     order_status option \<Rightarrow> ws_input list \<Rightarrow> connection \<Rightarrow> session \<times> connection" where
  "single_order_session net to_string not_found order_hash stream manager_open report inputs c =
     (case (case try_next_order (\<lambda>order. so_hash order = order_hash) stream of
              Inl _ \<Rightarrow> None | Inr found \<Rightarrow> found) of
        None \<Rightarrow> (Ended, close_connection net (snd (timed_send net (WM_Text not_found) c)))
      | Some order \<Rightarrow>
          if \<not> manager_open then (Ended, close_connection net c)
          else
            let c1 = c\<lparr>cn_requests := cn_requests c @ [order]\<rparr>
            in case report of
                 None \<Rightarrow> (Ended, close_connection net c1)
               | Some initial_report \<Rightarrow>
                   (case send_status net to_string WS_Single initial_report c1 of
                      (False, c2) \<Rightarrow> (Ended, c2)
                    | (True, c2) \<Rightarrow>
                        if is_terminal initial_report then (Ended, close_connection net c2)
                        else single_order_loop net to_string order_hash inputs c2))"

definition handle_single_order ::
  "network \<Rightarrow> (order_status \<Rightarrow> string option) \<Rightarrow> string \<Rightarrow> b256 \<Rightarrow> (ext_error + signed_order) list \<Rightarrow> bool \<Rightarrow>
     order_status option \<Rightarrow> ws_input list \<Rightarrow> connection \<Rightarrow> session \<times> connection" where
  "handle_single_order net to_string not_found order_hash stream manager_open report inputs c =
     (case single_order_session net to_string not_found order_hash stream manager_open report inputs
         (guard_new WS_Single c) of
        (Open, c') \<Rightarrow> (Open, c')
      | (Ended, c') \<Rightarrow> (Ended, guard_drop WS_Single c'))"

fun send_snapshot_loop ::
  "network \<Rightarrow> (order_status \<Rightarrow> string option) \<Rightarrow> order_status list \<Rightarrow> connection \<Rightarrow> bool \<times> connection" where
  "send_snapshot_loop net to_string [] c = (True, c)"
| "send_snapshot_loop net to_string (st # sts) c =
     (case send_status net to_string WS_All st c of
        (False, c') \<Rightarrow> (False, c')
      | (True, c') \<Rightarrow> send_snapshot_loop net to_string sts c')"

fun all_orders_loop ::
  "network \<Rightarrow> (order_status \<Rightarrow> string option) \<Rightarrow> (string \<Rightarrow> order_filter option) \<Rightarrow> order_filter \<Rightarrow>
     ws_input list \<Rightarrow> connection \<Rightarrow> session \<times> connection" where
  "all_orders_loop net to_string parse f [] c = (Open, c)"
| "all_orders_loop net to_string parse f (WI_Update st # inputs) c =
     (if matches_filter st f
      then case send_status net to_string WS_All st c of
             (False, c') \<Rightarrow> (Ended, c')
           | (True, c') \<Rightarrow> all_orders_loop net to_string parse f inputs c'
      else all_orders_loop net to_string parse f inputs c)"
| "all_orders_loop net to_string parse f (WI_Lagged missed # inputs) c =
     all_orders_loop net to_string parse f inputs c"
| "all_orders_loop net to_string parse f (WI_Updates_Closed # inputs) c = (Ended, close_connection net c)"
| "all_orders_loop net to_string parse f (WI_Text text # inputs) c =
     (case parse text of
        Some new_filter \<Rightarrow> all_orders_loop net to_string parse new_filter inputs c
      | None \<Rightarrow> all_orders_loop net to_string parse f inputs c)"
| "all_orders_loop net to_string parse f (WI_Disconnected # inputs) c = (Ended, c)"
| "all_orders_loop net to_string parse f (WI_Other # inputs) c =
     all_orders_loop net to_string parse f inputs c"

text \<open>
  The part of \<open>handle_all_orders\<close> after the guard: the subscription comes first, so the inputs
  hold every status broadcast from before the snapshot is requested on; a dropped oneshot
  channel (\<^term>\<open>None\<close>) only skips the snapshot.
\<close>

definition all_orders_session ::
  "network \<Rightarrow> (order_status \<Rightarrow> string option) \<Rightarrow> (string \<Rightarrow> order_filter option) \<Rightarrow> bool \<Rightarrow>
     order_status list option \<Rightarrow> ws_input list \<Rightarrow> connection \<Rightarrow> session \<times> connection" where
  "all_orders_session net to_string parse manager_open snapshot inputs c =
     (let f = order_filter_default
      in if \<not> manager_open then (Ended, close_connection net c)
         else case snapshot of
             None \<Rightarrow> all_orders_loop net to_string parse f inputs c
           | Some statuses \<Rightarrow>
               (case send_snapshot_loop net to_string statuses c of
                  (False, c') \<Rightarrow> (Ended, c')
                | (True, c') \<Rightarrow> all_orders_loop net to_string parse f inputs c'))"

definition handle_all_orders ::
  "network \<Rightarrow> (order_status \<Rightarrow> string option) \<Rightarrow> (string \<Rightarrow> order_filter option) \<Rightarrow> bool \<Rightarrow>
     order_status list option \<Rightarrow> ws_input list \<Rightarrow> connection \<Rightarrow> session \<times> connection" where
  "handle_all_orders net to_string parse manager_open snapshot inputs c =
     (case all_orders_session net to_string parse manager_open snapshot inputs (guard_new WS_All c) of
        (Open, c') \<Rightarrow> (Open, c')
      | (Ended, c') \<Rightarrow> (Ended, guard_drop WS_All c'))"

section \<open>Lemmas\<close>

text \<open>A client that accepts every message, and statuses that all serialize.\<close>

definition reliable :: "network \<Rightarrow> (order_status \<Rightarrow> string option) \<Rightarrow> bool" where
  "reliable net to_string \<longleftrightarrow> (\<forall>n. net n) \<and> (\<forall>st. to_string st \<noteq> None)"

definition texts :: "(order_status \<Rightarrow> string option) \<Rightarrow> order_status list \<Rightarrow> ws_message list" where
  "texts to_string sts = map (\<lambda>st. WM_Text (the (to_string st))) sts"

lemma texts_simps [simp]:
  "texts ts [] = []" "texts ts (st # sts) = WM_Text (the (ts st)) # texts ts sts"
  "texts ts (sts @ sts') = texts ts sts @ texts ts sts'"
  by (simp_all add: texts_def)

text \<open>Inputs during which the client stays and the broadcast channel is open, and their statuses.\<close>

definition persistent :: "ws_input list \<Rightarrow> bool" where
  "persistent inputs \<longleftrightarrow> WI_Disconnected \<notin> set inputs \<and> WI_Updates_Closed \<notin> set inputs"

fun updates_of :: "ws_input list \<Rightarrow> order_status list" where
  "updates_of [] = []"
| "updates_of (WI_Update st # inputs) = st # updates_of inputs"
| "updates_of (_ # inputs) = updates_of inputs"

lemma persistent_simps [simp]:
  "persistent []"
  "persistent (i # inputs) \<longleftrightarrow> i \<noteq> WI_Disconnected \<and> i \<noteq> WI_Updates_Closed \<and> persistent inputs"
  "persistent (inputs @ inputs') \<longleftrightarrow> persistent inputs \<and> persistent inputs'"
  by (auto simp: persistent_def)

lemma updates_of_map [simp]: "updates_of (map WI_Update us) = us" "persistent (map WI_Update us)"
  by (induction us) (auto simp: persistent_def)

lemma send_status_reliable:
  assumes "reliable net ts"
  shows "\<exists>c'. send_status net ts e st c = (True, c') \<and> cn_sent c' = cn_sent c @ [WM_Text (the (ts st))] \<and>
    cn_requests c' = cn_requests c"
proof -
  from assms obtain json where "ts st = Some json" by (auto simp: reliable_def)
  then show ?thesis using assms by (simp add: send_status_def timed_send_def reliable_def)
qed

lemma close_connection_reliable:
  "reliable net ts \<Longrightarrow> cn_sent (close_connection net c) = cn_sent c @ [WM_Close]"
  "reliable net ts \<Longrightarrow> cn_requests (close_connection net c) = cn_requests c"
  by (simp_all add: close_connection_def timed_send_def reliable_def)

text \<open>The statuses up to and including the first terminal one.\<close>

fun until_terminal :: "order_status list \<Rightarrow> order_status list" where
  "until_terminal [] = []"
| "until_terminal (st # sts) = st # (if is_terminal st then [] else until_terminal sts)"

lemma until_terminal_prefix: "\<exists>rest. sts = until_terminal sts @ rest"
  by (induction sts) auto

lemma until_terminal_all: "list_all (\<lambda>st. \<not> is_terminal st) sts \<Longrightarrow> until_terminal sts = sts"
  by (induction sts) auto

definition closing :: "order_status list \<Rightarrow> ws_message list" where
  "closing sts = (if list_ex is_terminal sts then [WM_Close] else [])"

lemma single_order_loop_effect:
  fixes h :: b256
  assumes "reliable net ts" "persistent inputs"
  defines "mine \<equiv> filter (\<lambda>st. status_order_hash st = h) (updates_of inputs)"
  shows "\<exists>c'. single_order_loop net ts h inputs c = (if list_ex is_terminal mine then Ended else Open, c') \<and>
    cn_sent c' = cn_sent c @ texts ts (until_terminal mine) @ closing mine \<and> cn_requests c' = cn_requests c"
  using assms(1,2) unfolding mine_def
proof (induction net ts h inputs c rule: single_order_loop.induct)
  case (2 net ts h st inputs c)
  obtain c1 where c1: "send_status net ts WS_Single st c = (True, c1)"
    "cn_sent c1 = cn_sent c @ [WM_Text (the (ts st))]" "cn_requests c1 = cn_requests c"
    using send_status_reliable [OF "2.prems"(1)] by blast
  show ?case
  proof (cases "status_order_hash st = h \<and> \<not> is_terminal st")
    case True
    with "2.IH"(1) [OF _ refl c1(1) [symmetric] refl] "2.prems" c1 show ?thesis
      by (auto simp: closing_def)
  next
    case False
    then show ?thesis using 2 c1 close_connection_reliable [OF "2.prems"(1)]
      by (auto simp: closing_def)
  qed
qed (simp_all add: closing_def)

lemma handle_single_order_effect:
  fixes h :: b256
  assumes rel: "reliable net to_string" and per: "persistent inputs"
    and found: "try_next_order (\<lambda>order. so_hash order = h) stream = Inr (Some order)"
  defines "sts \<equiv> \<lambda>report. report # filter (\<lambda>st. status_order_hash st = h) (updates_of inputs)"
  shows "\<exists>c'. handle_single_order net to_string not_found h stream True (Some report) inputs c =
      (if list_ex is_terminal (sts report) then Ended else Open, c') \<and>
    cn_requests c' = cn_requests c @ [order] \<and>
    cn_sent c' = cn_sent c @ texts to_string (until_terminal (sts report)) @ closing (sts report)"
proof -
  let ?mine = "filter (\<lambda>st. status_order_hash st = h) (updates_of inputs)"
  let ?c0 = "guard_new WS_Single c\<lparr>cn_requests := cn_requests (guard_new WS_Single c) @ [order]\<rparr>"
  obtain c1 where c1: "send_status net to_string WS_Single report ?c0 = (True, c1)"
    "cn_sent c1 = cn_sent c @ [WM_Text (the (to_string report))]" "cn_requests c1 = cn_requests c @ [order]"
    using send_status_reliable [OF rel, of WS_Single report ?c0] by (auto simp: guard_new_def)
  obtain c2 where c2: "single_order_loop net to_string h inputs c1 =
      (if list_ex is_terminal ?mine then Ended else Open, c2)"
    "cn_sent c2 = cn_sent c1 @ texts to_string (until_terminal ?mine) @ closing ?mine"
    "cn_requests c2 = cn_requests c1"
    using single_order_loop_effect [OF rel per] by blast
  show ?thesis
    using c1 c2 found close_connection_reliable [OF rel, of c1]
    by (auto simp: sts_def handle_single_order_def single_order_session_def Let_def guard_drop_def closing_def)
qed

lemma send_snapshot_loop_effect:
  assumes "reliable net ts"
  shows "\<exists>c'. send_snapshot_loop net ts sts c = (True, c') \<and> cn_sent c' = cn_sent c @ texts ts sts"
proof (induction sts arbitrary: c)
  case (Cons st sts)
  obtain c1 where "send_status net ts WS_All st c = (True, c1)"
    "cn_sent c1 = cn_sent c @ [WM_Text (the (ts st))]"
    using send_status_reliable [OF assms] by blast
  then show ?case using Cons [of c1] by auto
qed simp

text \<open>The filter in force after some inputs, and the statuses forwarded for them.\<close>

fun filter_after :: "(string \<Rightarrow> order_filter option) \<Rightarrow> order_filter \<Rightarrow> ws_input list \<Rightarrow> order_filter" where
  "filter_after parse f [] = f"
| "filter_after parse f (WI_Text text # inputs) =
     filter_after parse (case parse text of Some f' \<Rightarrow> f' | None \<Rightarrow> f) inputs"
| "filter_after parse f (_ # inputs) = filter_after parse f inputs"

fun forwarded :: "(string \<Rightarrow> order_filter option) \<Rightarrow> order_filter \<Rightarrow> ws_input list \<Rightarrow> order_status list" where
  "forwarded parse f [] = []"
| "forwarded parse f (WI_Update st # inputs) =
     (if matches_filter st f then [st] else []) @ forwarded parse f inputs"
| "forwarded parse f (WI_Text text # inputs) =
     forwarded parse (case parse text of Some f' \<Rightarrow> f' | None \<Rightarrow> f) inputs"
| "forwarded parse f (_ # inputs) = forwarded parse f inputs"

lemma forwarded_append:
  "forwarded parse f (inputs @ inputs') = forwarded parse f inputs @ forwarded parse (filter_after parse f inputs) inputs'"
  by (induction parse f inputs rule: forwarded.induct) (simp_all split: option.split)

lemma forwarded_unparsed:
  "\<forall>text. WI_Text text \<in> set inputs \<longrightarrow> parse text = None \<Longrightarrow>
     forwarded parse f inputs = filter (\<lambda>st. matches_filter st f) (updates_of inputs)"
  by (induction parse f inputs rule: forwarded.induct) auto

lemma forwarded_subset: "set (forwarded parse f inputs) \<subseteq> set (updates_of inputs)"
  by (induction parse f inputs rule: forwarded.induct) auto

lemma all_orders_loop_effect:
  assumes "reliable net ts" "persistent inputs"
  shows "\<exists>c'. all_orders_loop net ts parse f inputs c = (Open, c') \<and>
    cn_sent c' = cn_sent c @ texts ts (forwarded parse f inputs)"
  using assms
proof (induction net ts parse f inputs c rule: all_orders_loop.induct)
  case (2 net ts parse f st inputs c)
  obtain c1 where c1: "send_status net ts WS_All st c = (True, c1)"
    "cn_sent c1 = cn_sent c @ [WM_Text (the (ts st))]"
    using send_status_reliable [OF "2.prems"(1)] by blast
  show ?case
  proof (cases "matches_filter st f")
    case True
    with "2.IH"(1) [OF True c1(1) [symmetric] refl] "2.prems" c1 show ?thesis by auto
  next
    case False
    then show ?thesis using 2 by simp
  qed
qed (auto split: option.split)

lemma handle_all_orders_effect:
  assumes "reliable net ts" "persistent inputs"
  shows "\<exists>c'. handle_all_orders net ts parse True (Some snapshot) inputs c = (Open, c') \<and>
    cn_sent c' = cn_sent c @ texts ts (snapshot @ forwarded parse order_filter_default inputs)"
proof -
  obtain c1 where c1: "send_snapshot_loop net ts snapshot (guard_new WS_All c) = (True, c1)"
    "cn_sent c1 = cn_sent (guard_new WS_All c) @ texts ts snapshot"
    using send_snapshot_loop_effect [OF assms(1)] by blast
  obtain c2 where "all_orders_loop net ts parse order_filter_default inputs c1 = (Open, c2)"
    "cn_sent c2 = cn_sent c1 @ texts ts (forwarded parse order_filter_default inputs)"
    using all_orders_loop_effect [OF assms] by blast
  with c1 show ?thesis
    by (simp add: handle_all_orders_def all_orders_session_def guard_new_def)
qed

text \<open>Nothing between the guard's creation and its drop touches the connection gauge.\<close>

lemma timed_send_gauge [simp]:
  "m_ws_connections (cn_metrics (snd (timed_send net m c))) = m_ws_connections (cn_metrics c)"
  by (simp add: timed_send_def)

lemma send_status_gauge:
  "send_status net ts e st c = (b, c') \<Longrightarrow> m_ws_connections (cn_metrics c') = m_ws_connections (cn_metrics c)"
  using timed_send_gauge [of net _ c]
  by (auto simp: send_status_def ws_message_sent_def simp del: timed_send_gauge
      split: option.splits prod.splits bool.splits) (metis snd_conv)+

lemma close_connection_gauge [simp]:
  "m_ws_connections (cn_metrics (close_connection net c)) = m_ws_connections (cn_metrics c)"
  by (simp add: close_connection_def)

lemma single_order_loop_gauge:
  "single_order_loop net ts h inputs c = (s, c') \<Longrightarrow>
     m_ws_connections (cn_metrics c') = m_ws_connections (cn_metrics c)"
  by (induction net ts h inputs c rule: single_order_loop.induct)
    (auto simp: Let_def dest!: send_status_gauge split: if_splits prod.splits bool.splits)

lemma send_snapshot_loop_gauge:
  "send_snapshot_loop net ts sts c = (b, c') \<Longrightarrow>
     m_ws_connections (cn_metrics c') = m_ws_connections (cn_metrics c)"
  by (induction net ts sts c rule: send_snapshot_loop.induct)
    (auto dest!: send_status_gauge split: prod.splits bool.splits)

lemma all_orders_loop_gauge:
  "all_orders_loop net ts parse f inputs c = (s, c') \<Longrightarrow>
     m_ws_connections (cn_metrics c') = m_ws_connections (cn_metrics c)"
  by (induction net ts parse f inputs c rule: all_orders_loop.induct)
    (auto dest!: send_status_gauge split: if_splits prod.splits bool.splits option.splits)

lemma single_order_session_gauge:
  "single_order_session net ts nf h stream mo report inputs c = (s, c') \<Longrightarrow>
     m_ws_connections (cn_metrics c') = m_ws_connections (cn_metrics c)"
  by (auto simp: single_order_session_def Let_def dest!: send_status_gauge single_order_loop_gauge
      split: sum.splits option.splits if_splits prod.splits bool.splits)

lemma all_orders_session_gauge:
  "all_orders_session net ts parse mo snapshot inputs c = (s, c') \<Longrightarrow>
     m_ws_connections (cn_metrics c') = m_ws_connections (cn_metrics c)"
  by (auto simp: all_orders_session_def Let_def dest!: send_snapshot_loop_gauge all_orders_loop_gauge
      split: option.splits if_splits prod.splits bool.splits)

section \<open>Properties\<close>

text \<open>
  A filter selects by kind and by owner. A status passes exactly when its kind is listed,
  or no kinds are given, and its owner is listed, or no owners are given; in particular an
  empty list of either lets nothing through.
\<close>

theorem matches_filter_exact:
  "matches_filter st f =
     ((case of_statuses f of None \<Rightarrow> True
        | Some sfs \<Rightarrow> discriminant st \<in> (\<lambda>sf. case sf of SF_Pending \<Rightarrow> K_Pending
            | SF_Filled \<Rightarrow> K_Filled | SF_Expired \<Rightarrow> K_Expired) ` set sfs) \<and>
      (case of_owners f of None \<Rightarrow> True | Some owners \<Rightarrow> status_owner st \<in> set owners))"
proof -
  have "filter_status_matches sf st \<longleftrightarrow> discriminant st = (case sf of SF_Pending \<Rightarrow> K_Pending
      | SF_Filled \<Rightarrow> K_Filled | SF_Expired \<Rightarrow> K_Expired)" for sf
    by (cases sf; cases st) simp_all
  then show ?thesis
    by (auto simp: matches_filter_def list_ex_iff Let_def split: option.splits)
qed

text \<open>
  C23: a single-order session tells its client the life of the order and then ends. For a known
  order and a client that accepts everything and stays, the client is sent the initial report,
  then each status broadcast for this order since the subscription, in order, up to and
  including the first terminal one, and nothing of other orders; the connection is closed, and
  the session ended, exactly when a terminal status was delivered. Lagging and the client's own
  messages change nothing.
\<close>

theorem single_session_delivers:
  assumes "\<forall>n. net n" "\<forall>st. to_string st \<noteq> None" "WI_Disconnected \<notin> set inputs" "WI_Updates_Closed \<notin> set inputs"
    and "try_next_order (\<lambda>order. so_hash order = h) stream = Inr (Some order)"
  shows "\<exists>c'. handle_single_order net to_string not_found h stream True (Some report) inputs c =
      (if \<exists>st \<in> set (report # filter (\<lambda>st. status_order_hash st = h) (updates_of inputs)). is_terminal st
       then Ended else Open, c') \<and>
    cn_requests c' = cn_requests c @ [order] \<and>
    cn_sent c' = cn_sent c @
      map (\<lambda>st. WM_Text (the (to_string st)))
        (until_terminal (report # filter (\<lambda>st. status_order_hash st = h) (updates_of inputs))) @
      (if \<exists>st \<in> set (report # filter (\<lambda>st. status_order_hash st = h) (updates_of inputs)). is_terminal st
       then [WM_Close] else [])"
  using handle_single_order_effect [OF _ _ assms(5), of net to_string inputs not_found report c] assms(1-4)
  by (simp add: reliable_def persistent_def texts_def closing_def list_ex_iff)

definition demo_diagnostics :: order_diagnostics where
  "demo_diagnostics = \<lparr>od_is_in_cache = MB_True,
     od_deadline_check = \<lparr>dc_expires_in = PrettyDuration 0, dc_deadline = Timestamp 2000, dc_checked_at = Timestamp 2000\<rparr>,
     od_allowance_checks = \<lparr>acs_all_sufficient = MB_Unknown, acs_checked_at = Timestamp 2000, acs_checks = []\<rparr>,
     od_balance_checks = \<lparr>bcs_all_sufficient = MB_Unknown, bcs_checked_at = Timestamp 2000, bcs_checks = []\<rparr>\<rparr>"

definition demo_connection :: connection where
  "demo_connection = \<lparr>cn_attempts = 0, cn_sent = [], cn_closed = False, cn_requests = [], cn_metrics = metrics_new\<rparr>"

definition demo_printer :: "order_status \<Rightarrow> string option" where
  "demo_printer st = Some (status_label st)"

theorem single_session_delivers_witness:
  "\<exists>c'. handle_single_order (\<lambda>_. True) demo_printer ''none'' 5 [Inr (demo_order 5 2000)] True
      (Some (Pending 5 7 demo_diagnostics)) [WI_Update (Pending 6 7 demo_diagnostics), WI_Other, WI_Update (Expired 5 7 demo_diagnostics), WI_Update (Pending 5 7 demo_diagnostics)]
      demo_connection = (Ended, c') \<and>
    cn_sent c' = [WM_Text ''pending'', WM_Text ''expired'', WM_Close]"
  using single_session_delivers [of "\<lambda>_. True" demo_printer
      "[WI_Update (Pending 6 7 demo_diagnostics), WI_Other, WI_Update (Expired 5 7 demo_diagnostics), WI_Update (Pending 5 7 demo_diagnostics)]" 5
      "[Inr (demo_order 5 2000)]" "demo_order 5 2000" "''none''" "Pending 5 7 demo_diagnostics" demo_connection]
  by (auto simp: demo_printer_def status_label_def demo_order_def demo_connection_def)

text \<open>
  C24: an all-orders session starts with the whole snapshot and then obeys the client's filter.
  For a client that accepts everything and stays, the statuses sent are those of the snapshot,
  unfiltered, then what earlier filters let through, and, after a message that parses as a
  filter, exactly the later broadcast statuses that match it, in order; a message that does not
  parse leaves the filter as it was.
\<close>

theorem all_orders_respects_filter:
  assumes "\<forall>n. net n" "\<forall>st. to_string st \<noteq> None"
    and "WI_Disconnected \<notin> set (before @ after)" "WI_Updates_Closed \<notin> set (before @ after)"
    and "parse text = Some f" "\<forall>txt. WI_Text txt \<in> set after \<longrightarrow> parse txt = None"
  shows "\<exists>c' sts. handle_all_orders net to_string parse True (Some snapshot) (before @ WI_Text text # after) c = (Open, c') \<and>
    set sts \<subseteq> set (updates_of before) \<and>
    cn_sent c' = cn_sent c @ map (\<lambda>st. WM_Text (the (to_string st)))
      (snapshot @ sts @ filter (\<lambda>st. matches_filter st f) (updates_of after))"
proof -
  have rel: "reliable net to_string" and per: "persistent (before @ WI_Text text # after)"
    using assms(1-4) by (auto simp: reliable_def persistent_def)
  have "forwarded parse f' (WI_Text text # after) = filter (\<lambda>st. matches_filter st f) (updates_of after)" for f'
    using assms(5) forwarded_unparsed [OF assms(6)] by simp
  moreover obtain c' where "handle_all_orders net to_string parse True (Some snapshot) (before @ WI_Text text # after) c = (Open, c')"
    "cn_sent c' = cn_sent c @ texts to_string
      (snapshot @ forwarded parse order_filter_default (before @ WI_Text text # after))"
    using handle_all_orders_effect [OF rel per] by blast
  moreover have "set (forwarded parse order_filter_default before) \<subseteq> set (updates_of before)"
    by (rule forwarded_subset)
  ultimately show ?thesis
    by (intro exI [of _ c'] exI [of _ "forwarded parse order_filter_default before"])
      (simp add: forwarded_append texts_def)
qed

theorem all_orders_respects_filter_witness:
  "\<exists>c'. handle_all_orders (\<lambda>_. True) demo_printer
      (\<lambda>t. if t = ''filled'' then Some \<lparr>of_owners = None, of_statuses = Some [SF_Filled]\<rparr> else None) True
      (Some [Pending 5 7 demo_diagnostics]) ([] @ WI_Text ''filled'' # [WI_Update (Pending 5 7 demo_diagnostics), WI_Text ''?'', WI_Update (Filled 5 7 None)])
      demo_connection = (Open, c') \<and>
    cn_sent c' = [WM_Text ''pending'', WM_Text ''filled'']"
proof -
  let ?parse = "\<lambda>t. if t = ''filled'' then Some \<lparr>of_owners = None, of_statuses = Some [SF_Filled]\<rparr> else None"
  have p: "?parse ''filled'' = Some \<lparr>of_owners = None, of_statuses = Some [SF_Filled]\<rparr>" by simp
  show ?thesis
    using all_orders_respects_filter [of "\<lambda>_. True" demo_printer "[]"
        "[WI_Update (Pending 5 7 demo_diagnostics), WI_Text ''?'', WI_Update (Filled 5 7 None)]" ?parse "''filled''",
        OF _ _ _ _ p, of "[Pending 5 7 demo_diagnostics]" demo_connection]
    by (auto simp: demo_printer_def status_label_def demo_connection_def matches_filter_def)
qed

text \<open>
  The connection gauge counts the open sessions. Whatever a client does and however a
  session goes, after a session that has ended the gauge of its endpoint is what it was before,
  and while it is open it is one more; the gauge of the other endpoint is untouched.
\<close>

theorem connection_gauge_balanced:
  "m_ws_connections (cn_metrics (snd (handle_single_order net to_string not_found h stream manager_open report inputs c))) =
     (if fst (handle_single_order net to_string not_found h stream manager_open report inputs c) = Open
      then (m_ws_connections (cn_metrics c))(''single_order'' := m_ws_connections (cn_metrics c) ''single_order'' + 1)
      else m_ws_connections (cn_metrics c)) \<and>
   m_ws_connections (cn_metrics (snd (handle_all_orders net to_string parse manager_open snapshot inputs c))) =
     (if fst (handle_all_orders net to_string parse manager_open snapshot inputs c) = Open
      then (m_ws_connections (cn_metrics c))(''all_orders'' := m_ws_connections (cn_metrics c) ''all_orders'' + 1)
      else m_ws_connections (cn_metrics c))"
proof -
  let ?s = "single_order_session net to_string not_found h stream manager_open report inputs (guard_new WS_Single c)"
  let ?a = "all_orders_session net to_string parse manager_open snapshot inputs (guard_new WS_All c)"
  have "m_ws_connections (cn_metrics (snd ?s)) = m_ws_connections (cn_metrics (guard_new WS_Single c))"
    by (rule single_order_session_gauge) (rule prod.collapse [symmetric])
  moreover have "m_ws_connections (cn_metrics (snd ?a)) = m_ws_connections (cn_metrics (guard_new WS_All c))"
    by (rule all_orders_session_gauge) (rule prod.collapse [symmetric])
  ultimately show ?thesis
    by (auto simp: handle_single_order_def handle_all_orders_def guard_new_def guard_drop_def
        ws_connection_opened_def ws_connection_closed_def ws_endpoint_as_str_def
        split: prod.split session.split)
qed

end
