(* ===== verification/Json.thy ===== *)
theory Json
  imports WsHandlers
begin

text \<open>
  The wire format of the output types: the \<open>Serialize\<close> and \<open>Deserialize\<close> of \<open>amount.rs\<close>,
  \<open>timestamp.rs\<close>, \<open>pretty_duration.rs\<close> and the derived ones of \<open>order_diagnostics.rs\<close>,
  \<open>order_status.rs\<close> and \<open>ws/messages.rs\<close>, over JSON trees. How hashes, addresses, integers,
  instants and durations print and parse belongs to \<open>alloy\<close> and \<open>jiff\<close> and is a record of
  parameters.
\<close>

section \<open>Decimal numbers\<close>

text \<open>How the standard library prints an unsigned integer.\<close>

fun decimal :: "nat \<Rightarrow> string" where
  "decimal n = (if n < 10 then [char_of (48 + n)] else decimal (n div 10) @ [char_of (48 + n mod 10)])"

declare decimal.simps [simp del]

section \<open>Trees and fields\<close>

datatype json =
    J_Null
  | J_Bool bool
  | J_Num int
  | J_Str string
  | J_Arr "json list"
  | J_Obj "(string \<times> json) list"

record span =
  sp_hours :: int
  sp_minutes :: int
  sp_seconds :: int
  sp_milliseconds :: int
  sp_microseconds :: int
  sp_nanoseconds :: int

record printers =
  p_b256 :: "b256 \<Rightarrow> string"
  r_b256 :: "string \<Rightarrow> b256 option"
  p_address :: "address \<Rightarrow> string"
  r_address :: "string \<Rightarrow> address option"
  p_u256 :: "u256 \<Rightarrow> string"
  r_u256 :: "string \<Rightarrow> u256 option"
  p_u256_decimal :: "u256 \<Rightarrow> string"
  p_instant :: "int \<Rightarrow> string option"
  round_millis :: "int \<Rightarrow> int option"
  p_friendly :: "int \<Rightarrow> string"
  r_span :: "string \<Rightarrow> span option"

text \<open>The fields of an object: a required one must be there once, an optional one at most once.\<close>

definition lookups :: "string \<Rightarrow> (string \<times> json) list \<Rightarrow> json list" where
  "lookups name fs = map snd (filter (\<lambda>(k, _). k = name) fs)"

definition required :: "string \<Rightarrow> (json \<Rightarrow> 'a option) \<Rightarrow> (string \<times> json) list \<Rightarrow> 'a option" where
  "required name decode fs = (case lookups name fs of [v] \<Rightarrow> decode v | _ \<Rightarrow> None)"

definition optional :: "string \<Rightarrow> (json \<Rightarrow> 'a option) \<Rightarrow> (string \<times> json) list \<Rightarrow> 'a option option" where
  "optional name decode fs =
     (case lookups name fs of
        [] \<Rightarrow> Some None
      | [J_Null] \<Rightarrow> Some None
      | [v] \<Rightarrow> map_option Some (decode v)
      | _ \<Rightarrow> None)"

fun object :: "json \<Rightarrow> (string \<times> json) list option" where
  "object (J_Obj fs) = Some fs"
| "object _ = None"

fun bool_of_json :: "json \<Rightarrow> bool option" where
  "bool_of_json (J_Bool b) = Some b"
| "bool_of_json _ = None"

fun string_of_json :: "json \<Rightarrow> string option" where
  "string_of_json (J_Str s) = Some s"
| "string_of_json _ = None"

definition u64_to_json :: "u64 \<Rightarrow> json" where
  "u64_to_json n = J_Num (uint n)"

fun u64_of_json :: "json \<Rightarrow> u64 option" where
  "u64_of_json (J_Num n) = (if 0 \<le> n \<and> n < 2 ^ 64 then Some (word_of_int n) else None)"
| "u64_of_json _ = None"

fun list_of_json :: "(json \<Rightarrow> 'a option) \<Rightarrow> json \<Rightarrow> 'a list option" where
  "list_of_json decode (J_Arr vs) = those (map decode vs)"
| "list_of_json decode _ = None"

definition option_to_json :: "('a \<Rightarrow> json) \<Rightarrow> 'a option \<Rightarrow> json" where
  "option_to_json encode o' = (case o' of None \<Rightarrow> J_Null | Some x \<Rightarrow> encode x)"

text \<open>A hash, an address and an integer are JSON strings in the format of \<open>alloy\<close>.\<close>

definition b256_to_json :: "printers \<Rightarrow> b256 \<Rightarrow> json" where
  "b256_to_json P h = J_Str (p_b256 P h)"

definition b256_of_json :: "printers \<Rightarrow> json \<Rightarrow> b256 option" where
  "b256_of_json P j = Option.bind (string_of_json j) (r_b256 P)"

definition address_to_json :: "printers \<Rightarrow> address \<Rightarrow> json" where
  "address_to_json P a = J_Str (p_address P a)"

definition address_of_json :: "printers \<Rightarrow> json \<Rightarrow> address option" where
  "address_of_json P j = Option.bind (string_of_json j) (r_address P)"

section \<open>Wrapper types\<close>

definition amount_to_json :: "printers \<Rightarrow> amount \<Rightarrow> json" where
  "amount_to_json P a = J_Obj [(''raw'', J_Str (p_u256 P (amount_raw a))),
     (''decimal'', J_Str (p_u256_decimal P (amount_raw a)))]"

definition amount_of_json :: "printers \<Rightarrow> json \<Rightarrow> amount option" where
  "amount_of_json P j = do {
     fs \<leftarrow> object j;
     raw \<leftarrow> required ''raw'' (\<lambda>v. Option.bind (string_of_json v) (r_u256 P)) fs;
     Some (Amount raw)
   }"

definition amount_display :: "printers \<Rightarrow> amount \<Rightarrow> string" where
  "amount_display P a = p_u256_decimal P (amount_raw a)"

text \<open>\<open>secs as i64\<close> reinterprets the bits; an instant out of range prints as its seconds.\<close>

definition timestamp_display :: "printers \<Rightarrow> timestamp \<Rightarrow> string" where
  "timestamp_display P t =
     (case p_instant P (sint (as_secs t)) of
        Some s \<Rightarrow> s
      | None \<Rightarrow> decimal (unat (as_secs t)) @ ''s'')"

definition timestamp_to_json :: "printers \<Rightarrow> timestamp \<Rightarrow> json" where
  "timestamp_to_json P t = J_Obj [(''secs_since_epoch'', u64_to_json (as_secs t)),
     (''utc'', J_Str (case p_instant P (sint (as_secs t)) of
        Some s \<Rightarrow> s
      | None \<Rightarrow> decimal (unat (as_secs t)) @ ''s''))]"

definition timestamp_of_json :: "json \<Rightarrow> timestamp option" where
  "timestamp_of_json j = do {
     fs \<leftarrow> object j;
     secs \<leftarrow> required ''secs_since_epoch'' u64_of_json fs;
     Some (Timestamp secs)
   }"

text \<open>
  A duration is rounded to milliseconds before it is printed; when the rounding fails the
  \<open>expect\<close> panics (\<^term>\<open>None\<close>), and so does the serialization, which prints it.
\<close>

definition pretty_duration_display :: "printers \<Rightarrow> pretty_duration \<Rightarrow> string option" where
  "pretty_duration_display P d = map_option (p_friendly P) (round_millis P (pd_nanos d))"

definition pretty_duration_to_json :: "printers \<Rightarrow> pretty_duration \<Rightarrow> json option" where
  "pretty_duration_to_json P d = map_option J_Str (pretty_duration_display P d)"

definition span_nanos :: "span \<Rightarrow> int" where
  "span_nanos s = sp_hours s * 3600000000000 + sp_minutes s * 60000000000 + sp_seconds s * 1000000000 +
     sp_milliseconds s * 1000000 + sp_microseconds s * 1000 + sp_nanoseconds s"

text \<open>The last step, \<open>from_nanos_i128\<close>, is the conversion of the environment; its panic and a
  parse error are both \<^term>\<open>None\<close> here.\<close>

definition pretty_duration_of_json :: "printers \<Rightarrow> (int \<Rightarrow> int option) \<Rightarrow> json \<Rightarrow> pretty_duration option" where
  "pretty_duration_of_json P from_nanos j = do {
     s \<leftarrow> string_of_json j;
     let (negated, iso_str) = (case s of c # rest \<Rightarrow> if c = CHR ''-'' then (True, rest) else (False, s) | [] \<Rightarrow> (False, s));
     span \<leftarrow> r_span P iso_str;
     let nanos = span_nanos span;
     let nanos = (if negated then - nanos else nanos);
     map_option PrettyDuration (from_nanos nanos)
   }"

section \<open>Derived codecs\<close>

text \<open>An enum of unit variants is the variant's name in snake case.\<close>

definition maybe_bool_to_json :: "maybe_bool \<Rightarrow> json" where
  "maybe_bool_to_json b = J_Str (case b of MB_False \<Rightarrow> ''false'' | MB_True \<Rightarrow> ''true'' | MB_Unknown \<Rightarrow> ''unknown'')"

definition maybe_bool_of_json :: "json \<Rightarrow> maybe_bool option" where
  "maybe_bool_of_json j = do {
     s \<leftarrow> string_of_json j;
     if s = ''false'' then Some MB_False else if s = ''true'' then Some MB_True
     else if s = ''unknown'' then Some MB_Unknown else None
   }"

definition chain_to_json :: "chain \<Rightarrow> json" where
  "chain_to_json c = J_Str (case c of Rollup \<Rightarrow> ''rollup'' | Host \<Rightarrow> ''host'')"

definition chain_of_json :: "json \<Rightarrow> chain option" where
  "chain_of_json j = do {
     s \<leftarrow> string_of_json j;
     if s = ''rollup'' then Some Rollup else if s = ''host'' then Some Host else None
   }"

definition deadline_check_to_json :: "printers \<Rightarrow> deadline_check \<Rightarrow> json option" where
  "deadline_check_to_json P x = do {
     expires_in \<leftarrow> pretty_duration_to_json P (dc_expires_in x);
     Some (J_Obj
       [(''expires_in'', expires_in),
        (''deadline'', timestamp_to_json P (dc_deadline x)),
        (''checked_at'', timestamp_to_json P (dc_checked_at x))])
   }"

definition deadline_check_of_json :: "printers \<Rightarrow> (int \<Rightarrow> int option) \<Rightarrow> json \<Rightarrow> deadline_check option" where
  "deadline_check_of_json P from_nanos j = do {
     fs \<leftarrow> object j;
     expires_in \<leftarrow> required ''expires_in'' (pretty_duration_of_json P from_nanos) fs;
     deadline \<leftarrow> required ''deadline'' timestamp_of_json fs;
     checked_at \<leftarrow> required ''checked_at'' timestamp_of_json fs;
     Some \<lparr>dc_expires_in = expires_in, dc_deadline = deadline, dc_checked_at = checked_at\<rparr>
   }"

definition allowance_check_to_json :: "printers \<Rightarrow> allowance_check \<Rightarrow> json" where
  "allowance_check_to_json P x = J_Obj
     [(''sufficient'', J_Bool (ac_sufficient x)),
      (''token_contract'', address_to_json P (ac_token_contract x)),
      (''token_symbol'', J_Str (ac_token_symbol x)),
      (''allowance'', amount_to_json P (ac_allowance x)),
      (''required'', amount_to_json P (ac_required x))]"

definition allowance_check_of_json :: "printers \<Rightarrow> json \<Rightarrow> allowance_check option" where
  "allowance_check_of_json P j = do {
     fs \<leftarrow> object j;
     sufficient \<leftarrow> required ''sufficient'' bool_of_json fs;
     token_contract \<leftarrow> required ''token_contract'' (address_of_json P) fs;
     token_symbol \<leftarrow> required ''token_symbol'' string_of_json fs;
     allowance \<leftarrow> required ''allowance'' (amount_of_json P) fs;
     req \<leftarrow> required ''required'' (amount_of_json P) fs;
     Some \<lparr>ac_sufficient = sufficient, ac_token_contract = token_contract, ac_token_symbol = token_symbol,
       ac_allowance = allowance, ac_required = req\<rparr>
   }"

definition allowance_checks_to_json :: "printers \<Rightarrow> allowance_checks \<Rightarrow> json" where
  "allowance_checks_to_json P x = J_Obj
     [(''all_sufficient'', maybe_bool_to_json (acs_all_sufficient x)),
      (''checked_at'', timestamp_to_json P (acs_checked_at x)),
      (''checks'', J_Arr (map (allowance_check_to_json P) (acs_checks x)))]"

definition allowance_checks_of_json :: "printers \<Rightarrow> json \<Rightarrow> allowance_checks option" where
  "allowance_checks_of_json P j = do {
     fs \<leftarrow> object j;
     all_sufficient \<leftarrow> required ''all_sufficient'' maybe_bool_of_json fs;
     checked_at \<leftarrow> required ''checked_at'' timestamp_of_json fs;
     checks \<leftarrow> required ''checks'' (list_of_json (allowance_check_of_json P)) fs;
     Some \<lparr>acs_all_sufficient = all_sufficient, acs_checked_at = checked_at, acs_checks = checks\<rparr>
   }"

definition balance_check_to_json :: "printers \<Rightarrow> balance_check \<Rightarrow> json" where
  "balance_check_to_json P x = J_Obj
     [(''sufficient'', J_Bool (bc_sufficient x)),
      (''token_contract'', address_to_json P (bc_token_contract x)),
      (''token_symbol'', J_Str (bc_token_symbol x)),
      (''balance'', amount_to_json P (bc_balance x)),
      (''required'', amount_to_json P (bc_required x))]"

definition balance_check_of_json :: "printers \<Rightarrow> json \<Rightarrow> balance_check option" where
  "balance_check_of_json P j = do {
     fs \<leftarrow> object j;
     sufficient \<leftarrow> required ''sufficient'' bool_of_json fs;
     token_contract \<leftarrow> required ''token_contract'' (address_of_json P) fs;
     token_symbol \<leftarrow> required ''token_symbol'' string_of_json fs;
     balance \<leftarrow> required ''balance'' (amount_of_json P) fs;
     req \<leftarrow> required ''required'' (amount_of_json P) fs;
     Some \<lparr>bc_sufficient = sufficient, bc_token_contract = token_contract, bc_token_symbol = token_symbol,
       bc_balance = balance, bc_required = req\<rparr>
   }"

definition balance_checks_to_json :: "printers \<Rightarrow> balance_checks \<Rightarrow> json" where
  "balance_checks_to_json P x = J_Obj
     [(''all_sufficient'', maybe_bool_to_json (bcs_all_sufficient x)),
      (''checked_at'', timestamp_to_json P (bcs_checked_at x)),
      (''checks'', J_Arr (map (balance_check_to_json P) (bcs_checks x)))]"

definition balance_checks_of_json :: "printers \<Rightarrow> json \<Rightarrow> balance_checks option" where
  "balance_checks_of_json P j = do {
     fs \<leftarrow> object j;
     all_sufficient \<leftarrow> required ''all_sufficient'' maybe_bool_of_json fs;
     checked_at \<leftarrow> required ''checked_at'' timestamp_of_json fs;
     checks \<leftarrow> required ''checks'' (list_of_json (balance_check_of_json P)) fs;
     Some \<lparr>bcs_all_sufficient = all_sufficient, bcs_checked_at = checked_at, bcs_checks = checks\<rparr>
   }"

definition chain_transaction_to_json :: "printers \<Rightarrow> chain_transaction \<Rightarrow> json" where
  "chain_transaction_to_json P x = J_Obj
     [(''chain'', chain_to_json (ct_chain x)), (''tx_hash'', b256_to_json P (ct_tx_hash x))]"

definition chain_transaction_of_json :: "printers \<Rightarrow> json \<Rightarrow> chain_transaction option" where
  "chain_transaction_of_json P j = do {
     fs \<leftarrow> object j;
     chain \<leftarrow> required ''chain'' chain_of_json fs;
     tx_hash \<leftarrow> required ''tx_hash'' (b256_of_json P) fs;
     Some \<lparr>ct_chain = chain, ct_tx_hash = tx_hash\<rparr>
   }"

definition fill_output_to_json :: "printers \<Rightarrow> fill_output \<Rightarrow> json" where
  "fill_output_to_json P x = J_Obj
     [(''token_contract'', address_to_json P (fo_token_contract x)),
      (''token_symbol'', J_Str (fo_token_symbol x)),
      (''amount'', amount_to_json P (fo_amount x)),
      (''recipient'', address_to_json P (fo_recipient x)),
      (''chain'', chain_to_json (fo_chain x))]"

definition fill_output_of_json :: "printers \<Rightarrow> json \<Rightarrow> fill_output option" where
  "fill_output_of_json P j = do {
     fs \<leftarrow> object j;
     token_contract \<leftarrow> required ''token_contract'' (address_of_json P) fs;
     token_symbol \<leftarrow> required ''token_symbol'' string_of_json fs;
     amount \<leftarrow> required ''amount'' (amount_of_json P) fs;
     recipient \<leftarrow> required ''recipient'' (address_of_json P) fs;
     chain \<leftarrow> required ''chain'' chain_of_json fs;
     Some \<lparr>fo_token_contract = token_contract, fo_token_symbol = token_symbol, fo_amount = amount,
       fo_recipient = recipient, fo_chain = chain\<rparr>
   }"

text \<open>\<open>skip_serializing_if\<close>: an absent option leaves no field.\<close>

definition skip_none :: "string \<Rightarrow> ('a \<Rightarrow> json) \<Rightarrow> 'a option \<Rightarrow> (string \<times> json) list" where
  "skip_none name encode o' = (case o' of None \<Rightarrow> [] | Some x \<Rightarrow> [(name, encode x)])"

definition fill_info_to_json :: "printers \<Rightarrow> fill_info \<Rightarrow> json" where
  "fill_info_to_json P x = J_Obj
     ([(''block_number'', u64_to_json (fi_block_number x))] @
      skip_none ''rollup_initiation_tx'' (b256_to_json P) (fi_rollup_initiation_tx x) @
      skip_none ''fill_tx'' (chain_transaction_to_json P) (fi_fill_tx x) @
      [(''outputs'', J_Arr (map (fill_output_to_json P) (fi_outputs x)))])"

definition fill_info_of_json :: "printers \<Rightarrow> json \<Rightarrow> fill_info option" where
  "fill_info_of_json P j = do {
     fs \<leftarrow> object j;
     block_number \<leftarrow> required ''block_number'' u64_of_json fs;
     rollup_initiation_tx \<leftarrow> optional ''rollup_initiation_tx'' (b256_of_json P) fs;
     fill_tx \<leftarrow> optional ''fill_tx'' (chain_transaction_of_json P) fs;
     outputs \<leftarrow> required ''outputs'' (list_of_json (fill_output_of_json P)) fs;
     Some \<lparr>fi_block_number = block_number, fi_rollup_initiation_tx = rollup_initiation_tx,
       fi_fill_tx = fill_tx, fi_outputs = outputs\<rparr>
   }"

text \<open>The diagnostics are flattened: their fields stand beside the others of the status.\<close>

definition diagnostics_to_fields :: "printers \<Rightarrow> order_diagnostics \<Rightarrow> (string \<times> json) list option" where
  "diagnostics_to_fields P x = do {
     deadline_check \<leftarrow> deadline_check_to_json P (od_deadline_check x);
     Some
       [(''is_in_cache'', maybe_bool_to_json (od_is_in_cache x)),
        (''deadline_check'', deadline_check),
        (''allowance_checks'', allowance_checks_to_json P (od_allowance_checks x)),
        (''balance_checks'', balance_checks_to_json P (od_balance_checks x))]
   }"

definition diagnostics_of_fields ::
  "printers \<Rightarrow> (int \<Rightarrow> int option) \<Rightarrow> (string \<times> json) list \<Rightarrow> order_diagnostics option" where
  "diagnostics_of_fields P from_nanos fs = do {
     is_in_cache \<leftarrow> required ''is_in_cache'' maybe_bool_of_json fs;
     deadline_check \<leftarrow> required ''deadline_check'' (deadline_check_of_json P from_nanos) fs;
     allowance_checks \<leftarrow> required ''allowance_checks'' (allowance_checks_of_json P) fs;
     balance_checks \<leftarrow> required ''balance_checks'' (balance_checks_of_json P) fs;
     Some \<lparr>od_is_in_cache = is_in_cache, od_deadline_check = deadline_check,
       od_allowance_checks = allowance_checks, od_balance_checks = balance_checks\<rparr>
   }"

text \<open>An internally tagged enum: the variant's name is the field \<open>status\<close>.\<close>

definition order_status_to_json :: "printers \<Rightarrow> order_status \<Rightarrow> json option" where
  "order_status_to_json P st = (case st of
     Pending order_hash owner diagnostics \<Rightarrow> do {
       fields \<leftarrow> diagnostics_to_fields P diagnostics;
       Some (J_Obj ([(''status'', J_Str ''pending''), (''order_hash'', b256_to_json P order_hash),
         (''owner'', address_to_json P owner)] @ fields))
     }
   | Filled order_hash owner fill_info \<Rightarrow>
       Some (J_Obj [(''status'', J_Str ''filled''), (''order_hash'', b256_to_json P order_hash),
         (''owner'', address_to_json P owner),
         (''fill_info'', option_to_json (fill_info_to_json P) fill_info)])
   | Expired order_hash owner diagnostics \<Rightarrow> do {
       fields \<leftarrow> diagnostics_to_fields P diagnostics;
       Some (J_Obj ([(''status'', J_Str ''expired''), (''order_hash'', b256_to_json P order_hash),
         (''owner'', address_to_json P owner)] @ fields))
     })"

definition order_status_of_json :: "printers \<Rightarrow> (int \<Rightarrow> int option) \<Rightarrow> json \<Rightarrow> order_status option" where
  "order_status_of_json P from_nanos j = do {
     fs \<leftarrow> object j;
     tag \<leftarrow> required ''status'' string_of_json fs;
     order_hash \<leftarrow> required ''order_hash'' (b256_of_json P) fs;
     owner \<leftarrow> required ''owner'' (address_of_json P) fs;
     if tag = ''pending'' then map_option (Pending order_hash owner) (diagnostics_of_fields P from_nanos fs)
     else if tag = ''filled'' then map_option (Filled order_hash owner) (optional ''fill_info'' (fill_info_of_json P) fs)
     else if tag = ''expired'' then map_option (Expired order_hash owner) (diagnostics_of_fields P from_nanos fs)
     else None
   }"

text \<open>The filters of the all-orders endpoint are only read.\<close>

definition status_filter_of_json :: "json \<Rightarrow> status_filter option" where
  "status_filter_of_json j = do {
     s \<leftarrow> string_of_json j;
     if s = ''pending'' then Some SF_Pending else if s = ''filled'' then Some SF_Filled
     else if s = ''expired'' then Some SF_Expired else None
   }"

definition order_filter_of_json :: "printers \<Rightarrow> json \<Rightarrow> order_filter option" where
  "order_filter_of_json P j = do {
     fs \<leftarrow> object j;
     owners \<leftarrow> optional ''owners'' (list_of_json (address_of_json P)) fs;
     statuses \<leftarrow> optional ''statuses'' (list_of_json status_filter_of_json) fs;
     Some \<lparr>of_owners = owners, of_statuses = statuses\<rparr>
   }"

section \<open>The contract of a codec\<close>

lemma optional_present:
  "v \<noteq> J_Null \<Longrightarrow> lookups name fs = [v] \<Longrightarrow> optional name decode fs = map_option Some (decode v)"
  by (cases v) (simp_all add: optional_def)

lemma optional_absent: "lookups name fs = [] \<Longrightarrow> optional name decode fs = Some None"
  by (simp add: optional_def)

lemma optional_null_field: "lookups name fs = [J_Null] \<Longrightarrow> optional name decode fs = Some None"
  by (simp add: optional_def)

locale codec =
  fixes encode :: "'a \<Rightarrow> json"
    and decode :: "json \<Rightarrow> 'a option"
    and ok :: "'a \<Rightarrow> bool"
  assumes round: "ok x \<Longrightarrow> decode (encode x) = Some x"
    and not_null: "encode x \<noteq> J_Null"
begin

lemma list_round: "\<forall>x \<in> set xs. ok x \<Longrightarrow> list_of_json decode (J_Arr (map encode xs)) = Some xs"
  by (induction xs) (auto simp: round)

lemma required_round: "lookups name fs = [encode x] \<Longrightarrow> ok x \<Longrightarrow> required name decode fs = Some x"
  by (simp add: required_def round)

lemma optional_skip:
  "lookups name fs = map snd (skip_none name encode o') \<Longrightarrow> \<forall>x. o' = Some x \<longrightarrow> ok x \<Longrightarrow>
     optional name decode fs = Some o'"
  by (cases o') (simp_all add: optional_absent skip_none_def optional_present [OF not_null] round)

lemma optional_null:
  "lookups name fs = [option_to_json encode o'] \<Longrightarrow> \<forall>x. o' = Some x \<longrightarrow> ok x \<Longrightarrow>
     optional name decode fs = Some o'"
  by (cases o') (simp_all add: optional_null_field option_to_json_def optional_present [OF not_null] round)

end

text \<open>An encoder that may panic: it does not on the values of interest, and what it gives reads back.\<close>

locale partial_codec =
  fixes encode :: "'a \<Rightarrow> json option"
    and decode :: "json \<Rightarrow> 'a option"
    and ok :: "'a \<Rightarrow> bool"
  assumes encodes: "ok x \<Longrightarrow> \<exists>j. encode x = Some j \<and> decode j = Some x"
begin

lemma round_trip: "ok x \<Longrightarrow> encode x = Some j \<Longrightarrow> decode j = Some x"
  using encodes [of x] by auto

lemma required_field: "ok x \<Longrightarrow> encode x = Some j \<Longrightarrow> lookups name fs = [j] \<Longrightarrow> required name decode fs = Some x"
  by (simp add: required_def round_trip)

end

sublocale codec \<subseteq> total: partial_codec "\<lambda>x. Some (encode x)" decode ok
  by unfold_locales (simp add: round)

lemma lookups_simps [simp]:
  "lookups name [] = []"
  "lookups name ((k, v) # fs) = (if k = name then v # lookups name fs else lookups name fs)"
  "lookups name (fs @ fs') = lookups name fs @ lookups name fs'"
  "lookups name (skip_none k encode o') = (if k = name then map snd (skip_none k encode o') else [])"
  by (auto simp: lookups_def skip_none_def split: option.split)

text \<open>
  What the printers and parsers of \<open>alloy\<close> and \<open>jiff\<close> document: parsing a printed hash,
  address or integer gives it back; a duration in whole milliseconds, not negative and of at most
  the hours a \<open>Span\<close> holds, is its own rounding and reads back as a span of the same length.
\<close>

definition friendly_limit :: int where
  "friendly_limit = 175307616 * 3600 * 10 ^ 9"

definition friendly_duration :: "pretty_duration \<Rightarrow> bool" where
  "friendly_duration d \<longleftrightarrow> 0 \<le> pd_nanos d \<and> pd_nanos d \<le> friendly_limit \<and> pd_nanos d mod 10 ^ 6 = 0"

definition printers_ok :: "printers \<Rightarrow> (int \<Rightarrow> int option) \<Rightarrow> bool" where
  "printers_ok P from_nanos \<longleftrightarrow>
     (\<forall>h. r_b256 P (p_b256 P h) = Some h) \<and> (\<forall>a. r_address P (p_address P a) = Some a) \<and>
     (\<forall>v. r_u256 P (p_u256 P v) = Some v) \<and>
     (\<forall>d. friendly_duration d \<longrightarrow> round_millis P (pd_nanos d) = Some (pd_nanos d) \<and>
        from_nanos (pd_nanos d) = Some (pd_nanos d) \<and>
        (\<exists>c rest span. p_friendly P (pd_nanos d) = c # rest \<and> c \<noteq> CHR ''-'' \<and>
          r_span P (c # rest) = Some span \<and> span_nanos span = pd_nanos d))"

text \<open>
  Rounding to milliseconds fails only where the result is beyond the range of a duration, whose
  seconds fit a signed 64-bit integer.
\<close>

definition duration_limit :: int where
  "duration_limit = (2 ^ 63 - 1) * 10 ^ 9"

definition rounding_ok :: "printers \<Rightarrow> bool" where
  "rounding_ok P \<longleftrightarrow> (\<forall>n. \<bar>n\<bar> \<le> duration_limit \<longrightarrow> round_millis P n \<noteq> None)"

definition status_in_range :: "order_status \<Rightarrow> bool" where
  "status_in_range st = (case st of
     Pending _ _ d \<Rightarrow> \<bar>pd_nanos (dc_expires_in (od_deadline_check d))\<bar> \<le> duration_limit
   | Expired _ _ d \<Rightarrow> \<bar>pd_nanos (dc_expires_in (od_deadline_check d))\<bar> \<le> duration_limit
   | Filled _ _ _ \<Rightarrow> True)"

lemma display_in_range:
  "rounding_ok P \<Longrightarrow> \<bar>pd_nanos d\<bar> \<le> duration_limit \<Longrightarrow> \<exists>s. pretty_duration_display P d = Some s"
  by (auto simp: rounding_ok_def pretty_duration_display_def)

interpretation u64: codec u64_to_json u64_of_json "\<lambda>_. True"
proof unfold_locales
  show "u64_of_json (u64_to_json n) = Some n" for n
    using uint_lt2p [of n] by (simp add: u64_to_json_def)
qed (simp add: u64_to_json_def)

interpretation bool: codec J_Bool bool_of_json "\<lambda>_. True"
  by unfold_locales simp_all

interpretation str: codec J_Str string_of_json "\<lambda>_. True"
  by unfold_locales simp_all

interpretation hash: codec "b256_to_json P" "b256_of_json P" "\<lambda>_. printers_ok P from_nanos" for P from_nanos
  by unfold_locales (auto simp: b256_to_json_def b256_of_json_def printers_ok_def)

interpretation addr: codec "address_to_json P" "address_of_json P" "\<lambda>_. printers_ok P from_nanos" for P from_nanos
  by unfold_locales (auto simp: address_to_json_def address_of_json_def printers_ok_def)

interpretation amt: codec "amount_to_json P" "amount_of_json P" "\<lambda>_. printers_ok P from_nanos" for P from_nanos
  by unfold_locales (auto simp: amount_to_json_def amount_of_json_def required_def printers_ok_def)

interpretation ts: codec "timestamp_to_json P" timestamp_of_json "\<lambda>_. True" for P
  by unfold_locales (auto simp: timestamp_to_json_def timestamp_of_json_def u64.required_round)

interpretation dur: partial_codec "pretty_duration_to_json P" "pretty_duration_of_json P from_nanos"
  "\<lambda>d. printers_ok P from_nanos \<and> friendly_duration d" for P from_nanos
proof unfold_locales
  fix d
  assume ok: "printers_ok P from_nanos \<and> friendly_duration d"
  then obtain c rest span where "p_friendly P (pd_nanos d) = c # rest" "c \<noteq> CHR ''-''"
    "r_span P (c # rest) = Some span" "span_nanos span = pd_nanos d"
    "round_millis P (pd_nanos d) = Some (pd_nanos d)" "from_nanos (pd_nanos d) = Some (pd_nanos d)"
    by (auto simp: printers_ok_def)
  then show "\<exists>j. pretty_duration_to_json P d = Some j \<and> pretty_duration_of_json P from_nanos j = Some d"
    by (simp add: pretty_duration_of_json_def pretty_duration_to_json_def pretty_duration_display_def Let_def)
qed

interpretation mb: codec maybe_bool_to_json maybe_bool_of_json "\<lambda>_. True"
  by unfold_locales (auto simp: maybe_bool_to_json_def maybe_bool_of_json_def split: maybe_bool.split)

interpretation chn: codec chain_to_json chain_of_json "\<lambda>_. True"
  by unfold_locales (auto simp: chain_to_json_def chain_of_json_def split: chain.split)

lemmas leaf_rounds = u64.required_round bool.required_round str.required_round hash.required_round
  addr.required_round amt.required_round ts.required_round mb.required_round
  chn.required_round

interpretation dlc: partial_codec "deadline_check_to_json P" "deadline_check_of_json P from_nanos"
  "\<lambda>x. printers_ok P from_nanos \<and> friendly_duration (dc_expires_in x)" for P from_nanos
proof unfold_locales
  fix x :: deadline_check
  assume ok: "printers_ok P from_nanos \<and> friendly_duration (dc_expires_in x)"
  then obtain j where j: "pretty_duration_to_json P (dc_expires_in x) = Some j" using dur.encodes by blast
  show "\<exists>j. deadline_check_to_json P x = Some j \<and> deadline_check_of_json P from_nanos j = Some x"
    by (simp add: deadline_check_to_json_def deadline_check_of_json_def leaf_rounds j dur.required_field [OF ok j])
qed

interpretation alc: codec "allowance_check_to_json P" "allowance_check_of_json P"
  "\<lambda>_. printers_ok P from_nanos" for P from_nanos
  by unfold_locales (auto simp: allowance_check_to_json_def allowance_check_of_json_def leaf_rounds)

interpretation blc: codec "balance_check_to_json P" "balance_check_of_json P"
  "\<lambda>_. printers_ok P from_nanos" for P from_nanos
  by unfold_locales (auto simp: balance_check_to_json_def balance_check_of_json_def leaf_rounds)

text \<open>The list of a record's checks, as a required field.\<close>

lemma required_list:
  "lookups name fs = [J_Arr (map encode xs)] \<Longrightarrow> list_of_json decode (J_Arr (map encode xs)) = Some xs \<Longrightarrow>
     required name (list_of_json decode) fs = Some xs"
  by (simp add: required_def)

interpretation alcs: codec "allowance_checks_to_json P" "allowance_checks_of_json P"
  "\<lambda>_. printers_ok P from_nanos" for P from_nanos
proof unfold_locales
  fix x :: allowance_checks assume "printers_ok P from_nanos"
  then have l: "list_of_json (allowance_check_of_json P) (J_Arr (map (allowance_check_to_json P) (acs_checks x))) = Some (acs_checks x)"
    by (intro alc.list_round) auto
  show "allowance_checks_of_json P (allowance_checks_to_json P x) = Some x"
    by (simp add: allowance_checks_to_json_def allowance_checks_of_json_def leaf_rounds required_list [OF _ l])
next
  show "allowance_checks_to_json P x \<noteq> J_Null" for x by (simp add: allowance_checks_to_json_def)
qed

interpretation blcs: codec "balance_checks_to_json P" "balance_checks_of_json P"
  "\<lambda>_. printers_ok P from_nanos" for P from_nanos
proof unfold_locales
  fix x :: balance_checks assume "printers_ok P from_nanos"
  then have l: "list_of_json (balance_check_of_json P) (J_Arr (map (balance_check_to_json P) (bcs_checks x))) = Some (bcs_checks x)"
    by (intro blc.list_round) auto
  show "balance_checks_of_json P (balance_checks_to_json P x) = Some x"
    by (simp add: balance_checks_to_json_def balance_checks_of_json_def leaf_rounds required_list [OF _ l])
next
  show "balance_checks_to_json P x \<noteq> J_Null" for x by (simp add: balance_checks_to_json_def)
qed

interpretation ctx: codec "chain_transaction_to_json P" "chain_transaction_of_json P"
  "\<lambda>_. printers_ok P from_nanos" for P from_nanos
  by unfold_locales (auto simp: chain_transaction_to_json_def chain_transaction_of_json_def leaf_rounds)

interpretation fo: codec "fill_output_to_json P" "fill_output_of_json P"
  "\<lambda>_. printers_ok P from_nanos" for P from_nanos
  by unfold_locales (auto simp: fill_output_to_json_def fill_output_of_json_def leaf_rounds)

interpretation fi: codec "fill_info_to_json P" "fill_info_of_json P"
  "\<lambda>_. printers_ok P from_nanos" for P from_nanos
proof unfold_locales
  fix x :: fill_info assume ok: "printers_ok P from_nanos"
  then have l: "list_of_json (fill_output_of_json P) (J_Arr (map (fill_output_to_json P) (fi_outputs x))) = Some (fi_outputs x)"
    by (intro fo.list_round) auto
  note opt = hash.optional_skip [where o' = "fi_rollup_initiation_tx x" and from_nanos = from_nanos]
    ctx.optional_skip [where o' = "fi_fill_tx x" and from_nanos = from_nanos]
  show "fill_info_of_json P (fill_info_to_json P x) = Some x"
    by (simp add: fill_info_to_json_def fill_info_of_json_def leaf_rounds required_list [OF _ l] opt ok)
next
  show "fill_info_to_json P x \<noteq> J_Null" for x by (simp add: fill_info_to_json_def)
qed

definition status_duration_ok :: "order_status \<Rightarrow> bool" where
  "status_duration_ok st = (case st of
     Pending _ _ d \<Rightarrow> friendly_duration (dc_expires_in (od_deadline_check d))
   | Expired _ _ d \<Rightarrow> friendly_duration (dc_expires_in (od_deadline_check d))
   | Filled _ _ _ \<Rightarrow> True)"

text \<open>The fields of diagnostics whose deadline check reads \<open>j\<close>.\<close>

definition diagnostics_fields :: "printers \<Rightarrow> order_diagnostics \<Rightarrow> json \<Rightarrow> (string \<times> json) list" where
  "diagnostics_fields P x j =
     [(''is_in_cache'', maybe_bool_to_json (od_is_in_cache x)), (''deadline_check'', j),
      (''allowance_checks'', allowance_checks_to_json P (od_allowance_checks x)),
      (''balance_checks'', balance_checks_to_json P (od_balance_checks x))]"

lemma diagnostics_round:
  assumes ok: "printers_ok P from_nanos" and d: "friendly_duration (dc_expires_in (od_deadline_check x))"
  obtains j where "diagnostics_to_fields P x = Some (diagnostics_fields P x j)"
    "\<And>pre. lookups ''is_in_cache'' pre = [] \<Longrightarrow> lookups ''deadline_check'' pre = [] \<Longrightarrow> lookups ''allowance_checks'' pre = [] \<Longrightarrow>
       lookups ''balance_checks'' pre = [] \<Longrightarrow>
       diagnostics_of_fields P from_nanos (pre @ diagnostics_fields P x j) = Some x"
proof -
  obtain j where j: "deadline_check_to_json P (od_deadline_check x) = Some j"
    using dlc.encodes ok d by blast
  note r = dlc.required_field [OF conjI [OF ok d] j]
  show thesis
  proof (rule that)
    show "diagnostics_to_fields P x = Some (diagnostics_fields P x j)"
      by (simp add: diagnostics_to_fields_def diagnostics_fields_def j)
    show "diagnostics_of_fields P from_nanos (pre @ diagnostics_fields P x j) = Some x"
      if "lookups ''is_in_cache'' pre = []" "lookups ''deadline_check'' pre = []" "lookups ''allowance_checks'' pre = []"
        "lookups ''balance_checks'' pre = []" for pre
      using that ok by (simp add: diagnostics_of_fields_def diagnostics_fields_def leaf_rounds r
          alcs.required_round blcs.required_round)
  qed
qed

lemma diagnostics_after_tag:
  assumes "printers_ok P from_nanos" "friendly_duration (dc_expires_in (od_deadline_check x))"
  obtains j where "diagnostics_to_fields P x = Some (diagnostics_fields P x j)"
    "diagnostics_of_fields P from_nanos ([(''status'', J_Str tag), (''order_hash'', h), (''owner'', w)] @ diagnostics_fields P x j) = Some x"
proof (rule diagnostics_round [OF assms])
  fix j
  assume f: "diagnostics_to_fields P x = Some (diagnostics_fields P x j)"
    and r: "\<And>pre. lookups ''is_in_cache'' pre = [] \<Longrightarrow> lookups ''deadline_check'' pre = [] \<Longrightarrow>
      lookups ''allowance_checks'' pre = [] \<Longrightarrow> lookups ''balance_checks'' pre = [] \<Longrightarrow>
      diagnostics_of_fields P from_nanos (pre @ diagnostics_fields P x j) = Some x"
  show thesis by (rule that [OF f], rule r) simp_all
qed

interpretation ost: partial_codec "order_status_to_json P" "order_status_of_json P from_nanos"
  "\<lambda>st. printers_ok P from_nanos \<and> status_duration_ok st" for P from_nanos
proof unfold_locales
  fix st assume ok: "printers_ok P from_nanos \<and> status_duration_ok st"
  then have P: "printers_ok P from_nanos" by simp
  note opt = fi.optional_null [where from_nanos = from_nanos]
  show "\<exists>j. order_status_to_json P st = Some j \<and> order_status_of_json P from_nanos j = Some st"
  proof (cases st)
    case (Pending h w d)
    then have d: "friendly_duration (dc_expires_in (od_deadline_check d))" using ok by (simp add: status_duration_ok_def)
    obtain j where f: "diagnostics_to_fields P d = Some (diagnostics_fields P d j)"
      and "diagnostics_of_fields P from_nanos ([(''status'', J_Str ''pending''), (''order_hash'', b256_to_json P h),
        (''owner'', address_to_json P w)] @ diagnostics_fields P d j) = Some d"
      by (rule diagnostics_after_tag [OF P d])
    then show ?thesis using P Pending
      by (simp add: order_status_to_json_def order_status_of_json_def leaf_rounds f diagnostics_fields_def)
  next
    case (Expired h w d)
    then have d: "friendly_duration (dc_expires_in (od_deadline_check d))" using ok by (simp add: status_duration_ok_def)
    obtain j where f: "diagnostics_to_fields P d = Some (diagnostics_fields P d j)"
      and "diagnostics_of_fields P from_nanos ([(''status'', J_Str ''expired''), (''order_hash'', b256_to_json P h),
        (''owner'', address_to_json P w)] @ diagnostics_fields P d j) = Some d"
      by (rule diagnostics_after_tag [OF P d])
    then show ?thesis using P Expired
      by (simp add: order_status_to_json_def order_status_of_json_def leaf_rounds f diagnostics_fields_def)
  next
    case (Filled h w info)
    then show ?thesis using P
      by (simp add: order_status_to_json_def order_status_of_json_def leaf_rounds opt)
  qed
qed

section \<open>Properties\<close>

text \<open>
  C34: a status survives its trip over the wire. Serializing a status does not panic and reading
  back its JSON gives the same status, variant, hash, owner, every check and every fill detail, when
  the time left in it is a whole number of milliseconds within what a span holds (every status that
  the tracker computes counts in whole seconds), given that the printers and parsers of the
  dependencies invert each other.
\<close>

theorem order_status_roundtrip:
  assumes "printers_ok P from_nanos"
    and "case st of
        Pending _ _ d \<Rightarrow> friendly_duration (dc_expires_in (od_deadline_check d))
      | Expired _ _ d \<Rightarrow> friendly_duration (dc_expires_in (od_deadline_check d))
      | Filled _ _ _ \<Rightarrow> True"
  shows "\<exists>j. order_status_to_json P st = Some j \<and> order_status_of_json P from_nanos j = Some st"
  using assms by (intro ost.encodes) (simp add: status_duration_ok_def)

text \<open>Printers of the demonstration: everything is written in unary.\<close>

definition unary :: "nat \<Rightarrow> string" where
  "unary n = CHR ''+'' # replicate n CHR ''1''"

definition demo_printers :: printers where
  "demo_printers = \<lparr>p_b256 = (\<lambda>h. unary (unat h)), r_b256 = (\<lambda>s. Some (of_nat (length s - 1))),
     p_address = (\<lambda>a. unary (unat a)), r_address = (\<lambda>s. Some (of_nat (length s - 1))),
     p_u256 = (\<lambda>v. unary (unat v)), r_u256 = (\<lambda>s. Some (of_nat (length s - 1))),
     p_u256_decimal = (\<lambda>v. unary (unat v)),
     p_instant = (\<lambda>_. None), round_millis = Some, p_friendly = (\<lambda>n. unary (nat n)),
     r_span = (\<lambda>s. Some \<lparr>sp_hours = 0, sp_minutes = 0, sp_seconds = 0, sp_milliseconds = 0,
       sp_microseconds = 0, sp_nanoseconds = int (length s) - 1\<rparr>)\<rparr>"

lemma demo_printers_ok: "printers_ok demo_printers Some"
  by (auto simp: printers_ok_def demo_printers_def unary_def friendly_duration_def span_nanos_def)

theorem order_status_roundtrip_witness:
  "\<exists>j. order_status_to_json demo_printers (Pending 5 7 demo_diagnostics) = Some j \<and>
     order_status_of_json demo_printers Some j = Some (Pending 5 7 demo_diagnostics)"
  by (rule order_status_roundtrip [OF demo_printers_ok])
    (simp add: demo_diagnostics_def friendly_duration_def friendly_limit_def)

end
