(* ===== verification/Tui.thy ===== *)
theory Tui
  imports Json StateManagerProps
begin

text \<open>
  The terminal client (\<open>examples/tui/app.rs\<close>, \<open>examples/tui/main.rs\<close>): the list of orders with
  its selection, the loop over terminal events and WebSocket messages, and the set-up of the
  terminal. What the loop selects on is an input list; how drawing changes the selection of the
  table belongs to the widget library and is a parameter.
\<close>

section \<open>The application state\<close>

record app =
  ap_orders :: "order_status list"
  ap_selected :: "nat option"
  ap_running :: bool
  ap_connected :: bool

definition app_new :: app where
  "app_new = \<lparr>ap_orders = [], ap_selected = None, ap_running = True, ap_connected = True\<rparr>"

definition update_order :: "order_status \<Rightarrow> app \<Rightarrow> app" where
  "update_order st a =
     (let hash = status_order_hash st
      in case position (\<lambda>order. status_order_hash order = hash) (ap_orders a) of
           Some pos \<Rightarrow> a\<lparr>ap_orders := (ap_orders a)[pos := st]\<rparr>
         | None \<Rightarrow>
             let a1 = a\<lparr>ap_orders := ap_orders a @ [st]\<rparr>
             in if ap_selected a1 = None then a1\<lparr>ap_selected := Some 0\<rparr> else a1)"

definition selected_order :: "app \<Rightarrow> order_status option" where
  "selected_order a =
     Option.bind (ap_selected a) (\<lambda>idx. if idx < length (ap_orders a) then Some (ap_orders a ! idx) else None)"

definition select_next :: "app \<Rightarrow> app" where
  "select_next a =
     (if ap_orders a = [] then a
      else a\<lparr>ap_selected := Some (case ap_selected a of
        Some current \<Rightarrow> min (current + 1) (length (ap_orders a) - 1)
      | None \<Rightarrow> 0)\<rparr>)"

definition select_prev :: "app \<Rightarrow> app" where
  "select_prev a =
     (if ap_orders a = [] then a
      else a\<lparr>ap_selected := Some (case ap_selected a of Some current \<Rightarrow> current - 1 | None \<Rightarrow> 0)\<rparr>)"

text \<open>The loop of \<open>counts\<close> over the three counters.\<close>

fun count_status :: "order_status \<Rightarrow> nat \<times> nat \<times> nat \<Rightarrow> nat \<times> nat \<times> nat" where
  "count_status (Pending _ _ _) (pending, filled, expired) = (pending + 1, filled, expired)"
| "count_status (Filled _ _ _) (pending, filled, expired) = (pending, filled + 1, expired)"
| "count_status (Expired _ _ _) (pending, filled, expired) = (pending, filled, expired + 1)"

definition counts :: "app \<Rightarrow> nat \<times> nat \<times> nat" where
  "counts a = fold count_status (ap_orders a) (0, 0, 0)"

section \<open>The loop\<close>

datatype key_code = K_Char char | K_Esc | K_Up | K_Down | K_Other

record key_event =
  ke_press :: bool
  ke_code :: key_code
  ke_control :: bool

text \<open>
  What \<open>select!\<close> yields: a terminal event, the end or an error of their stream, a text message,
  the end of the connection (a close message, an error or the end of the stream), or another
  message.
\<close>

datatype tui_input =
    TI_Key key_event
  | TI_Event_Other
  | TI_Events_End
  | TI_Text string
  | TI_Gone
  | TI_Message_Other

definition handle_key :: "key_event \<Rightarrow> app \<Rightarrow> app" where
  "handle_key key a =
     (if ke_code key = K_Char CHR ''q'' \<or> ke_code key = K_Esc then a\<lparr>ap_running := False\<rparr>
      else if ke_code key = K_Char CHR ''c'' \<and> ke_control key then a\<lparr>ap_running := False\<rparr>
      else if ke_code key = K_Up \<or> ke_code key = K_Char CHR ''k'' then select_prev a
      else if ke_code key = K_Down \<or> ke_code key = K_Char CHR ''j'' then select_next a
      else a)"

text \<open>The branch of \<open>select!\<close> for an input; \<^term>\<open>None\<close> is the \<open>break\<close>.\<close>

fun handle_tui :: "(string \<Rightarrow> order_status option) \<Rightarrow> tui_input \<Rightarrow> app \<Rightarrow> app option" where
  "handle_tui from_str (TI_Key key) a = Some (if ke_press key then handle_key key a else a)"
| "handle_tui from_str TI_Event_Other a = Some a"
| "handle_tui from_str TI_Events_End a = None"
| "handle_tui from_str (TI_Text text) a =
     Some (case from_str text of Some st \<Rightarrow> update_order st a | None \<Rightarrow> a)"
| "handle_tui from_str TI_Gone a = Some (a\<lparr>ap_connected := False\<rparr>)"
| "handle_tui from_str TI_Message_Other a = Some a"

text \<open>
  One iteration draws, which may fail, and then waits for an input. \<open>render\<close> is what drawing a
  table with that many rows makes of its selection.
\<close>

type_synonym render = "nat \<Rightarrow> nat option \<Rightarrow> nat option"

definition drawn :: "render \<Rightarrow> app \<Rightarrow> app" where
  "drawn render a = a\<lparr>ap_selected := render (length (ap_orders a)) (ap_selected a)\<rparr>"

record iteration =
  it_draw_error :: "ext_error option"
  it_input :: tui_input

datatype tui_exit = TE_Running | TE_Done | TE_Failed ext_error

fun tui_loop ::
  "render \<Rightarrow> (string \<Rightarrow> order_status option) \<Rightarrow> iteration list \<Rightarrow> app \<Rightarrow> tui_exit \<times> app" where
  "tui_loop render from_str [] a = (TE_Running, a)"
| "tui_loop render from_str (it # its) a =
     (case it_draw_error it of
        Some e \<Rightarrow> (TE_Failed e, a)
      | None \<Rightarrow>
          let a1 = drawn render a
          in if \<not> ap_running a1 then (TE_Done, a1)
             else (case handle_tui from_str (it_input it) a1 of
                 None \<Rightarrow> (TE_Done, a1)
               | Some a2 \<Rightarrow> tui_loop render from_str its a2))"

section \<open>The terminal\<close>

record terminal =
  tm_raw :: bool
  tm_alternate :: bool

definition default_url :: string where
  "default_url = ''ws://localhost:8019/orders/ws''"

text \<open>\<open>env::args().nth(1)\<close>.\<close>

definition tui_url :: "string list \<Rightarrow> string" where
  "tui_url args = (case args of _ # url # _ \<Rightarrow> url | _ \<Rightarrow> default_url)"

text \<open>
  \<open>main\<close>: each step that may fail has its outcome; every \<open>?\<close> leaves at once, except that the
  result of the loop is kept until the terminal has been restored. A loop that is still running
  has not returned (\<^term>\<open>None\<close>).
\<close>

record set_up =
  su_connect :: "ext_error option"
  su_raw :: "ext_error option"
  su_enter :: "ext_error option"
  su_terminal :: "ext_error option"
  su_unraw :: "ext_error option"
  su_leave :: "ext_error option"

definition tui_main ::
  "render \<Rightarrow> (string \<Rightarrow> order_status option) \<Rightarrow> set_up \<Rightarrow> iteration list \<Rightarrow> terminal \<Rightarrow>
     (ext_error option \<times> terminal) option" where
  "tui_main render from_str su its t =
     (case su_connect su of Some e \<Rightarrow> Some (Some e, t) | None \<Rightarrow>
     (case su_raw su of Some e \<Rightarrow> Some (Some e, t) | None \<Rightarrow>
      let t1 = t\<lparr>tm_raw := True\<rparr> in
     (case su_enter su of Some e \<Rightarrow> Some (Some e, t1) | None \<Rightarrow>
      let t2 = t1\<lparr>tm_alternate := True\<rparr> in
     (case su_terminal su of Some e \<Rightarrow> Some (Some e, t2) | None \<Rightarrow>
     (case tui_loop render from_str its app_new of
        (TE_Running, _) \<Rightarrow> None
      | (exit, _) \<Rightarrow>
         (case su_unraw su of Some e \<Rightarrow> Some (Some e, t2) | None \<Rightarrow>
          let t3 = t2\<lparr>tm_raw := False\<rparr> in
         (case su_leave su of Some e \<Rightarrow> Some (Some e, t3) | None \<Rightarrow>
            Some (case exit of TE_Failed e \<Rightarrow> Some e | _ \<Rightarrow> None, t3\<lparr>tm_alternate := False\<rparr>))))))))"

section \<open>Lemmas\<close>

text \<open>The order shown for a hash.\<close>

definition shown :: "app \<Rightarrow> b256 \<Rightarrow> order_status option" where
  "shown a h = find (\<lambda>st. status_order_hash st = h) (ap_orders a)"

text \<open>Every hash is shown once, and the selection is a row, if there is one.\<close>

definition app_wf :: "app \<Rightarrow> bool" where
  "app_wf a \<longleftrightarrow> distinct (map status_order_hash (ap_orders a)) \<and>
     (case ap_selected a of None \<Rightarrow> ap_orders a = [] | Some i \<Rightarrow> i < length (ap_orders a))"

lemma app_wf_new: "app_wf app_new"
  by (simp add: app_wf_def app_new_def)

text \<open>Replacing the first match and appending, as list operations.\<close>

lemma find_replace:
  "position (\<lambda>y. f y = f x) xs = Some i \<Longrightarrow> find (\<lambda>y. f y = h) (xs[i := x]) = (if f x = h then Some x else find (\<lambda>y. f y = h) xs)"
proof (induction xs arbitrary: i)
  case (Cons y ys)
  then show ?case by (cases "f y = f x") auto
qed simp

lemma find_append: "find P (xs @ ys) = (case find P xs of None \<Rightarrow> find P ys | Some x \<Rightarrow> Some x)"
  by (induction xs) auto

lemma update_order_hashes:
  "map status_order_hash (ap_orders (update_order st a)) =
     (if status_order_hash st \<in> status_order_hash ` set (ap_orders a) then map status_order_hash (ap_orders a)
      else map status_order_hash (ap_orders a) @ [status_order_hash st])"
proof (cases "position (\<lambda>order. status_order_hash order = status_order_hash st) (ap_orders a)")
  case None
  then have "status_order_hash st \<notin> status_order_hash ` set (ap_orders a)" by (auto simp: position_None)
  then show ?thesis using None by (simp add: update_order_def Let_def)
next
  case (Some i)
  note p = position_Some [OF Some]
  then have "map status_order_hash ((ap_orders a)[i := st]) = map status_order_hash (ap_orders a)"
    by (simp add: map_update) (metis list_update_id nth_map)
  moreover have "status_order_hash st \<in> status_order_hash ` set (ap_orders a)"
    using p by (metis imageI nth_mem)
  ultimately show ?thesis using Some by (simp add: update_order_def Let_def)
qed

lemma shown_update_order: "shown (update_order st a) h = (if status_order_hash st = h then Some st else shown a h)"
proof (cases "position (\<lambda>order. status_order_hash order = status_order_hash st) (ap_orders a)")
  case None
  then have "shown a (status_order_hash st) = None"
    by (auto simp: position_None shown_def find_None_iff)
  then show ?thesis using None
    by (auto simp: update_order_def Let_def shown_def find_append split: option.split)
next
  case (Some i)
  then show ?thesis by (simp add: update_order_def Let_def shown_def find_replace [of status_order_hash])
qed

lemma update_order_wf:
  assumes "app_wf a"
  shows "app_wf (update_order st a)"
proof -
  have d: "distinct (map status_order_hash (ap_orders (update_order st a)))"
    using assms by (auto simp: update_order_hashes app_wf_def)
  show ?thesis
  proof (cases "position (\<lambda>order. status_order_hash order = status_order_hash st) (ap_orders a)")
    case None
    then show ?thesis using d assms by (auto simp: app_wf_def update_order_def Let_def split: option.splits)
  next
    case (Some i)
    then show ?thesis using d assms position_Some [OF Some]
      by (auto simp: app_wf_def update_order_def Let_def split: option.splits)
  qed
qed

lemma select_wf: "app_wf a \<Longrightarrow> app_wf (select_next a)" "app_wf a \<Longrightarrow> app_wf (select_prev a)"
  by (auto simp: app_wf_def select_next_def select_prev_def split: option.splits)

lemma app_wf_stop: "app_wf (a\<lparr>ap_running := b\<rparr>) = app_wf a" "app_wf (a\<lparr>ap_connected := b\<rparr>) = app_wf a"
  by (simp_all add: app_wf_def split: option.splits)

lemma handle_key_parts:
  "app_wf a \<Longrightarrow> app_wf (handle_key key a)" "ap_orders (handle_key key a) = ap_orders a"
  by (auto simp: handle_key_def select_wf app_wf_stop) (auto simp: select_next_def select_prev_def)

text \<open>The statuses that an input brings.\<close>

fun received :: "(string \<Rightarrow> order_status option) \<Rightarrow> tui_input list \<Rightarrow> order_status list" where
  "received from_str [] = []"
| "received from_str (TI_Text text # inputs) =
     (case from_str text of Some st \<Rightarrow> [st] | None \<Rightarrow> []) @ received from_str inputs"
| "received from_str (_ # inputs) = received from_str inputs"

lemma received_append: "received from_str (xs @ ys) = received from_str xs @ received from_str ys"
  by (induction from_str xs rule: received.induct) auto

lemma handle_tui_effect:
  assumes "app_wf a" "handle_tui from_str i a = Some a'"
  shows "app_wf a' \<and> (\<forall>h. shown a' h = (case last_update h (received from_str [i]) of None \<Rightarrow> shown a h | Some st \<Rightarrow> Some st))"
proof (cases i)
  case (TI_Key key)
  then show ?thesis using assms by (auto simp: handle_key_parts shown_def)
next
  case (TI_Text msg)
  then show ?thesis using assms
    by (auto simp: update_order_wf shown_update_order last_update_snoc [of _ "[]", simplified] split: option.splits)
next
  case TI_Gone
  then show ?thesis using assms by (auto simp: app_wf_stop shown_def)
qed (use assms in auto)

text \<open>Drawing documented: a selected row that exists, and no selection, stay as they are.\<close>

definition render_ok :: "render \<Rightarrow> bool" where
  "render_ok render \<longleftrightarrow> (\<forall>n. render n None = None) \<and> (\<forall>n i. i < n \<longrightarrow> render n (Some i) = Some i)"

lemma drawn_same: "render_ok render \<Longrightarrow> app_wf a \<Longrightarrow> drawn render a = a"
  by (cases a) (auto simp: drawn_def render_ok_def app_wf_def split: option.splits)

lemma tui_loop_effect:
  assumes "render_ok render" "app_wf a" "tui_loop render from_str its a = (exit, a')"
  shows "\<exists>pre post. its = pre @ post \<and> (exit = TE_Running \<longrightarrow> post = []) \<and> app_wf a' \<and>
    (\<forall>h. shown a' h = (case last_update h (received from_str (map it_input pre)) of
        None \<Rightarrow> shown a h | Some st \<Rightarrow> Some st))"
  using assms(2,3)
proof (induction its arbitrary: a)
  case Nil
  then show ?case by auto
next
  case (Cons it its)
  show ?case
  proof (cases "it_draw_error it = None \<and> ap_running a \<and> handle_tui from_str (it_input it) a \<noteq> None")
    case True
    then obtain a2 where a2: "handle_tui from_str (it_input it) a = Some a2" by auto
    with True Cons.prems(2) have "tui_loop render from_str its a2 = (exit, a')"
      by (simp add: Let_def drawn_same [OF assms(1) Cons.prems(1)])
    with Cons.IH handle_tui_effect [OF Cons.prems(1) a2] obtain pre post where
      r: "its = pre @ post" "exit = TE_Running \<longrightarrow> post = []" "app_wf a'"
        "\<forall>h. shown a' h = (case last_update h (received from_str (map it_input pre)) of None \<Rightarrow> shown a2 h | Some st \<Rightarrow> Some st)"
      by blast
    have "shown a' h = (case last_update h (received from_str (map it_input (it # pre))) of None \<Rightarrow> shown a h | Some st \<Rightarrow> Some st)" for h
      using r(4) handle_tui_effect [OF Cons.prems(1) a2]
        received_append [of from_str "[it_input it]" "map it_input pre"]
      by (auto simp: last_update_append split: option.split)
    with r show ?thesis by (intro exI [of _ "it # pre"] exI [of _ post]) simp
  next
    case False
    with Cons.prems(2) have "a' = a" "exit \<noteq> TE_Running"
      by (auto simp: Let_def drawn_same [OF assms(1) Cons.prems(1)] split: option.splits if_splits)
    then show ?thesis using Cons.prems(1) by (intro exI [of _ "[]"] exI [of _ "it # its"]) simp
  qed
qed


text \<open>The texts among the inputs are all that counts for the orders.\<close>

fun text_inputs :: "tui_input list \<Rightarrow> string list" where
  "text_inputs [] = []"
| "text_inputs (TI_Text text # inputs) = text # text_inputs inputs"
| "text_inputs (_ # inputs) = text_inputs inputs"

lemma received_texts:
  "map from_str (text_inputs inputs) = map Some sts \<Longrightarrow> received from_str inputs = sts"
  by (induction from_str inputs arbitrary: sts rule: received.induct) auto

lemma counts_fold:
  "fold count_status sts (p, f, e) =
     (p + length (filter (\<lambda>st. discriminant st = K_Pending) sts),
      f + length (filter (\<lambda>st. discriminant st = K_Filled) sts),
      e + length (filter (\<lambda>st. discriminant st = K_Expired) sts))"
proof (induction sts arbitrary: p f e)
  case (Cons st sts)
  then show ?case by (cases st) auto
qed simp

section \<open>Properties\<close>

text \<open>
  C35: the client shows the latest status of every order. Whatever the user types and whatever
  else the connection delivers, after any number of iterations every order is listed once, the
  selection is one of the rows (there is none exactly while the list is empty), and the status
  shown for a hash is the last one received for it before the loop ended; and the three counters
  of the title are the numbers of rows of each kind.
\<close>

theorem tui_shows_latest:
  assumes "render_ok render" and "tui_loop render from_str its app_new = (exit, a)"
  shows "distinct (map status_order_hash (ap_orders a)) \<and>
    (case ap_selected a of None \<Rightarrow> ap_orders a = [] | Some i \<Rightarrow> i < length (ap_orders a)) \<and>
    (\<exists>pre post. its = pre @ post \<and> (exit = TE_Running \<longrightarrow> post = []) \<and>
       (\<forall>h. find (\<lambda>st. status_order_hash st = h) (ap_orders a) = last_update h (received from_str (map it_input pre)))) \<and>
    counts a = (length (filter (\<lambda>st. discriminant st = K_Pending) (ap_orders a)),
      length (filter (\<lambda>st. discriminant st = K_Filled) (ap_orders a)),
      length (filter (\<lambda>st. discriminant st = K_Expired) (ap_orders a)))"
proof -
  from tui_loop_effect [OF assms(1) app_wf_new assms(2)] obtain pre post where
    r: "its = pre @ post" "exit = TE_Running \<longrightarrow> post = []" "app_wf a"
      "\<forall>h. shown a h = (case last_update h (received from_str (map it_input pre)) of
         None \<Rightarrow> shown app_new h | Some st \<Rightarrow> Some st)" by blast
  have "shown app_new h = None" for h by (simp add: shown_def app_new_def)
  with r(4) have "\<forall>h. shown a h = last_update h (received from_str (map it_input pre))"
    by (auto split: option.split)
  with r(1-3) show ?thesis by (auto simp: app_wf_def shown_def counts_def counts_fold)
qed

definition draw_then :: "tui_input \<Rightarrow> iteration" where
  "draw_then i = \<lparr>it_draw_error = None, it_input = i\<rparr>"

theorem tui_shows_latest_witness:
  "\<exists>a. tui_loop (\<lambda>_ s. s) (\<lambda>_. Some (Filled 5 7 None)) [draw_then (TI_Text ''x''), draw_then TI_Gone] app_new =
      (TE_Running, a) \<and> find (\<lambda>st. status_order_hash st = 5) (ap_orders a) = Some (Filled 5 7 None)"
proof -
  let ?its = "[draw_then (TI_Text ''x''), draw_then TI_Gone]"
  obtain exit a where l: "tui_loop (\<lambda>_ s. s) (\<lambda>_. Some (Filled 5 7 None)) ?its app_new = (exit, a)"
    by (rule prod.exhaust)
  then have e: "exit = TE_Running"
    by (auto simp: draw_then_def app_new_def Let_def update_order_def drawn_def)
  have "render_ok (\<lambda>_ s. s)" by (simp add: render_ok_def)
  from tui_shows_latest [OF this l] e
  have "find (\<lambda>st. status_order_hash st = 5) (ap_orders a) =
      last_update 5 (received (\<lambda>_. Some (Filled 5 7 None)) (map it_input ?its))" by auto
  then show ?thesis using l e by (simp add: draw_then_def last_update_def)
qed

text \<open>
  The terminal is given back. When the loop ends, however it ends, and the two calls that
  restore the terminal succeed, it is out of raw mode and off the alternate screen, and the
  error of the loop, if any, is what the program returns; but an error during the set-up, after
  raw mode is on, leaves it on.
\<close>

theorem tui_restores_terminal:
  assumes "su_connect su = None" "su_raw su = None"
  shows "(su_enter su = None \<and> su_terminal su = None \<and> su_unraw su = None \<and> su_leave su = None \<longrightarrow>
      (case tui_main render from_str su its t of
         None \<Rightarrow> fst (tui_loop render from_str its app_new) = TE_Running
       | Some (e, t') \<Rightarrow> \<not> tm_raw t' \<and> \<not> tm_alternate t' \<and>
           (e \<noteq> None \<longleftrightarrow> (\<exists>err. fst (tui_loop render from_str its app_new) = TE_Failed err)))) \<and>
    (su_enter su \<noteq> None \<or> su_terminal su \<noteq> None \<longrightarrow>
       (\<exists>e t'. tui_main render from_str su its t = Some (Some e, t') \<and> tm_raw t'))"
  using assms
  by (cases "su_enter su"; cases "su_terminal su")
    (auto simp: tui_main_def Let_def split: prod.split tui_exit.split option.split)

theorem tui_restores_terminal_witness:
  "\<exists>e t'. tui_main (\<lambda>_ s. s) (\<lambda>_. None) \<lparr>su_connect = None, su_raw = None, su_enter = Some (Ext_Error ''tty'' None),
     su_terminal = None, su_unraw = None, su_leave = None\<rparr> [] \<lparr>tm_raw = False, tm_alternate = False\<rparr> =
     Some (Some e, t') \<and> tm_raw t'"
  using tui_restores_terminal [of "\<lparr>su_connect = None, su_raw = None, su_enter = Some (Ext_Error ''tty'' None),
     su_terminal = None, su_unraw = None, su_leave = None\<rparr>" "\<lambda>_ s. s" "\<lambda>_. None" "[]" "\<lparr>tm_raw = False, tm_alternate = False\<rparr>"]
  by simp

end
