(* ===== verification/TuiView.thy ===== *)
theory TuiView
  imports Tui
begin

text \<open>
  What the terminal client draws (\<open>examples/tui/ui.rs\<close>): the list of orders, the details of
  the selected one and the help line, as data. A string is its UTF-8 bytes, as in the code, where
  lengths and slices are in bytes; slicing inside a character panics (\<^term>\<open>None\<close>), and so does
  printing a duration that cannot be rounded. Where
  the widgets put the text on the screen belongs to the widget library.
\<close>

section \<open>Text and styles\<close>

datatype color = C_Yellow | C_Green | C_Red | C_DarkGray | C_Cyan | C_White

record style =
  sy_fg :: "color option"
  sy_bold :: bool
  sy_reversed :: bool

definition plain :: style where
  "plain = \<lparr>sy_fg = None, sy_bold = False, sy_reversed = False\<rparr>"

definition fg :: "color \<Rightarrow> style" where
  "fg c = plain\<lparr>sy_fg := Some c\<rparr>"

type_synonym ui_span = "string \<times> style"
type_synonym ui_line = "ui_span list"

datatype constraint = Percentage nat | Fill nat | Fixed nat

text \<open>The characters beyond ASCII: dash, bar, arrows, pointer, ellipsis, check and cross.\<close>

definition em_dash :: string where "em_dash = [CHR 0xE2, CHR 0x80, CHR 0x94]"
definition vertical_bar :: string where "vertical_bar = [CHR 0xE2, CHR 0x94, CHR 0x82]"
definition arrow_up :: string where "arrow_up = [CHR 0xE2, CHR 0x86, CHR 0x91]"
definition arrow_down :: string where "arrow_down = [CHR 0xE2, CHR 0x86, CHR 0x93]"
definition arrow_right :: string where "arrow_right = [CHR 0xE2, CHR 0x86, CHR 0x92]"
definition pointer :: string where "pointer = [CHR 0xE2, CHR 0x96, CHR 0xB8]"
definition ellipsis :: string where "ellipsis = [CHR 0xE2, CHR 0x80, CHR 0xA6]"
definition check_mark :: string where "check_mark = [CHR 0xE2, CHR 0x9C, CHR 0x93]"
definition cross_mark :: string where "cross_mark = [CHR 0xE2, CHR 0x9C, CHR 0x97]"

text \<open>How the dependencies display a hash and an address.\<close>

record displays =
  ds_b256 :: "b256 \<Rightarrow> string"
  ds_address :: "address \<Rightarrow> string"

text \<open>\<open>str::is_char_boundary\<close>: the byte at the index does not continue a character.\<close>

definition char_boundary :: "nat \<Rightarrow> string \<Rightarrow> bool" where
  "char_boundary i s \<longleftrightarrow> i = length s \<or>
     i < length s \<and> \<not> (0x80 \<le> (of_char (s ! i) :: nat) \<and> (of_char (s ! i) :: nat) < 0xC0)"

definition truncate_hash :: "string \<Rightarrow> string option" where
  "truncate_hash hash =
     (if length hash > 14 then
        (if char_boundary 10 hash \<and> char_boundary (length hash - 4) hash
         then Some (take 10 hash @ ellipsis @ drop (length hash - 4) hash) else None)
      else Some hash)"

section \<open>Labels\<close>

definition status_display :: "order_status \<Rightarrow> string \<times> color" where
  "status_display order = (case order of
     Pending _ _ _ \<Rightarrow> (''PENDING'', C_Yellow)
   | Filled _ _ _ \<Rightarrow> (''FILLED'', C_Green)
   | Expired _ _ _ \<Rightarrow> (''EXPIRED'', C_Red))"

definition maybe_bool_icon :: "maybe_bool \<Rightarrow> string" where
  "maybe_bool_icon value = (case value of MB_True \<Rightarrow> check_mark | MB_False \<Rightarrow> cross_mark | MB_Unknown \<Rightarrow> ''?'')"

definition maybe_bool_style :: "maybe_bool \<Rightarrow> style" where
  "maybe_bool_style value = (case value of MB_True \<Rightarrow> fg C_Green | MB_False \<Rightarrow> fg C_Red | MB_Unknown \<Rightarrow> fg C_Yellow)"

definition bool_icon :: "bool \<Rightarrow> string \<times> color" where
  "bool_icon value = (if value then (check_mark, C_Green) else (cross_mark, C_Red))"

definition diagnostics_summary :: "printers \<Rightarrow> order_diagnostics \<Rightarrow> string option" where
  "diagnostics_summary P diagnostics = do {
     expires_in \<leftarrow> pretty_duration_display P (dc_expires_in (od_deadline_check diagnostics));
     Some (expires_in @
       ''  cache:'' @ maybe_bool_icon (od_is_in_cache diagnostics) @
       '' bal:'' @ maybe_bool_icon (bcs_all_sufficient (od_balance_checks diagnostics)) @
       '' allow:'' @ maybe_bool_icon (acs_all_sufficient (od_allowance_checks diagnostics)))
   }"

definition info_summary :: "printers \<Rightarrow> order_status \<Rightarrow> string option" where
  "info_summary P order = (case order of
     Pending _ _ diagnostics \<Rightarrow> diagnostics_summary P diagnostics
   | Expired _ _ diagnostics \<Rightarrow> diagnostics_summary P diagnostics
   | Filled _ _ (Some info) \<Rightarrow> Some (''block '' @ decimal (unat (fi_block_number info)))
   | Filled _ _ None \<Rightarrow> Some ''fill info unavailable'')"

section \<open>The list of orders\<close>

record order_row =
  or_hash :: string
  or_status :: ui_span
  or_info :: string

record order_table =
  tb_title :: string
  tb_header :: "string list"
  tb_header_style :: style
  tb_rows :: "order_row list"
  tb_widths :: "constraint list"
  tb_selected :: "nat option"
  tb_highlight :: ui_span

definition order_row_of :: "printers \<Rightarrow> displays \<Rightarrow> order_status \<Rightarrow> order_row option" where
  "order_row_of P D order = do {
     hash \<leftarrow> truncate_hash (ds_b256 D (status_order_hash order));
     let (status_str, color) = status_display order;
     info \<leftarrow> info_summary P order;
     Some \<lparr>or_hash = hash, or_status = (status_str, fg color), or_info = info\<rparr>
   }"

definition list_title :: "app \<Rightarrow> string" where
  "list_title a = (case counts a of (pending, filled, expired) \<Rightarrow>
     '' Orders '' @ em_dash @ '' '' @ decimal pending @ '' pending '' @ vertical_bar @ '' '' @
     decimal filled @ '' filled '' @ vertical_bar @ '' '' @ decimal expired @ '' expired '')"

definition draw_order_list :: "printers \<Rightarrow> displays \<Rightarrow> app \<Rightarrow> order_table option" where
  "draw_order_list P D a = do {
     rows \<leftarrow> those (map (order_row_of P D) (ap_orders a));
     Some \<lparr>tb_title = list_title a, tb_header = [''Hash'', ''Status'', ''Info''],
       tb_header_style = fg C_DarkGray, tb_rows = rows,
       tb_widths = [Fixed 17, Fixed 9, Fill 1], tb_selected = ap_selected a,
       tb_highlight = (pointer @ '' '', plain\<lparr>sy_reversed := True\<rparr>)\<rparr>
   }"

section \<open>The details\<close>

definition label :: "string \<Rightarrow> ui_span" where "label s = (s, fg C_DarkGray)"
definition accent :: "string \<Rightarrow> ui_span" where "accent s = (s, fg C_Cyan)"
definition raw :: "string \<Rightarrow> ui_span" where "raw s = (s, plain)"

definition maybe_span :: "maybe_bool \<Rightarrow> ui_span" where
  "maybe_span b = (maybe_bool_icon b, maybe_bool_style b)"

definition check_line :: "printers \<Rightarrow> bool \<Rightarrow> string \<Rightarrow> amount \<Rightarrow> amount \<Rightarrow> ui_line" where
  "check_line P sufficient symbol held req = (case bool_icon sufficient of (icon, icon_color) \<Rightarrow>
     [raw ''  '', (icon, fg icon_color),
      raw ('' '' @ symbol @ '': '' @ amount_display P held @ '' / '' @ amount_display P req)])"

definition header_lines :: "displays \<Rightarrow> order_status \<Rightarrow> ui_line list" where
  "header_lines D order = (case status_display order of (status_str, color) \<Rightarrow>
     [[label ''Order: '', accent (ds_b256 D (status_order_hash order))],
      [label ''Owner: '', accent (ds_address D (status_owner order))],
      [label ''Status: '', (status_str, (fg color)\<lparr>sy_bold := True\<rparr>)],
      []])"

definition diagnostics_lines :: "printers \<Rightarrow> order_diagnostics \<Rightarrow> ui_line list option" where
  "diagnostics_lines P d = do {
     expires_in \<leftarrow> pretty_duration_display P (dc_expires_in (od_deadline_check d));
     Some ([[label ''In cache: '', maybe_span (od_is_in_cache d)],
      [label ''Deadline: '', raw (timestamp_display P (dc_deadline (od_deadline_check d)))],
      [label ''Expires in: '', raw expires_in],
      [label ''Checked at: '', raw (timestamp_display P (dc_checked_at (od_deadline_check d)))],
      [],
      [label ''Allowances: '', maybe_span (acs_all_sufficient (od_allowance_checks d))]] @
     map (\<lambda>c. check_line P (ac_sufficient c) (ac_token_symbol c) (ac_allowance c) (ac_required c))
       (acs_checks (od_allowance_checks d)) @
     [[],
      [label ''Balances: '', maybe_span (bcs_all_sufficient (od_balance_checks d))]] @
     map (\<lambda>c. check_line P (bc_sufficient c) (bc_token_symbol c) (bc_balance c) (bc_required c))
       (bcs_checks (od_balance_checks d)))
   }"

definition output_line :: "printers \<Rightarrow> displays \<Rightarrow> fill_output \<Rightarrow> ui_line option" where
  "output_line P D x = do {
     recipient \<leftarrow> truncate_hash (ds_address D (fo_recipient x));
     Some [raw (''  '' @ fo_token_symbol x @ '' '' @ amount_display P (fo_amount x) @ '' '' @
       arrow_right @ '' '' @ recipient @ '' ('' @ chain_as_str (fo_chain x) @ '')'')]
   }"

definition fill_lines :: "printers \<Rightarrow> displays \<Rightarrow> fill_info \<Rightarrow> ui_line list option" where
  "fill_lines P D info = do {
     outputs \<leftarrow> those (map (output_line P D) (fi_outputs info));
     Some ([[label ''Block: '', raw (decimal (unat (fi_block_number info)))]] @
       (case fi_rollup_initiation_tx info of None \<Rightarrow> []
        | Some tx \<Rightarrow> [[label ''Initiation tx: '', accent (ds_b256 D tx)]]) @
       (case fi_fill_tx info of None \<Rightarrow> []
        | Some fill_tx \<Rightarrow> [[label (''Fill tx ('' @ chain_as_str (ct_chain fill_tx) @ ''): ''),
            accent (ds_b256 D (ct_tx_hash fill_tx))]]) @
       (if outputs \<noteq> [] then [[], [label ''Outputs:'']] @ outputs else []))
   }"

definition order_lines :: "printers \<Rightarrow> displays \<Rightarrow> order_status \<Rightarrow> ui_line list option" where
  "order_lines P D order = (case order of
     Pending _ _ diagnostics \<Rightarrow> map_option (\<lambda>ls. header_lines D order @ ls) (diagnostics_lines P diagnostics)
   | Expired _ _ diagnostics \<Rightarrow> map_option (\<lambda>ls. header_lines D order @ ls) (diagnostics_lines P diagnostics)
   | Filled _ _ None \<Rightarrow> Some (header_lines D order @ [[label ''Fill info not available'']])
   | Filled _ _ (Some info) \<Rightarrow> map_option (\<lambda>ls. header_lines D order @ ls) (fill_lines P D info))"

definition draw_details :: "printers \<Rightarrow> displays \<Rightarrow> app \<Rightarrow> ui_line list option" where
  "draw_details P D a = (case selected_order a of
     None \<Rightarrow> Some [[label ''No order selected'']]
   | Some order \<Rightarrow> order_lines P D order)"

section \<open>The screen\<close>

definition draw_help_bar :: "app \<Rightarrow> ui_line" where
  "draw_help_bar a =
     (case (if ap_connected a then (''connected'', C_Green) else (''disconnected'', C_Red)) of
        (status_text, status_color) \<Rightarrow>
          [('' '' @ arrow_up @ ''/'' @ arrow_down @ '' '', (fg C_White)\<lparr>sy_bold := True\<rparr>),
           label ''navigate  '',
           (''q '', (fg C_White)\<lparr>sy_bold := True\<rparr>),
           label ''quit'',
           raw ''  '',
           (status_text, fg status_color)])"

record screen =
  sc_layout :: "constraint list"
  sc_list :: order_table
  sc_details_title :: string
  sc_details :: "ui_line list"
  sc_help :: ui_line

text \<open>The list is drawn first; drawing it may move the selection that the details then show.\<close>

definition draw :: "render \<Rightarrow> printers \<Rightarrow> displays \<Rightarrow> app \<Rightarrow> (screen \<times> app) option" where
  "draw render P D a = do {
     table \<leftarrow> draw_order_list P D a;
     let a1 = drawn render a;
     details \<leftarrow> draw_details P D a1;
     Some (\<lparr>sc_layout = [Percentage 40, Fill 1, Fixed 1], sc_list = table,
       sc_details_title = '' Details '', sc_details = details, sc_help = draw_help_bar a1\<rparr>, a1)
   }"

section \<open>Lemmas\<close>

text \<open>Hashes and addresses are written in ASCII, in hexadecimal.\<close>

definition ascii :: "string \<Rightarrow> bool" where
  "ascii s \<longleftrightarrow> (\<forall>c \<in> set s. (of_char c :: nat) < 0x80)"

definition displays_ok :: "displays \<Rightarrow> bool" where
  "displays_ok D \<longleftrightarrow> (\<forall>h. ascii (ds_b256 D h)) \<and> (\<forall>a. ascii (ds_address D a))"

lemma ascii_boundary:
  assumes "ascii s" "i \<le> length s"
  shows "char_boundary i s"
proof (cases "i = length s")
  case False
  with assms have "i < length s" "s ! i \<in> set s" by simp_all
  with assms(1) have "(of_char (s ! i) :: nat) < 0x80" by (simp add: ascii_def)
  with False show ?thesis using assms(2) by (simp add: char_boundary_def)
qed (simp add: char_boundary_def)

lemma truncate_ascii:
  "ascii s \<Longrightarrow> truncate_hash s =
     Some (if length s > 14 then take 10 s @ ellipsis @ drop (length s - 4) s else s)"
  by (simp add: truncate_hash_def ascii_boundary)

definition short :: "string \<Rightarrow> string" where
  "short s = (if length s > 14 then take 10 s @ ellipsis @ drop (length s - 4) s else s)"

lemma those_map_Some: "\<forall>x \<in> set xs. f x = Some (g x) \<Longrightarrow> those (map f xs) = Some (map g xs)"
  by (induction xs) auto

lemma info_summary_ok: "rounding_ok P \<Longrightarrow> status_in_range order \<Longrightarrow> \<exists>s. info_summary P order = Some s"
  using display_in_range [of P]
  by (fastforce simp: info_summary_def diagnostics_summary_def status_in_range_def split: order_status.split option.split)

lemma order_row_ok:
  assumes "displays_ok D" "rounding_ok P" "status_in_range order"
  shows "order_row_of P D order =
     Some \<lparr>or_hash = short (ds_b256 D (status_order_hash order)),
       or_status = (fst (status_display order), fg (snd (status_display order))), or_info = the (info_summary P order)\<rparr>"
  using assms info_summary_ok [OF assms(2,3)]
  by (auto simp: order_row_of_def displays_ok_def truncate_ascii short_def Let_def split: prod.split)

lemma fill_lines_ok: "displays_ok D \<Longrightarrow> \<exists>ls. fill_lines P D info = Some ls"
proof -
  assume "displays_ok D"
  then have "\<forall>x \<in> set (fi_outputs info). output_line P D x = Some (the (output_line P D x))"
    by (auto simp: output_line_def displays_ok_def truncate_ascii)
  from those_map_Some [OF this] show ?thesis by (simp add: fill_lines_def)
qed

lemma diagnostics_lines_ok:
  "rounding_ok P \<Longrightarrow> \<bar>pd_nanos (dc_expires_in (od_deadline_check d))\<bar> \<le> duration_limit \<Longrightarrow> \<exists>ls. diagnostics_lines P d = Some ls"
  using display_in_range [of P] by (fastforce simp: diagnostics_lines_def)

lemma order_lines_ok:
  assumes "displays_ok D" "rounding_ok P" "status_in_range order"
  shows "\<exists>ls. order_lines P D order = Some (header_lines D order @ ls)"
proof (cases order)
  case (Pending h w d)
  with diagnostics_lines_ok [OF assms(2), of d] assms(3) show ?thesis by (auto simp: order_lines_def status_in_range_def)
next
  case (Expired h w d)
  with diagnostics_lines_ok [OF assms(2), of d] assms(3) show ?thesis by (auto simp: order_lines_def status_in_range_def)
next
  case (Filled h w info)
  with fill_lines_ok [OF assms(1), of P] show ?thesis by (cases info) (fastforce simp: order_lines_def)+
qed

lemma counts_sum: "counts a = (p, f, e) \<Longrightarrow> p + f + e = length (ap_orders a)"
proof -
  have "fold count_status sts (p0, f0, e0) = (p, f, e) \<Longrightarrow> p + f + e = p0 + f0 + e0 + length sts" for sts p0 f0 e0
  proof (induction sts arbitrary: p0 f0 e0)
    case (Cons st sts)
    then show ?case by (cases st) fastforce+
  qed simp
  then show "counts a = (p, f, e) \<Longrightarrow> ?thesis" by (force simp: counts_def)
qed

section \<open>Properties\<close>

text \<open>
  C36: drawing shows every order and cannot panic. With hashes and addresses in ASCII no slice is
  inside a character, and a time left of up to 63 bits of seconds (the tracker computes no other)
  can be rounded, so drawing succeeds in every state the application can be in; the list has one
  row per order, in order, with the label of its own status; the three numbers in the title add
  up to the number of rows; the highlighted row is the order whose full hash, owner and status
  head the details; and the help line says \<open>connected\<close> exactly while it is.
\<close>

theorem draw_shows_orders:
  assumes "displays_ok D" and "render_ok render"
    and "rounding_ok P" "\<forall>order \<in> set (ap_orders a). status_in_range order"
    and "distinct (map status_order_hash (ap_orders a))"
    and "case ap_selected a of None \<Rightarrow> ap_orders a = [] | Some i \<Rightarrow> i < length (ap_orders a)"
  shows "\<exists>scr. draw render P D a = Some (scr, a) \<and>
    map or_status (tb_rows (sc_list scr)) = map (\<lambda>o'. (fst (status_display o'), fg (snd (status_display o')))) (ap_orders a) \<and>
    map or_hash (tb_rows (sc_list scr)) = map (\<lambda>o'. short (ds_b256 D (status_order_hash o'))) (ap_orders a) \<and>
    (case counts a of (p, f, e) \<Rightarrow> p + f + e = length (tb_rows (sc_list scr))) \<and>
    (case tb_selected (sc_list scr) of
       None \<Rightarrow> sc_details scr = [[label ''No order selected'']]
     | Some i \<Rightarrow> \<exists>ls. sc_details scr = header_lines D (ap_orders a ! i) @ ls) \<and>
    fst (last (sc_help scr)) = (if ap_connected a then ''connected'' else ''disconnected'')"
proof -
  have rows: "those (map (order_row_of P D) (ap_orders a)) = Some (map (\<lambda>order. the (order_row_of P D order)) (ap_orders a))"
    by (rule those_map_Some) (simp add: order_row_ok [OF assms(1,3)] assms(4))
  obtain ls where details: "draw_details P D a = Some ls" and
    sel: "case ap_selected a of None \<Rightarrow> ls = [[label ''No order selected'']]
      | Some i \<Rightarrow> \<exists>ls'. ls = header_lines D (ap_orders a ! i) @ ls'"
  proof (cases "ap_selected a")
    case None
    then show ?thesis by (intro that [of "[[label ''No order selected'']]"]) (simp_all add: draw_details_def selected_order_def)
  next
    case (Some i)
    then have "status_in_range (ap_orders a ! i)" using assms(4,6) by simp
    then obtain ls' where "order_lines P D (ap_orders a ! i) = Some (header_lines D (ap_orders a ! i) @ ls')"
      using order_lines_ok [OF assms(1,3)] by blast
    then show ?thesis using Some assms(6)
      by (intro that [of "header_lines D (ap_orders a ! i) @ ls'"]) (auto simp: draw_details_def selected_order_def)
  qed
  have sum: "case counts a of (p, f, e) \<Rightarrow> p + f + e = length (ap_orders a)"
    using counts_sum by (auto split: prod.split)
  have same: "drawn render a = a"
    using assms(5,6) by (intro drawn_same [OF assms(2)]) (simp add: app_wf_def split: option.split)
  show ?thesis
    using sel sum
    by (simp add: draw_def same Let_def draw_order_list_def rows details order_row_ok [OF assms(1,3)] assms(4) draw_help_bar_def
        comp_def split: option.splits)
qed

definition demo_displays :: displays where
  "demo_displays = \<lparr>ds_b256 = (\<lambda>h. unary (unat h)), ds_address = (\<lambda>a. unary (unat a))\<rparr>"

lemma demo_displays_ok: "displays_ok demo_displays"
  by (auto simp: displays_ok_def demo_displays_def ascii_def unary_def)

theorem draw_shows_orders_witness:
  "\<exists>scr a. draw (\<lambda>_ s. s) demo_printers demo_displays (update_order (Filled 5 7 None) app_new) = Some (scr, a) \<and>
     map or_status (tb_rows (sc_list scr)) = [(''FILLED'', fg C_Green)]"
  using draw_shows_orders [OF demo_displays_ok, of "\<lambda>_ s. s" demo_printers "update_order (Filled 5 7 None) app_new"]
  by (auto simp: update_order_def app_new_def status_display_def render_ok_def rounding_ok_def demo_printers_def
      status_in_range_def)

end
