(* ===== verification/Subscribers.thy ===== *)
theory Subscribers
  imports WsHandlers StateManagerProps
begin

text \<open>
  The broadcast channel between the state manager and the sessions (\<open>broadcast::channel(1024)\<close>
  in \<open>lib.rs\<close>, \<open>recv\<close> in \<open>ws/handlers.rs\<close>), as the standard documentation of \<open>tokio\<close>
  has it: a receiver is a position in the history of what was sent; the channel keeps the last
  \<open>capacity\<close> values; a receiver that is further behind is told how many it missed and goes on
  with the oldest value kept.
\<close>

section \<open>Receiving\<close>

definition update_capacity :: nat where "update_capacity = 1024"

datatype 'a received = Received 'a | Missed nat

text \<open>\<^term>\<open>None\<close>: nothing new, the receiver waits.\<close>

definition recv :: "nat \<Rightarrow> 'a list \<Rightarrow> nat \<Rightarrow> ('a received \<times> nat) option" where
  "recv capacity history pos =
     (let oldest = length history - capacity
      in if pos < oldest then Some (Missed (oldest - pos), oldest)
         else if pos < length history then Some (Received (history ! pos), Suc pos)
         else None)"

text \<open>A receiver that polls at some moments; each is the history at that moment.\<close>

fun recv_all :: "nat \<Rightarrow> 'a list list \<Rightarrow> nat \<Rightarrow> 'a received list \<times> nat" where
  "recv_all capacity [] pos = ([], pos)"
| "recv_all capacity (history # hs) pos =
     (case recv capacity history pos of
        None \<Rightarrow> recv_all capacity hs pos
      | Some (r, pos1) \<Rightarrow> (case recv_all capacity hs pos1 of (rs, pos2) \<Rightarrow> (r # rs, pos2)))"

text \<open>What a session's loop selects when \<open>recv\<close> returns.\<close>

fun session_input :: "order_status received \<Rightarrow> ws_input" where
  "session_input (Received st) = WI_Update st"
| "session_input (Missed n) = WI_Lagged n"

section \<open>Lemmas\<close>

fun received_values :: "'a received list \<Rightarrow> 'a list" where
  "received_values [] = []"
| "received_values (Received x # rs) = x # received_values rs"
| "received_values (Missed n # rs) = received_values rs"

text \<open>What happens at each moment: nothing new, the next value, or a gap.\<close>

lemma recv_induct [consumes 1, case_names Nil Wait Got Lag]:
  assumes "recv_all capacity hs pos = (rs, pos')"
    and "\<And>pos. P [] pos [] pos"
    and "\<And>history hs pos rs pos'. recv_all capacity hs pos = (rs, pos') \<Longrightarrow> P hs pos rs pos' \<Longrightarrow>
      length history \<le> pos \<Longrightarrow> P (history # hs) pos rs pos'"
    and "\<And>history hs pos rs pos'. pos < length history \<Longrightarrow> length history \<le> pos + capacity \<Longrightarrow>
      recv_all capacity hs (Suc pos) = (rs, pos') \<Longrightarrow> P hs (Suc pos) rs pos' \<Longrightarrow>
      P (history # hs) pos (Received (history ! pos) # rs) pos'"
    and "\<And>history hs pos rs pos' n. pos + capacity + n = length history \<Longrightarrow> 0 < n \<Longrightarrow>
      recv_all capacity hs (pos + n) = (rs, pos') \<Longrightarrow> P hs (pos + n) rs pos' \<Longrightarrow>
      P (history # hs) pos (Missed n # rs) pos'"
  shows "P hs pos rs pos'"
  using assms(1)
proof (induction hs arbitrary: pos rs)
  case (Cons history hs)
  consider "length history \<le> pos" | "pos < length history" "length history \<le> pos + capacity"
    | n where "pos + capacity + n = length history" "0 < n"
    by (metis less_imp_add_positive linorder_not_le)
  then show ?case
  proof cases
    case 1
    then have "recv capacity history pos = None" by (auto simp: recv_def Let_def)
    then have "recv_all capacity hs pos = (rs, pos')" using Cons.prems by simp
    then show ?thesis using assms(3) Cons.IH 1 by blast
  next
    case 2
    obtain rs1 p1 where r: "recv_all capacity hs (Suc pos) = (rs1, p1)" by (rule prod.exhaust)
    from 2 have "recv capacity history pos = Some (Received (history ! pos), Suc pos)" by (auto simp: recv_def Let_def)
    with r Cons.prems have "rs = Received (history ! pos) # rs1" "p1 = pos'" by auto
    then show ?thesis using assms(4) [OF 2] Cons.IH r by blast
  next
    case (3 n)
    obtain rs1 p1 where r: "recv_all capacity hs (pos + n) = (rs1, p1)" by (rule prod.exhaust)
    have "recv capacity history pos = Some (Missed n, pos + n)"
      using 3 by (simp add: recv_def Let_def flip: 3(1))
    with r Cons.prems have "rs = Missed n # rs1" "p1 = pos'" by auto
    then show ?thesis using assms(5) [OF 3] Cons.IH r by blast
  qed
qed (use assms(2) in simp)

text \<open>A history whose last status about an order is at a position that the receiver has passed.\<close>

lemma recv_all_past:
  "recv_all capacity hs pos = (rs, pos') \<Longrightarrow> k \<le> pos \<Longrightarrow> \<forall>history \<in> set hs. \<forall>x \<in> set (drop k history). Q x \<Longrightarrow>
     \<forall>x \<in> set (received_values rs). Q x"
proof (induction rule: recv_induct)
  case (Got history hs pos rs pos')
  have "history ! pos \<in> set (drop k history)"
    using Got.hyps(1) Got.prems(1) nth_mem [of "pos - k" "drop k history"] by simp
  then show ?case using Got by auto
qed auto

section \<open>Properties\<close>

text \<open>
  C33: a session that lags never learns how an order ended. When at least as many statuses as the
  channel holds have been broadcast after the last one about an order before the session of an
  all-orders client polls again, that status is gone; the session only logs the gap and does not
  ask for a new snapshot, so as long as nothing more is broadcast about the order (it has been
  evicted) the client is sent nothing about it, and keeps showing what it was sent before.
\<close>

theorem lag_loses_final_status:
  assumes "reliable net to_string" and "pos \<le> length us" and "capacity \<le> length vs" and "0 < capacity"
    and "\<forall>history \<in> set hs. \<exists>ws. history = us @ final # vs @ ws \<and>
      (\<forall>st \<in> set (vs @ ws). status_order_hash st \<noteq> status_order_hash final)"
    and "recv_all capacity hs pos = (rs, pos')"
  shows "\<exists>c'. all_orders_loop net to_string parse order_filter_default (map session_input rs) c = (Open, c') \<and>
    cn_sent c' = cn_sent c @ texts to_string (received_values rs) \<and>
    last_update (status_order_hash final) (received_values rs) = None"
proof -
  have quiet: "\<forall>st \<in> set (received_values rs). status_order_hash st \<noteq> status_order_hash final"
  proof (cases hs)
    case (Cons history hs')
    with assms(5) obtain ws where h: "history = us @ final # vs @ ws" by auto
    let ?k = "length history - capacity"
    have k: "pos < ?k" "length us < ?k" using assms(2,3) h by auto
    obtain rs1 p1 where r: "recv_all capacity hs' ?k = (rs1, p1)" by (rule prod.exhaust)
    with assms(6) Cons k have rs: "rs = Missed (?k - pos) # rs1" by (simp add: recv_def Let_def)
    have "\<forall>history \<in> set hs'. \<forall>st \<in> set (drop (Suc (length us)) history). status_order_hash st \<noteq> status_order_hash final"
      using assms(5) Cons by fastforce
    with recv_all_past [OF r, of "Suc (length us)"] k show ?thesis by (simp add: rs)
  qed (use assms(6) in simp)
  have "last_update (status_order_hash final) (received_values rs) = None"
    unfolding last_update_None using quiet by (metis imageE)
  moreover have "persistent (map session_input rs)" by (induction rs rule: received_values.induct) auto
  moreover have "forwarded parse order_filter_default (map session_input rs) = received_values rs"
    by (induction rs rule: received_values.induct) (auto simp: matches_filter_def order_filter_default_def)
  ultimately show ?thesis
    using all_orders_loop_effect [OF assms(1), of "map session_input rs" parse order_filter_default c]
    by auto
qed

theorem lag_loses_final_status_witness:
  "\<exists>rs pos' c'. recv_all 1 [[Filled 5 7 None, Filled 6 7 None], [Filled 5 7 None, Filled 6 7 None]] 0 = (rs, pos') \<and>
     all_orders_loop (\<lambda>_. True) (\<lambda>_. Some ''s'') (\<lambda>_. None) order_filter_default (map session_input rs) demo_connection = (Open, c') \<and>
     length (cn_sent c') = 1 \<and> last_update 5 (received_values rs) = None"
proof -
  let ?hs = "[[Filled 5 7 None, Filled 6 7 None], [Filled 5 7 None, Filled 6 7 None]]"
  obtain rs pos' where r: "recv_all 1 ?hs 0 = (rs, pos')" by (rule prod.exhaust)
  have rel: "reliable (\<lambda>_. True) (\<lambda>_. Some ''s'')" by (simp add: reliable_def)
  have rs: "received_values rs = [Filled 6 7 None]" using r by (auto simp: recv_def)
  show ?thesis
    using lag_loses_final_status [OF rel _ _ _ _ r, of "[]" "[Filled 6 7 None]" "Filled 5 7 None" "\<lambda>_. None" demo_connection]
      r rs by (auto simp: demo_connection_def)
qed

end
