(* ===== verification/Sessions.thy ===== *)
theory Sessions
  imports Server Subscribers
begin

text \<open>
  The WebSocket sessions as tasks beside the server's own (\<open>ws/handlers.rs\<close> within \<open>run\<close> of
  \<open>lib.rs\<close>): each upgrade starts a handler of its own, which shares the channels and the
  broadcast history with the state manager and takes its steps in between the others'. A step is
  one stretch of a handler from one point where it waits to the next, with the definitions of
  \<open>WsHandlers\<close>. A session is known by its number, in the order of the upgrades; the same number
  stands for its oneshot channel.
\<close>

section \<open>State\<close>

text \<open>Each client's side of its connection, the JSON printer and the parser of filters.\<close>

record ws_world =
  wv_network :: "nat \<Rightarrow> network"
  wv_to_string :: "order_status \<Rightarrow> string option"
  wv_parse :: "string \<Rightarrow> order_filter option"
  wv_not_found :: string

text \<open>A single-order session has the hash that was asked for and what the cache answered.\<close>

datatype ws_kind = All_Orders | Single_Order b256 "(ext_error + signed_order) list"

fun endpoint_of :: "ws_kind \<Rightarrow> ws_endpoint" where
  "endpoint_of All_Orders = WS_All"
| "endpoint_of (Single_Order _ _) = WS_Single"

definition found_order :: "b256 \<Rightarrow> (ext_error + signed_order) list \<Rightarrow> signed_order option" where
  "found_order h stream =
     (case try_next_order (\<lambda>order. so_hash order = h) stream of Inl _ \<Rightarrow> None | Inr found \<Rightarrow> found)"

text \<open>Where a handler waits: to send its request, for the answer, to subscribe, in its loop.\<close>

datatype ws_phase = Asking | Waiting | Subscribing | Looping order_filter | Over

text \<open>
  \<open>ws_from\<close> is the position in the broadcast history at which the session subscribed,
  \<open>ws_pos\<close> the one that its receiver has reached. For the statements a session records whether
  its request was sent, what it was answered and what its loop has selected.
\<close>

record ws_session =
  ws_kind :: ws_kind
  ws_phase :: ws_phase
  ws_from :: nat
  ws_pos :: nat
  ws_conn :: connection
  ws_asked :: bool
  ws_snapshot :: "order_status list option"
  ws_report :: "order_status option"
  ws_inputs :: "ws_input list"

definition connection_new :: connection where
  "connection_new = \<lparr>cn_attempts = 0, cn_sent = [], cn_closed = False, cn_requests = [], cn_metrics = metrics_new\<rparr>"

section \<open>What a handler does between two waits\<close>

text \<open>
  From the upgrade to the first wait: the guard, then the subscription (all orders) or the
  look-up (single order). \<open>here\<close> is the length of the broadcast history.
\<close>

definition new_session :: "ws_kind \<Rightarrow> nat \<Rightarrow> ws_session" where
  "new_session kind here = \<lparr>ws_kind = kind, ws_phase = Asking, ws_from = here, ws_pos = here,
     ws_conn = guard_new (endpoint_of kind) connection_new, ws_asked = False, ws_snapshot = None,
     ws_report = None, ws_inputs = []\<rparr>"

definition open_session :: "ws_world \<Rightarrow> nat \<Rightarrow> ws_kind \<Rightarrow> nat \<Rightarrow> ws_session" where
  "open_session w k kind here =
     (let s = new_session kind here
      in case kind of
           All_Orders \<Rightarrow> s
         | Single_Order h stream \<Rightarrow>
             (case found_order h stream of
                Some order \<Rightarrow> s
              | None \<Rightarrow> s\<lparr>ws_phase := Over, ws_conn := guard_drop WS_Single (close_connection (wv_network w k)
                  (snd (timed_send (wv_network w k) (WM_Text (wv_not_found w)) (ws_conn s))))\<rparr>))"

definition close_session :: "ws_world \<Rightarrow> nat \<Rightarrow> ws_session \<Rightarrow> ws_session" where
  "close_session w k s = s\<lparr>ws_phase := Over,
     ws_conn := guard_drop (endpoint_of (ws_kind s)) (close_connection (wv_network w k) (ws_conn s))\<rparr>"

text \<open>The request is in its channel.\<close>

definition ask :: "ws_session \<Rightarrow> ws_session" where
  "ask s = s\<lparr>ws_phase := Waiting, ws_asked := True, ws_conn := (case ws_kind s of
       All_Orders \<Rightarrow> ws_conn s
     | Single_Order h stream \<Rightarrow> (case found_order h stream of
         None \<Rightarrow> ws_conn s
       | Some order \<Rightarrow> (ws_conn s)\<lparr>cn_requests := cn_requests (ws_conn s) @ [order]\<rparr>))\<rparr>"

text \<open>The snapshot has arrived and is sent.\<close>

definition receive_snapshot :: "ws_world \<Rightarrow> nat \<Rightarrow> order_status list \<Rightarrow> ws_session \<Rightarrow> ws_session" where
  "receive_snapshot w k snapshot s =
     (case send_snapshot_loop (wv_network w k) (wv_to_string w) snapshot (ws_conn s) of
        (False, c) \<Rightarrow> s\<lparr>ws_phase := Over, ws_conn := guard_drop WS_All c, ws_snapshot := Some snapshot\<rparr>
      | (True, c) \<Rightarrow> s\<lparr>ws_phase := Looping order_filter_default, ws_conn := c, ws_snapshot := Some snapshot\<rparr>)"

text \<open>The initial report has arrived and is sent.\<close>

definition receive_report :: "ws_world \<Rightarrow> nat \<Rightarrow> order_status \<Rightarrow> ws_session \<Rightarrow> ws_session" where
  "receive_report w k report s =
     (case send_status (wv_network w k) (wv_to_string w) WS_Single report (ws_conn s) of
        (False, c) \<Rightarrow> s\<lparr>ws_phase := Over, ws_conn := guard_drop WS_Single c, ws_report := Some report\<rparr>
      | (True, c) \<Rightarrow>
          if is_terminal report then close_session w k (s\<lparr>ws_conn := c, ws_report := Some report\<rparr>)
          else s\<lparr>ws_phase := Subscribing, ws_conn := c, ws_report := Some report\<rparr>)"

text \<open>The sender of the answer was dropped: the snapshot is skipped, the single session closed.\<close>

definition miss_answer :: "ws_world \<Rightarrow> nat \<Rightarrow> ws_session \<Rightarrow> ws_session" where
  "miss_answer w k s = (case ws_kind s of
     All_Orders \<Rightarrow> s\<lparr>ws_phase := Looping order_filter_default\<rparr>
   | Single_Order _ _ \<Rightarrow> close_session w k s)"

definition subscribe :: "nat \<Rightarrow> ws_session \<Rightarrow> ws_session" where
  "subscribe here s = s\<lparr>ws_phase := Looping order_filter_default, ws_from := here, ws_pos := here\<rparr>"

text \<open>One iteration of the loop, with what \<open>select!\<close> has found.\<close>

definition loop_once :: "ws_world \<Rightarrow> nat \<Rightarrow> order_filter \<Rightarrow> ws_input \<Rightarrow> ws_session \<Rightarrow> ws_session" where
  "loop_once w k f i s =
     (case (case ws_kind s of
              All_Orders \<Rightarrow> all_orders_loop (wv_network w k) (wv_to_string w) (wv_parse w) f [i] (ws_conn s)
            | Single_Order h stream \<Rightarrow> single_order_loop (wv_network w k) (wv_to_string w) h [i] (ws_conn s)) of
        (Open, c) \<Rightarrow> s\<lparr>ws_phase := Looping (filter_after (wv_parse w) f [i]), ws_conn := c, ws_inputs := ws_inputs s @ [i]\<rparr>
      | (Ended, c) \<Rightarrow> s\<lparr>ws_phase := Over, ws_conn := guard_drop (endpoint_of (ws_kind s)) c, ws_inputs := ws_inputs s @ [i]\<rparr>)"

section \<open>Steps\<close>

text \<open>What a client can cause in the loop.\<close>

fun from_client :: "ws_input \<Rightarrow> bool" where
  "from_client (WI_Text _) = True"
| "from_client WI_Disconnected = True"
| "from_client WI_Other = True"
| "from_client _ = False"

text \<open>
  How many statuses a session can find broadcast: all that were when the manager took its last
  message, and any number of those that this message's handler broadcasts.
\<close>

definition broadcast_so_far :: "'w server \<Rightarrow> nat \<Rightarrow> bool" where
  "broadcast_so_far sv n \<longleftrightarrow> sv_before sv \<le> n \<and> n \<le> length (sm_updates (sv_manager sv))"

text \<open>
  A step of session \<open>k\<close>: it may put a request into a channel of the server. A full channel makes
  it wait; one whose receiver is gone refuses it.
\<close>

inductive session_step ::
  "ws_world \<Rightarrow> 'w server \<Rightarrow> nat \<Rightarrow> ws_session \<Rightarrow> 'w server \<Rightarrow> ws_session \<Rightarrow> bool" for w sv k where
  Ask_Snapshot: "ws_phase s = Asking \<Longrightarrow> ws_kind s = All_Orders \<Longrightarrow> \<not> task_over (sv_manager_task sv) \<Longrightarrow>
    length (sv_snapshots sv) < request_capacity \<Longrightarrow>
    session_step w sv k s (sv\<lparr>sv_snapshots := sv_snapshots sv @ [k]\<rparr>) (ask s)"
| Ask_Report: "ws_phase s = Asking \<Longrightarrow> ws_kind s = Single_Order h stream \<Longrightarrow> found_order h stream = Some order \<Longrightarrow>
    \<not> task_over (sv_manager_task sv) \<Longrightarrow> length (sv_tracks sv) < request_capacity \<Longrightarrow>
    session_step w sv k s
      (sv\<lparr>sv_tracks := sv_tracks sv @ [\<lparr>tr_order = order, tr_initial_report_sender = Some k\<rparr>]\<rparr>) (ask s)"
| Ask_Refused: "ws_phase s = Asking \<Longrightarrow> task_over (sv_manager_task sv) \<Longrightarrow>
    session_step w sv k s sv (close_session w k s)"
| Snapshot_Arrives: "ws_phase s = Waiting \<Longrightarrow> ws_kind s = All_Orders \<Longrightarrow>
    (k, snapshot) \<in> set (sm_snapshots (sv_manager sv)) \<Longrightarrow>
    session_step w sv k s sv (receive_snapshot w k snapshot s)"
| Report_Arrives: "ws_phase s = Waiting \<Longrightarrow> ws_kind s = Single_Order h stream \<Longrightarrow>
    (k, report) \<in> set (sm_reports (sv_manager sv)) \<Longrightarrow>
    session_step w sv k s sv (receive_report w k report s)"
| Answer_Dropped: "ws_phase s = Waiting \<Longrightarrow> task_over (sv_manager_task sv) \<Longrightarrow>
    k \<notin> fst ` set (sm_snapshots (sv_manager sv)) \<Longrightarrow> k \<notin> fst ` set (sm_reports (sv_manager sv)) \<Longrightarrow>
    session_step w sv k s sv (miss_answer w k s)"
| Subscribe: "ws_phase s = Subscribing \<Longrightarrow> broadcast_so_far sv here \<Longrightarrow>
    session_step w sv k s sv (subscribe here s)"
| Update: "ws_phase s = Looping f \<Longrightarrow> broadcast_so_far sv n \<Longrightarrow>
    recv update_capacity (take n (sm_updates (sv_manager sv))) (ws_pos s) = Some (r, pos) \<Longrightarrow>
    session_step w sv k s sv ((loop_once w k f (session_input r) s)\<lparr>ws_pos := pos\<rparr>)"
| Client: "ws_phase s = Looping f \<Longrightarrow> from_client i \<Longrightarrow> session_step w sv k s sv (loop_once w k f i s)"

text \<open>
  The requests in the server's channels are those of the sessions, so a step of another task
  (\<open>Task\<close>) adds none.
\<close>

inductive system_step ::
  "'w env \<Rightarrow> ws_world \<Rightarrow> 'w server \<Rightarrow> ws_session list \<Rightarrow> 'w server \<Rightarrow> ws_session list \<Rightarrow> bool"
  for env w where
  Task: "server_step env sv sv' \<Longrightarrow> length (sv_tracks sv') \<le> length (sv_tracks sv) \<Longrightarrow>
    length (sv_snapshots sv') \<le> length (sv_snapshots sv) \<Longrightarrow> system_step env w sv ss sv' ss"
| Connect: "sv_http_task sv = T_Running \<Longrightarrow> broadcast_so_far sv here \<Longrightarrow>
    s = open_session w (length ss) kind here \<Longrightarrow>
    system_step env w sv ss sv (ss @ [s])"
| Session: "k < length ss \<Longrightarrow> session_step w sv k (ss ! k) sv' s \<Longrightarrow> system_step env w sv ss sv' (ss[k := s])"

text \<open>The states of a started server with the sessions that clients have opened since.\<close>

inductive system_reachable :: "'w env \<Rightarrow> ws_world \<Rightarrow> 'w server \<Rightarrow> ws_session list \<Rightarrow> bool" for env w where
  start: "startup env connections w_manager w_blocks w_discovery = Inr (Some sv) \<Longrightarrow> system_reachable env w sv []"
| step: "system_reachable env w sv ss \<Longrightarrow> system_step env w sv ss sv' ss' \<Longrightarrow> system_reachable env w sv' ss'"

end
