(* ===== verification/SessionProps.thy ===== *)
theory SessionProps
  imports Sessions ServerProps Broadcasts
begin

text \<open>
  What holds of the server together with its WebSocket sessions in every state that they can
  reach, whatever the schedule: a session is a run of its handler, its receiver accounts for the
  broadcast history, its request is answered once, and its snapshot fits its subscription.
\<close>

inductive_cases system_stepE: "system_step env w sv ss sv' ss'"

section \<open>Interfaces\<close>

text \<open>What holds of a new system and is kept by every step holds always.\<close>

locale system_invariant =
  fixes env :: "'w env" and w :: ws_world and inv :: "'w server \<Rightarrow> ws_session list \<Rightarrow> bool"
  assumes new: "inv (server_new env w_manager w_blocks w_discovery tip) []"
    and kept: "system_reachable env w sv ss \<Longrightarrow> system_step env w sv ss sv' ss' \<Longrightarrow> inv sv ss \<Longrightarrow> inv sv' ss'"
begin

lemma always: "system_reachable env w sv ss \<Longrightarrow> inv sv ss"
proof (induction rule: system_reachable.induct)
  case (start connections w_manager w_blocks w_discovery sv)
  from startup_eq [OF this] show ?case by (auto simp: new)
qed (rule kept)

end

text \<open>A step of a session changes the server in its request channels only.\<close>

lemma session_step_server:
  "session_step w sv k s sv' s' \<Longrightarrow> sv_manager sv' = sv_manager sv \<and> sv_manager_task sv' = sv_manager_task sv"
  by (induction rule: session_step.induct) simp_all

lemma session_server_step: "session_step w sv k s sv' s' \<Longrightarrow> sv' = sv \<or> server_step env sv sv'"
  by (induction rule: session_step.induct) (simp_all add: server_step.Track server_step.Snapshot)

lemma system_server: "system_reachable env w sv ss \<Longrightarrow> reachable env sv"
proof (induction rule: system_reachable.induct)
  case (step sv ss sv' ss')
  from step.hyps(2) show ?case
  proof cases
    case (Session k s)
    with step.IH show ?thesis using session_server_step [OF Session(3), of env] by (auto intro: reachable.step)
  qed (use step.IH in \<open>auto intro: reachable.step\<close>)
qed (rule reachable.start)

text \<open>A property of each session by itself, given what the manager has sent so far.\<close>

locale session_invariant =
  fixes env :: "'w env" and w :: ws_world and ok :: "'w server \<Rightarrow> nat \<Rightarrow> ws_session \<Rightarrow> bool"
  assumes opened: "here \<le> length (sm_updates (sv_manager sv)) \<Longrightarrow> ok sv k (open_session w k kind here)"
    and own: "session_step w sv k s sv' s' \<Longrightarrow> ok sv k s \<Longrightarrow> ok sv k s'"
    and same: "sv_manager sv' = sv_manager sv \<Longrightarrow> sv_manager_task sv' = sv_manager_task sv \<Longrightarrow>
      ok sv k s \<Longrightarrow> ok sv' k s"
    and task: "reachable env sv \<Longrightarrow> server_step env sv sv' \<Longrightarrow> ok sv k s \<Longrightarrow> ok sv' k s"

sublocale session_invariant \<subseteq> system_invariant env w "\<lambda>sv ss. \<forall>k < length ss. ok sv k (ss ! k)"
proof
  fix sv sv' :: "'w server" and ss ss'
  assume r: "system_reachable env w sv ss" and step: "system_step env w sv ss sv' ss'"
    and all: "\<forall>k < length ss. ok sv k (ss ! k)"
  from step show "\<forall>k < length ss'. ok sv' k (ss' ! k)"
  proof cases
    case Task
    then show ?thesis using all task [OF system_server [OF r]] by blast
  next
    case (Connect here s kind)
    then show ?thesis using all opened [of here sv "length ss"]
      by (auto simp: nth_append less_Suc_eq broadcast_so_far_def)
  next
    case (Session k s)
    from session_step_server [OF Session(3)] all own [OF Session(3)] Session(2) have
      "ok sv' k s" "\<forall>j < length ss. ok sv' j (ss ! j)" by (blast intro: same)+
    then show ?thesis using Session(1,2) by (auto simp: nth_list_update)
  qed
qed simp

section \<open>A session is a run of its handler\<close>

lemma all_orders_loop_append:
  "all_orders_loop net ts parse f (is @ js) c = (case all_orders_loop net ts parse f is c of
     (Open, c') \<Rightarrow> all_orders_loop net ts parse (filter_after parse f is) js c' | (Ended, c') \<Rightarrow> (Ended, c'))"
  by (induction net ts parse f "is" c rule: all_orders_loop.induct)
    (auto split: prod.split bool.split option.split session.split)

lemma single_order_loop_append:
  "single_order_loop net ts h (is @ js) c = (case single_order_loop net ts h is c of
     (Open, c') \<Rightarrow> single_order_loop net ts h js c' | (Ended, c') \<Rightarrow> (Ended, c'))"
  by (induction net ts h "is" c rule: single_order_loop.induct)
    (auto simp: Let_def split: prod.split bool.split session.split)

lemma filter_after_append: "filter_after parse f (is @ js) = filter_after parse (filter_after parse f is) js"
  by (induction parse f "is" rule: filter_after.induct) simp_all

text \<open>The handler as \<open>WsHandlers\<close> has it, on what the session was answered and has selected.\<close>

definition handler_run :: "ws_world \<Rightarrow> nat \<Rightarrow> ws_session \<Rightarrow> session \<times> connection" where
  "handler_run w k s = (case ws_kind s of
     All_Orders \<Rightarrow> handle_all_orders (wv_network w k) (wv_to_string w) (wv_parse w) (ws_asked s)
       (ws_snapshot s) (ws_inputs s) connection_new
   | Single_Order h stream \<Rightarrow> handle_single_order (wv_network w k) (wv_to_string w) (wv_not_found w) h stream
       (ws_asked s) (ws_report s) (ws_inputs s) connection_new)"

definition known :: "ws_kind \<Rightarrow> bool" where
  "known kind \<longleftrightarrow> (case kind of All_Orders \<Rightarrow> True | Single_Order h stream \<Rightarrow> found_order h stream \<noteq> None)"

definition session_ok :: "ws_world \<Rightarrow> nat \<Rightarrow> ws_session \<Rightarrow> bool" where
  "session_ok w k s = (case ws_phase s of
     Asking \<Rightarrow> (\<exists>kind here. known kind \<and> s = new_session kind here)
   | Waiting \<Rightarrow> (\<exists>kind here. known kind \<and> s = ask (new_session kind here))
   | Subscribing \<Rightarrow> (\<exists>h stream here report. known (Single_Order h stream) \<and>
       s = receive_report w k report (ask (new_session (Single_Order h stream) here)))
   | Looping f \<Rightarrow> handler_run w k s = (Open, ws_conn s) \<and> f = filter_after (wv_parse w) order_filter_default (ws_inputs s)
   | Over \<Rightarrow> handler_run w k s = (Ended, ws_conn s))"

lemma handler_run_snoc:
  assumes "handler_run w k s = (Open, ws_conn s)"
    and "f = filter_after (wv_parse w) order_filter_default (ws_inputs s)"
  shows "session_ok w k (loop_once w k f i s)"
  using assms
  by (cases "ws_kind s")
    (auto simp: session_ok_def loop_once_def handler_run_def handle_all_orders_def all_orders_session_def
      handle_single_order_def single_order_session_def all_orders_loop_append single_order_loop_append
      filter_after_append Let_def split: prod.splits session.splits option.splits bool.splits if_splits sum.splits)

lemmas handler_defs = handler_run_def handle_all_orders_def all_orders_session_def handle_single_order_def
  single_order_session_def open_session_def new_session_def known_def ask_def close_session_def found_order_def Let_def

lemma session_ok_opened: "session_ok w k (open_session w k kind here)"
  by (cases kind) (auto simp: session_ok_def handler_defs split: option.splits sum.splits)

lemma session_ok_own:
  assumes "session_step w sv k s sv' s'" "session_ok w k s"
  shows "session_ok w k s'"
  using assms
proof (induction rule: session_step.induct)
  case (Ask_Refused s)
  then obtain kind here where "known kind" "s = new_session kind here" by (auto simp: session_ok_def)
  then show ?case by (cases kind) (auto simp: session_ok_def handler_defs split: option.splits sum.splits)
next
  case (Answer_Dropped s)
  then obtain kind here where "known kind" "s = ask (new_session kind here)" by (auto simp: session_ok_def)
  then show ?case by (cases kind) (auto simp: session_ok_def handler_defs miss_answer_def split: option.splits sum.splits)
next
  case (Snapshot_Arrives s snapshot)
  then obtain here where "s = ask (new_session All_Orders here)" by (auto simp: session_ok_def handler_defs)
  then show ?case by (auto simp: session_ok_def handler_defs receive_snapshot_def split: prod.splits bool.splits)
next
  case (Report_Arrives s h stream report)
  then obtain here order where k: "found_order h stream = Some order" and s: "s = ask (new_session (Single_Order h stream) here)"
    by (auto simp: session_ok_def ask_def new_session_def known_def)
  have "known (Single_Order h stream)" using k by (simp add: known_def)
  show ?case
  proof (cases "ws_phase (receive_report w k report s) = Subscribing")
    case True
    then show ?thesis using s \<open>known (Single_Order h stream)\<close> by (auto simp: session_ok_def)
  next
    case False
    then show ?thesis using k s
      by (auto simp: session_ok_def handler_defs receive_report_def split: prod.splits bool.splits if_splits sum.splits)
  qed
next
  case (Subscribe s here')
  then obtain h stream here report order where k: "found_order h stream = Some order" and
    s: "s = receive_report w k report (ask (new_session (Single_Order h stream) here))"
    by (auto simp: session_ok_def known_def)
  show ?case using Subscribe.hyps k s
    by (auto simp: session_ok_def handler_defs subscribe_def receive_report_def split: prod.splits bool.splits if_splits sum.splits)
next
  case (Update s f n r pos)
  then have "session_ok w k (loop_once w k f (session_input r) s)"
    by (intro handler_run_snoc) (simp_all add: session_ok_def)
  then show ?case by (auto simp: session_ok_def loop_once_def handler_run_def split: prod.splits session.splits ws_kind.splits)
next
  case (Client s f i)
  then show ?case by (intro handler_run_snoc) (simp_all add: session_ok_def)
qed (auto simp: session_ok_def ask_def new_session_def)

interpretation session_ok: session_invariant env w "\<lambda>sv k s. session_ok w k s" for env :: "'w env" and w
  by unfold_locales (rule session_ok_opened, rule session_ok_own)

section \<open>The receiver of a session\<close>

lemma updates_of_append [simp]: "updates_of (is @ js) = updates_of is @ updates_of js"
  by (induction "is" rule: updates_of.induct) simp_all

lemma from_client_updates [simp]: "from_client i \<Longrightarrow> updates_of [i] = []"
  by (cases i) simp_all

definition never_lagged :: "ws_session \<Rightarrow> bool" where
  "never_lagged s \<longleftrightarrow> (\<forall>n. WI_Lagged n \<notin> set (ws_inputs s))"

text \<open>
  Between its subscription and the position its receiver has reached, a session has selected a
  part of the history in order, all of it when it never lagged.
\<close>

definition positioned :: "order_status list \<Rightarrow> ws_session \<Rightarrow> bool" where
  "positioned history s \<longleftrightarrow> ws_from s \<le> ws_pos s \<and> ws_pos s \<le> length history \<and>
     subseq (updates_of (ws_inputs s)) (drop (ws_from s) (take (ws_pos s) history)) \<and>
     (never_lagged s \<longrightarrow> updates_of (ws_inputs s) = drop (ws_from s) (take (ws_pos s) history)) \<and>
     WI_Updates_Closed \<notin> set (ws_inputs s) \<and>
     (ws_phase s \<in> {Asking, Waiting, Subscribing} \<longrightarrow> ws_inputs s = [])"

lemma drop_take_split:
  "p \<le> q \<Longrightarrow> q \<le> r \<Longrightarrow> drop p (take r xs) = drop p (take q xs) @ drop q (take r xs)"
proof -
  assume "p \<le> q" "q \<le> r"
  then have "take r xs = take q xs @ drop q (take r xs)"
    by (metis append_take_drop_id min.absorb1 take_take)
  then have "drop p (take r xs) = drop p (take q xs) @ drop (p - length (take q xs)) (drop q (take r xs))"
    by (metis drop_append)
  then show ?thesis using \<open>p \<le> q\<close> by (cases "q \<le> length xs") simp_all
qed

lemma loop_once_fields:
  "ws_kind (loop_once w k f i s) = ws_kind s" "ws_from (loop_once w k f i s) = ws_from s"
  "ws_pos (loop_once w k f i s) = ws_pos s" "ws_asked (loop_once w k f i s) = ws_asked s"
  "ws_snapshot (loop_once w k f i s) = ws_snapshot s" "ws_report (loop_once w k f i s) = ws_report s"
  "ws_inputs (loop_once w k f i s) = ws_inputs s @ [i]"
  "ws_phase (loop_once w k f i s) \<noteq> Asking" "ws_phase (loop_once w k f i s) \<noteq> Waiting"
  "ws_phase (loop_once w k f i s) \<noteq> Subscribing"
  by (auto simp: loop_once_def split: prod.split session.split)

lemma positioned_loop:
  assumes "positioned history s" "ws_pos s \<le> pos" "pos \<le> length history"
    and "subseq (updates_of [i]) (drop (ws_pos s) (take pos history))"
    and "(\<forall>n. i \<noteq> WI_Lagged n) \<Longrightarrow> updates_of [i] = drop (ws_pos s) (take pos history)" "i \<noteq> WI_Updates_Closed"
  shows "positioned history ((loop_once w k f i s)\<lparr>ws_pos := pos\<rparr>)"
proof -
  have d: "drop (ws_from s) (take pos history) = drop (ws_from s) (take (ws_pos s) history) @ drop (ws_pos s) (take pos history)"
    using assms(1,2) by (intro drop_take_split) (auto simp: positioned_def)
  have sub: "subseq (updates_of (ws_inputs s) @ updates_of [i]) (drop (ws_from s) (take pos history))"
    unfolding d by (rule list_emb_append_mono) (use assms(1,4) in \<open>simp_all add: positioned_def\<close>)
  have all: "updates_of (ws_inputs s) @ updates_of [i] = drop (ws_from s) (take pos history)"
    if "\<forall>n. WI_Lagged n \<notin> set (ws_inputs s @ [i])"
  proof -
    have "\<forall>n. i \<noteq> WI_Lagged n" using that by auto
    then show ?thesis unfolding d using that assms(1) assms(5) by (simp add: positioned_def never_lagged_def)
  qed
  show ?thesis
    using assms(1-3,6) sub all unfolding positioned_def never_lagged_def
    by (simp add: loop_once_fields del: updates_of.simps)
qed

lemma positioned_own:
  assumes "session_step w sv k s sv' s'" "positioned (sm_updates (sv_manager sv)) s"
  shows "positioned (sm_updates (sv_manager sv)) s'"
  using assms
proof (induction rule: session_step.induct)
  case (Update s f n r pos)
  let ?h = "sm_updates (sv_manager sv)"
  consider "r = Received (?h ! ws_pos s)" "pos = Suc (ws_pos s)" "ws_pos s < length ?h"
    | n where "r = Missed n" "ws_pos s < pos" "pos \<le> length ?h"
    using Update.hyps(3) by (auto simp: recv_def Let_def split: if_splits)
  then show ?case
  proof cases
    case 1
    then have "drop (ws_pos s) (take pos ?h) = [?h ! ws_pos s]" by (simp add: take_Suc_conv_app_nth)
    then show ?thesis using 1 Update.prems by (intro positioned_loop) auto
  next
    case 2
    then show ?thesis using Update.prems by (intro positioned_loop) auto
  qed
next
  case (Client s f i)
  have "positioned (sm_updates (sv_manager sv)) ((loop_once w k f i s)\<lparr>ws_pos := ws_pos s\<rparr>)"
    using Client by (intro positioned_loop) (auto simp: positioned_def)
  moreover have "(loop_once w k f i s)\<lparr>ws_pos := ws_pos s\<rparr> = loop_once w k f i s"
    by (rule ws_session.equality) (simp_all add: loop_once_fields)
  ultimately show ?case by simp
qed (auto simp: positioned_def never_lagged_def broadcast_so_far_def ask_def close_session_def receive_snapshot_def
    receive_report_def miss_answer_def subscribe_def split: prod.splits bool.splits ws_kind.splits)

lemma positioned_append: "positioned us s \<Longrightarrow> positioned (us @ vs) s"
  by (auto simp: positioned_def)

text \<open>What a step of the server does to the manager, for its subscribers.\<close>

lemma manager_once:
  assumes "run_inner env [rd] m = (e, m')" "select_input rd = Some i"
  shows "e = Running \<and> handle_input env i (m\<lparr>sm_all_order_hashes := rd_all_order_hashes rd\<rparr>) = Some m' \<or>
    (\<exists>r. e = Exited r) \<and> m' = m\<lparr>sm_all_order_hashes := rd_all_order_hashes rd\<rparr> \<and>
      (case i of In_Cancelled \<Rightarrow> True | In_Closed _ \<Rightarrow> True | _ \<Rightarrow> False) \<or>
    e = Crashed \<and> m' = panicked_state env i (m\<lparr>sm_all_order_hashes := rd_all_order_hashes rd\<rparr>) \<and> (\<forall>k. i \<noteq> In_Snapshot k)"
  using assms by (cases i) (auto simp: Let_def simp del: handle_input.simps(1-4,6,7) split: option.splits)

lemma manager_hashes: "extends m (m\<lparr>sm_all_order_hashes := H\<rparr>)" "sm_inv m \<Longrightarrow> sm_inv (m\<lparr>sm_all_order_hashes := H\<rparr>)"
  by (rule extends_same) (simp_all add: coherent_run.inv_hashes)

lemma server_step_extends:
  "server_step env sv sv' \<Longrightarrow> sm_inv (sv_manager sv) \<Longrightarrow>
     extends (sv_manager sv) (sv_manager sv') \<and> (task_over (sv_manager_task sv) \<longrightarrow> task_over (sv_manager_task sv'))"
proof (induction rule: server_step.induct)
  case (Block sv i exit bw sv1)
  then show ?case by (cases exit) (simp_all add: task_ends extends_refl)
next
  case (Manager sv i e m sv1)
  let ?m = "(sv_manager sv)\<lparr>sm_all_order_hashes := rd_all_order_hashes (manager_readiness sv)\<rparr>"
  from manager_once [OF Manager.hyps(3,2)] have "extends (sv_manager sv) m"
  proof (elim disjE conjE)
    assume "handle_input env i ?m = Some m"
    then show ?thesis
      using handle_input_extends [OF manager_hashes(2) [OF Manager.prems]] manager_hashes(1) extends_trans by blast
  next
    assume "m = panicked_state env i ?m"
    then show ?thesis
      using panicked_extends [OF manager_hashes(2) [OF Manager.prems]] manager_hashes(1) extends_trans by blast
  qed (simp add: manager_hashes(1))
  then show ?case using Manager.hyps(1) by (cases e) (simp_all add: Manager.hyps(4) task_ends)
qed (auto simp: task_ends extends_refl dest: exit_step_parts)

lemma reachable_inv: "reachable env sv \<Longrightarrow> sm_inv (sv_manager sv)"
proof -
  assume "reachable env sv"
  from manager_run.always [OF this] obtain w rds exit where
    "run_inner env rds (state_manager_new (tracker_new env w) retention_blocks) = (exit, sv_manager sv)"
    by (auto simp: manager_run_def)
  then show ?thesis using coherent_run.run_inner_inv [OF sm_inv_new] by blast
qed

interpretation positioned: session_invariant env w "\<lambda>sv k s. positioned (sm_updates (sv_manager sv)) s"
  for env :: "'w env" and w
proof unfold_locales
  show "positioned (sm_updates (sv_manager sv)) (open_session w k kind here)"
    if "here \<le> length (sm_updates (sv_manager sv))" for sv :: "'w server" and k here :: nat and kind
    using that
    by (auto simp: positioned_def open_session_def new_session_def Let_def split: ws_kind.split option.split)
  show "positioned (sm_updates (sv_manager sv')) s" if "reachable env sv" "server_step env sv sv'"
    "positioned (sm_updates (sv_manager sv)) s" for sv sv' :: "'w server" and s
    using server_step_extends [OF that(2) reachable_inv [OF that(1)]] positioned_append [OF that(3)]
    by (auto simp: extends_def)
qed (auto intro: positioned_own)

end
