(* ===== verification/Requests.thy ===== *)
theory Requests
  imports SessionProps
begin

text \<open>
  The requests of the sessions and the manager's answers to them: each request is answered at
  most once and with a status of its order, none is lost while the manager runs, and a snapshot
  covers the state of the manager for the session that asked for it from then on.
\<close>

section \<open>What the manager answers\<close>

lemma refresh_order_answers:
  "refresh_order env H h s = Some s' \<Longrightarrow> sm_reports s' = sm_reports s \<and> sm_snapshots s' = sm_snapshots s"
  by (auto simp: refresh_order_def Let_def sm_simps split: option.splits Option.bind_splits if_splits)

lemma check_fill_answers:
  "check_fill env filled h s = Some s' \<Longrightarrow> sm_reports s' = sm_reports s \<and> sm_snapshots s' = sm_snapshots s"
  by (auto simp: check_fill_def Let_def sm_simps
      split: option.splits Option.bind_splits prod.splits sum.splits bool.splits)

interpretation refresh_answers: loop_body "refresh_order env H" "\<lambda>s. sm_reports s = rs \<and> sm_snapshots s = sn" "\<lambda>_. True"
  for env :: "'w env" and H rs sn
  by unfold_locales (auto dest: refresh_order_answers)

interpretation fill_answers: loop_body "check_fill env filled" "\<lambda>s. sm_reports s = rs \<and> sm_snapshots s = sn" "\<lambda>_. True"
  for env :: "'w env" and filled rs sn
  by unfold_locales (auto dest: check_fill_answers)

lemma handle_new_blocks_answers:
  assumes "handle_new_blocks env tip s = Some s'"
  shows "sm_reports s' = sm_reports s \<and> sm_snapshots s' = sm_snapshots s"
proof -
  let ?s1 = "s\<lparr>sm_event_store := update_tips tip (sm_event_store s)\<rparr>"
  from assms obtain s2 where run: "for_each (refresh_order env (sm_all_order_hashes s)) (pending_hashes env ?s1) ?s1 = Some s2"
    and "sm_reports s' = sm_reports s2" "sm_snapshots s' = sm_snapshots s2"
    by (auto simp: handle_new_blocks_def Let_def split: Option.bind_splits)
  then show ?thesis using refresh_answers.loop_inv [OF _ _ run, of "sm_reports s" "sm_snapshots s"] by simp
qed

lemma handle_chain_event_answers:
  assumes "handle_chain_event env event s = Some s'"
  shows "sm_reports s' = sm_reports s \<and> sm_snapshots s' = sm_snapshots s"
proof (cases event)
  case (CE_Filled filled)
  let ?s1 = "s\<lparr>sm_metrics := record_chain_event Kind_Filled (sm_metrics s),
      sm_event_store := insert_filled filled (sm_event_store s)\<rparr>"
  from assms CE_Filled obtain s2 where run: "for_each (check_fill env filled) (candidate_hashes env filled ?s1) ?s1 = Some s2"
    and "sm_reports s' = sm_reports s2" "sm_snapshots s' = sm_snapshots s2"
    by (auto simp: handle_chain_event_def check_fills_against_pending_def sm_simps split: Option.bind_splits)
  then show ?thesis using fill_answers.loop_inv [OF _ _ run, of "sm_reports s" "sm_snapshots s"] by simp
qed (use assms in \<open>auto simp: handle_chain_event_def sm_simps\<close>)

text \<open>The report that a registration sends is the status of the order asked for.\<close>

lemma register_order_answers:
  assumes "register_order env order sender s = Some s'" "sm_wf s"
  shows "\<exists>st. status_order_hash st = so_hash order \<and> sm_snapshots s' = sm_snapshots s \<and>
    sm_reports s' = sm_reports s @ (case sender of None \<Rightarrow> [] | Some k \<Rightarrow> [(k, st)])"
proof (cases "tracked s (so_hash order)")
  case (Some t)
  then have "s' = send_report sender (to_status t) s" using assms(1) by (simp add: register_order_def)
  then show ?thesis using sm_wfD(2) [OF assms(2) Some]
    by (intro exI [of _ "to_status t"]) (simp add: send_report_def split: option.split)
next
  case None
  from register_order_new [OF this assms(1)] obtain st tr where
    st: "status_for_order env order True (sm_tracker s) = Some (st, tr)" and
    s': "s' = update_store_metrics (broadcast st (send_report sender st (s\<lparr>sm_tracker := tr,
       sm_tracked_orders := hm_insert (so_hash order) (tracked_order_new order st) (sm_tracked_orders s)\<rparr>)))" .
  show ?thesis using status_for_order_identity [OF st]
    by (intro exI [of _ st]) (simp add: s' sm_simps send_report_def split: option.split)
qed

text \<open>The effect of a message on the answers.\<close>

definition answered :: "'w env \<Rightarrow> input \<Rightarrow> 'w state_manager \<Rightarrow> 'w state_manager \<Rightarrow> bool" where
  "answered env i s s' \<longleftrightarrow> (case i of
     In_Track r \<Rightarrow> \<exists>st. status_order_hash st = so_hash (tr_order r) \<and> sm_snapshots s' = sm_snapshots s \<and>
       sm_reports s' = sm_reports s @ (case tr_initial_report_sender r of None \<Rightarrow> [] | Some k \<Rightarrow> [(k, st)])
   | In_Snapshot k \<Rightarrow> s' = send_snapshot env k s
   | _ \<Rightarrow> sm_reports s' = sm_reports s \<and> sm_snapshots s' = sm_snapshots s)"

lemma handle_input_answered: "handle_input env i s = Some s' \<Longrightarrow> sm_inv s \<Longrightarrow> answered env i s s'"
  by (cases i)
    (auto simp: answered_def sm_inv_def dest: handle_new_blocks_answers handle_chain_event_answers
      register_order_answers)

lemma select_requests:
  assumes "select_input (manager_readiness sv) = Some i"
  shows "case i of
      In_Track r \<Rightarrow> sv_tracks sv = r # sv_tracks (take_message i sv) \<and> sv_snapshots (take_message i sv) = sv_snapshots sv
    | In_Snapshot k \<Rightarrow> sv_snapshots sv = k # sv_snapshots (take_message i sv) \<and> sv_tracks (take_message i sv) = sv_tracks sv
    | _ \<Rightarrow> sv_tracks (take_message i sv) = sv_tracks sv \<and> sv_snapshots (take_message i sv) = sv_snapshots sv"
  using assms
  by (auto simp: select_input_def manager_readiness_def receive_eqs split: if_splits option.splits)

text \<open>Of the steps of the server that add no request only the manager's touch the requests.\<close>

lemma task_step_requests:
  assumes "server_step env sv sv'" "length (sv_tracks sv') \<le> length (sv_tracks sv)"
    "length (sv_snapshots sv') \<le> length (sv_snapshots sv)" "sm_inv (sv_manager sv)"
  obtains (quiet) "sv_tracks sv' = sv_tracks sv" "sv_snapshots sv' = sv_snapshots sv"
      "sm_reports (sv_manager sv') = sm_reports (sv_manager sv)" "sm_snapshots (sv_manager sv') = sm_snapshots (sv_manager sv)"
    | (lost) r where "sv_tracks sv = r # sv_tracks sv'" "sv_snapshots sv' = sv_snapshots sv"
      "sm_reports (sv_manager sv') = sm_reports (sv_manager sv)" "sm_snapshots (sv_manager sv') = sm_snapshots (sv_manager sv)"
      "task_over (sv_manager_task sv')"
    | (reported) r st where "sv_tracks sv = r # sv_tracks sv'" "sv_snapshots sv' = sv_snapshots sv"
      "sm_snapshots (sv_manager sv') = sm_snapshots (sv_manager sv)" "status_order_hash st = so_hash (tr_order r)"
      "sm_reports (sv_manager sv') = sm_reports (sv_manager sv) @
         (case tr_initial_report_sender r of None \<Rightarrow> [] | Some k \<Rightarrow> [(k, st)])"
    | (snapped) k m where "sv_snapshots sv = k # sv_snapshots sv'" "sv_tracks sv' = sv_tracks sv"
      "sv_manager sv' = send_snapshot env k m" "sm_inv m" "extends (sv_manager sv) m"
      "sm_reports m = sm_reports (sv_manager sv)" "sm_snapshots m = sm_snapshots (sv_manager sv)"
  using assms
proof (induction rule: server_step.induct)
  case (Block sv i exit bw sv1)
  show ?case by (rule Block.prems(1)) (cases exit; simp add: Block.hyps(5) task_ends)+
next
  case (Manager sv i e m sv1)
  let ?m = "(sv_manager sv)\<lparr>sm_all_order_hashes := rd_all_order_hashes (manager_readiness sv)\<rparr>"
  let ?sv = "case e of Running \<Rightarrow> sv1 | Exited r \<Rightarrow> end_manager_task r sv1 | Crashed \<Rightarrow> sv1\<lparr>sv_manager_task := T_Panicked\<rparr>"
  have sv: "sv_tracks ?sv = sv_tracks (take_message i sv)" "sv_snapshots ?sv = sv_snapshots (take_message i sv)"
    "sv_manager ?sv = m" "e = Crashed \<Longrightarrow> task_over (sv_manager_task ?sv)"
    by (cases e; simp add: Manager.hyps(4) task_ends)+
  have inv: "sm_inv ?m" by (rule manager_hashes(2) [OF Manager.prems(7)])
  note sel = select_requests [OF Manager.hyps(2)]
  from manager_once [OF Manager.hyps(3,2)] show ?case
  proof (elim disjE conjE)
    assume "handle_input env i ?m = Some m"
    then have a: "answered env i ?m m" by (rule handle_input_answered [OF _ inv])
    show ?thesis
    proof (cases i)
      case (In_Track r)
      then show ?thesis using a sel sv Manager.prems(3) by (auto simp: answered_def)
    next
      case (In_Snapshot k)
      then show ?thesis using a sel sv Manager.prems(4) [of k ?m] inv manager_hashes(1) by (auto simp: answered_def)
    qed (use a sel sv Manager.prems(1) in \<open>auto simp: answered_def\<close>)
  next
    assume "m = ?m" "case i of In_Cancelled \<Rightarrow> True | In_Closed _ \<Rightarrow> True | _ \<Rightarrow> False"
    then show ?thesis using sel sv Manager.prems(1) by (cases i) auto
  next
    assume e: "e = Crashed" "m = panicked_state env i ?m" "\<forall>k. i \<noteq> In_Snapshot k"
    from panicked_effect [OF inv, of env i] have same: "sm_reports m = sm_reports (sv_manager sv)"
      "sm_snapshots m = sm_snapshots (sv_manager sv)" by (auto simp: partly_refreshed_def e(2))
    show ?thesis
    proof (cases i)
      case (In_Track r)
      then show ?thesis using e(1) same sel sv Manager.prems(2) by auto
    qed (use e(1,3) same sel sv Manager.prems(1) in auto)
  qed
qed (auto simp: task_ends)

section \<open>One answer for each request\<close>

text \<open>The oneshot channels in use: of requests still in their channel, and of answers sent.\<close>

definition report_ids :: "'w server \<Rightarrow> nat option list" where
  "report_ids sv = map tr_initial_report_sender (sv_tracks sv) @ map (Some \<circ> fst) (sm_reports (sv_manager sv))"

definition snapshot_ids :: "'w server \<Rightarrow> nat list" where
  "snapshot_ids sv = sv_snapshots sv @ map fst (sm_snapshots (sv_manager sv))"

definition asked_by :: "ws_session list \<Rightarrow> nat \<Rightarrow> ws_kind \<Rightarrow> bool" where
  "asked_by ss k kind \<longleftrightarrow> k < length ss \<and> ws_asked (ss ! k) \<and> ws_kind (ss ! k) = kind"

definition requests_ok :: "'w server \<Rightarrow> ws_session list \<Rightarrow> bool" where
  "requests_ok sv ss \<longleftrightarrow> distinct (report_ids sv) \<and> distinct (snapshot_ids sv) \<and>
     (\<forall>r \<in> set (sv_tracks sv). \<exists>k h stream. tr_initial_report_sender r = Some k \<and>
        asked_by ss k (Single_Order h stream) \<and> found_order h stream = Some (tr_order r)) \<and>
     (\<forall>k st. (k, st) \<in> set (sm_reports (sv_manager sv)) \<longrightarrow>
        (\<exists>stream. asked_by ss k (Single_Order (status_order_hash st) stream))) \<and>
     (\<forall>k \<in> set (snapshot_ids sv). asked_by ss k All_Orders) \<and>
     (\<forall>k < length ss. (ws_phase (ss ! k) = Asking \<longrightarrow> \<not> ws_asked (ss ! k)) \<and>
        (ws_phase (ss ! k) = Waiting \<longrightarrow>
           task_over (sv_manager_task sv) \<or> Some k \<in> set (report_ids sv) \<or> k \<in> set (snapshot_ids sv)))"

lemma found_order_hash: "found_order h stream = Some order \<Longrightarrow> so_hash order = h"
proof -
  have "try_next_order P stream = Inr (Some order) \<Longrightarrow> P order" for P
    by (induction P stream rule: try_next_order.induct) (auto split: if_splits)
  then show "found_order h stream = Some order \<Longrightarrow> so_hash order = h"
    by (fastforce simp: found_order_def split: sum.splits)
qed

lemma requests_ok_task:
  assumes "server_step env sv sv'" "length (sv_tracks sv') \<le> length (sv_tracks sv)"
    "length (sv_snapshots sv') \<le> length (sv_snapshots sv)" "sm_inv (sv_manager sv)" "requests_ok sv ss"
  shows "requests_ok sv' ss"
proof -
  have over: "task_over (sv_manager_task sv) \<Longrightarrow> task_over (sv_manager_task sv')"
    using server_step_extends [OF assms(1,4)] by blast
  note ids = report_ids_def snapshot_ids_def
  from assms(1-4) show ?thesis
  proof (cases rule: task_step_requests)
    case quiet
    then show ?thesis using assms(5) over by (auto simp: requests_ok_def ids)
  next
    case (lost r)
    then show ?thesis using assms(5) by (auto simp: requests_ok_def ids)
  next
    case (reported r st)
    then obtain k h stream where k: "tr_initial_report_sender r = Some k" "asked_by ss k (Single_Order h stream)"
      "found_order h stream = Some (tr_order r)" using assms(5) by (auto simp: requests_ok_def)
    then have "status_order_hash st = h" using reported(4) found_order_hash by simp
    then show ?thesis using assms(5) reported k over by (auto simp: requests_ok_def ids)
  next
    case (snapped k m)
    then show ?thesis using assms(5) over by (auto simp: requests_ok_def ids send_snapshot_def)
  qed
qed

text \<open>A step of a session that sends no request.\<close>

lemma requests_ok_update:
  assumes "requests_ok sv ss" "k < length ss" "ws_kind s = ws_kind (ss ! k)" "ws_asked s = ws_asked (ss ! k)"
    "ws_phase s \<notin> {Asking, Waiting}"
  shows "requests_ok sv (ss[k := s])"
proof -
  have "asked_by (ss[k := s]) j kind \<longleftrightarrow> asked_by ss j kind" for j kind
    using assms(2-4) by (auto simp: asked_by_def nth_list_update)
  then show ?thesis using assms(1,2,5) by (simp add: requests_ok_def nth_list_update)
qed

lemma requests_ok_ask:
  assumes "requests_ok sv ss" "k < length ss" "ws_phase (ss ! k) = Asking"
  shows "asked_by (ss[k := ask (ss ! k)]) k (ws_kind (ss ! k))"
    and "asked_by ss j kind \<Longrightarrow> asked_by (ss[k := ask (ss ! k)]) j kind"
    and "Some k \<notin> set (report_ids sv)" "k \<notin> set (snapshot_ids sv)"
proof -
  have no: "\<not> asked_by ss k kind" for kind using assms by (auto simp: requests_ok_def asked_by_def)
  show "asked_by (ss[k := ask (ss ! k)]) k (ws_kind (ss ! k))" using assms(2) by (simp add: asked_by_def ask_def)
  show "asked_by (ss[k := ask (ss ! k)]) j kind" if "asked_by ss j kind"
    using that assms(2) by (auto simp: asked_by_def ask_def nth_list_update)
  show "k \<notin> set (snapshot_ids sv)" using assms(1) no by (auto simp: requests_ok_def)
  show "Some k \<notin> set (report_ids sv)"
  proof
    assume "Some k \<in> set (report_ids sv)"
    then consider r where "r \<in> set (sv_tracks sv)" "tr_initial_report_sender r = Some k"
      | st where "(k, st) \<in> set (sm_reports (sv_manager sv))"
      by (auto simp: report_ids_def)
    then show False
    proof cases
      case 1
      with assms(1) obtain h stream where "asked_by ss k (Single_Order h stream)"
        unfolding requests_ok_def by (metis option.inject)
      then show False using no by blast
    next
      case 2
      then show False using assms(1) no unfolding requests_ok_def by blast
    qed
  qed
qed

lemma session_parts [simp]: "ws_phase (ask s) = Waiting" "ws_asked (ask s)" "ws_kind (ask s) = ws_kind s" "ws_from (ask s) = ws_from s"
  "ws_kind (new_session kind here) = kind"
  by (simp_all add: ask_def new_session_def)

lemma requests_ok_session:
  assumes "k < length ss" "session_step w sv k (ss ! k) sv' s" "requests_ok sv ss"
  shows "requests_ok sv' (ss[k := s])"
  using assms(2)
proof cases
  case Ask_Snapshot
  note a = requests_ok_ask [OF assms(3,1) Ask_Snapshot(3)]
  show ?thesis using assms(1,3) a(1,3,4) a(2) Ask_Snapshot
    by (auto simp: requests_ok_def report_ids_def snapshot_ids_def nth_list_update) metis+
next
  case (Ask_Report h stream order)
  note a = requests_ok_ask [OF assms(3,1) Ask_Report(3)]
  show ?thesis using assms(1,3) a(1,3,4) a(2) Ask_Report
    by (auto simp: requests_ok_def report_ids_def snapshot_ids_def nth_list_update) metis+
qed (use assms(1,3) in \<open>auto intro!: requests_ok_update simp: close_session_def receive_snapshot_def
    receive_report_def miss_answer_def subscribe_def loop_once_fields
    split: prod.splits bool.splits ws_kind.splits\<close>)

lemma open_session_asked: "\<not> ws_asked (open_session w k kind here)" "ws_phase (open_session w k kind here) \<noteq> Waiting"
  by (auto simp: open_session_def new_session_def Let_def split: ws_kind.split option.split)

interpretation requests: system_invariant env w requests_ok for env :: "'w env" and w
proof unfold_locales
  show "requests_ok (server_new env w_manager w_blocks w_discovery tip) []"
    for w_manager w_blocks w_discovery :: 'w and tip
    by (simp add: requests_ok_def report_ids_def snapshot_ids_def server_new_def state_manager_new_def)
  fix sv sv' :: "'w server" and ss ss'
  assume r: "system_reachable env w sv ss" and step: "system_step env w sv ss sv' ss'" and ok: "requests_ok sv ss"
  from step show "requests_ok sv' ss'"
  proof cases
    case Task
    then show ?thesis using ok requests_ok_task reachable_inv [OF system_server [OF r]] by blast
  next
    case (Connect here s kind)
    have "asked_by ss j kind \<Longrightarrow> asked_by (ss @ [s]) j kind" for j kind
      by (simp add: asked_by_def nth_append)
    then show ?thesis using ok Connect open_session_asked [of w "length ss" kind]
      by (auto simp: requests_ok_def nth_append less_Suc_eq) metis+
  next
    case (Session k s)
    then show ?thesis using ok requests_ok_session by blast
  qed
qed

section \<open>What a session was answered\<close>

definition answers_ok :: "'w server \<Rightarrow> nat \<Rightarrow> ws_session \<Rightarrow> bool" where
  "answers_ok sv k s \<longleftrightarrow>
     (\<forall>snapshot. ws_snapshot s = Some snapshot \<longrightarrow> (k, snapshot) \<in> set (sm_snapshots (sv_manager sv))) \<and>
     (\<forall>report. ws_report s = Some report \<longrightarrow> (k, report) \<in> set (sm_reports (sv_manager sv))) \<and>
     (\<forall>f. ws_phase s = Looping f \<and> ws_kind s = All_Orders \<and> ws_snapshot s = None \<longrightarrow> task_over (sv_manager_task sv))"

lemma receive_report_kind [simp]: "ws_kind (receive_report w k report s) = ws_kind s"
  by (simp add: receive_report_def close_session_def split: prod.split bool.split)

lemma subscribing_single: "session_ok w k s \<Longrightarrow> ws_phase s = Subscribing \<Longrightarrow> \<exists>h stream. ws_kind s = Single_Order h stream"
  by (auto simp: session_ok_def new_session_def)

lemma answers_ok_own:
  assumes "session_step w sv k s sv' s'" "session_ok w k s" "answers_ok sv k s"
  shows "answers_ok sv k s'"
  using assms
proof (induction rule: session_step.induct)
  case (Update s f n r pos)
  then show ?case by (auto simp: answers_ok_def loop_once_fields)
next
  case (Client s f i)
  then show ?case by (auto simp: answers_ok_def loop_once_fields)
next
  case (Subscribe s here)
  then show ?case using subscribing_single [of w k s] by (auto simp: answers_ok_def subscribe_def)
qed (auto simp: answers_ok_def ask_def close_session_def receive_snapshot_def receive_report_def miss_answer_def
    split: prod.splits bool.splits ws_kind.splits)

lemma answered_mono:
  "answered env i s s' \<Longrightarrow> set (sm_reports s) \<subseteq> set (sm_reports s') \<and> set (sm_snapshots s) \<subseteq> set (sm_snapshots s')"
  by (auto simp: answered_def send_snapshot_def split: input.splits)

lemma server_step_answers:
  "server_step env sv sv' \<Longrightarrow> sm_inv (sv_manager sv) \<Longrightarrow>
     set (sm_reports (sv_manager sv)) \<subseteq> set (sm_reports (sv_manager sv')) \<and>
     set (sm_snapshots (sv_manager sv)) \<subseteq> set (sm_snapshots (sv_manager sv'))"
proof (induction rule: server_step.induct)
  case (Block sv i exit bw sv1)
  then show ?case by (cases exit) (simp_all add: task_ends)
next
  case (Manager sv i e m sv1)
  let ?m = "(sv_manager sv)\<lparr>sm_all_order_hashes := rd_all_order_hashes (manager_readiness sv)\<rparr>"
  have "set (sm_reports ?m) \<subseteq> set (sm_reports m) \<and> set (sm_snapshots ?m) \<subseteq> set (sm_snapshots m)"
    using manager_once [OF Manager.hyps(3,2)]
  proof (elim disjE conjE)
    assume "handle_input env i ?m = Some m"
    from answered_mono [OF handle_input_answered [OF this manager_hashes(2) [OF Manager.prems]]]
    show ?thesis .
  next
    assume "m = panicked_state env i ?m"
    moreover have "sm_inv ?m" by (rule manager_hashes(2) [OF Manager.prems])
    from panicked_effect [OF this, of env i] have "sm_reports (panicked_state env i ?m) = sm_reports ?m"
      "sm_snapshots (panicked_state env i ?m) = sm_snapshots ?m" by (auto simp: partly_refreshed_def)
    ultimately show ?thesis by simp
  qed simp
  then show ?case by (cases e) (simp_all add: Manager.hyps(4) task_ends)
qed (simp_all add: task_ends)

interpretation answers: session_invariant env w "\<lambda>sv k s. session_ok w k s \<and> answers_ok sv k s" for env :: "'w env" and w
proof unfold_locales
  fix sv sv' :: "'w server" and k s s' kind
  show "session_ok w k (open_session w k kind here) \<and> answers_ok sv k (open_session w k kind here)" for here
    using session_ok_opened
    by (auto simp: answers_ok_def open_session_def new_session_def Let_def split: ws_kind.split option.split)
  show "session_ok w k s' \<and> answers_ok sv k s'"
    if "session_step w sv k s sv' s'" "session_ok w k s \<and> answers_ok sv k s"
    using that session_ok_own answers_ok_own by blast
  show "session_ok w k s \<and> answers_ok sv' k s"
    if "sv_manager sv' = sv_manager sv" "sv_manager_task sv' = sv_manager_task sv" "session_ok w k s \<and> answers_ok sv k s"
    using that by (simp add: answers_ok_def)
  show "session_ok w k s \<and> answers_ok sv' k s"
    if "reachable env sv" "server_step env sv sv'" "session_ok w k s \<and> answers_ok sv k s"
    using that server_step_answers [OF that(2) reachable_inv [OF that(1)]]
      server_step_extends [OF that(2) reachable_inv [OF that(1)]]
    unfolding answers_ok_def by blast
qed

section \<open>Snapshots fit the subscriptions\<close>

definition covering :: "'w server \<Rightarrow> ws_session list \<Rightarrow> bool" where
  "covering sv ss \<longleftrightarrow> (\<forall>k snapshot. (k, snapshot) \<in> set (sm_snapshots (sv_manager sv)) \<longrightarrow>
     covers (sv_manager sv) (ws_from (ss ! k)) snapshot)"

lemma session_step_from:
  "session_step w sv k s sv' s' \<Longrightarrow> session_ok w k s \<Longrightarrow> ws_kind s = All_Orders \<Longrightarrow> ws_from s' = ws_from s"
  by (induction rule: session_step.induct)
    (auto simp: close_session_def receive_snapshot_def receive_report_def miss_answer_def loop_once_fields
      dest: subscribing_single split: prod.splits bool.splits ws_kind.splits)

lemma covers_send_snapshot [simp]: "covers (send_snapshot env k m) p snapshot \<longleftrightarrow> covers m p snapshot"
  by (simp add: covers_def send_snapshot_def)

lemma covering_task:
  assumes "server_step env sv sv'" "length (sv_tracks sv') \<le> length (sv_tracks sv)"
    "length (sv_snapshots sv') \<le> length (sv_snapshots sv)" "sm_inv (sv_manager sv)" "sm_inv (sv_manager sv')"
    and from_le: "\<And>k. k \<in> set (snapshot_ids sv) \<Longrightarrow> ws_from (ss ! k) \<le> length (sm_updates (sv_manager sv))"
    and "covering sv ss"
  shows "covering sv' ss"
proof -
  have old: "covers m (ws_from (ss ! k)) snapshot"
    if "(k, snapshot) \<in> set (sm_snapshots (sv_manager sv))" "extends (sv_manager sv) m" "sm_inv m" for k snapshot m
    using that assms(7) from_le [of k]
    by (intro covers_extends [OF that(2,3)]) (force simp: covering_def snapshot_ids_def)+
  note ext = server_step_extends [OF assms(1,4), THEN conjunct1]
  from assms(1-4) show ?thesis
  proof (cases rule: task_step_requests)
    case (snapped k m)
    have "ws_from (ss ! k) \<le> length (sm_updates m)"
      using from_le [of k] snapped(1,5) by (auto simp: snapshot_ids_def extends_def)
    then show ?thesis using snapped old [OF _ snapped(5,4)] covers_snapshot [OF snapped(4), of _ env]
      by (auto simp: covering_def send_snapshot_def [of env k m] simp flip: covers_send_snapshot [of env k m])
  qed (use old [OF _ ext assms(5)] in \<open>simp_all add: covering_def\<close>)
qed

interpretation covering: system_invariant env w covering for env :: "'w env" and w
proof unfold_locales
  show "covering (server_new env w_manager w_blocks w_discovery tip) []" for w_manager w_blocks w_discovery :: 'w and tip
    by (simp add: covering_def server_new_def state_manager_new_def)
  fix sv sv' :: "'w server" and ss ss'
  assume r: "system_reachable env w sv ss" and step: "system_step env w sv ss sv' ss'" and ok: "covering sv ss"
  have req: "requests_ok sv ss" by (rule requests.always [OF r])
  then have asked: "k \<in> set (snapshot_ids sv) \<Longrightarrow> asked_by ss k All_Orders" for k by (simp add: requests_ok_def)
  have ids: "(k, snapshot) \<in> set (sm_snapshots (sv_manager sv)) \<Longrightarrow> k \<in> set (snapshot_ids sv)" for k snapshot
    by (force simp: snapshot_ids_def)
  from step show "covering sv' ss'"
  proof cases
    case Task
    have "ws_from (ss ! k) \<le> length (sm_updates (sv_manager sv))" if "k \<in> set (snapshot_ids sv)" for k
      using positioned.always [OF r] asked [OF that] by (fastforce simp: asked_by_def positioned_def)
    moreover have "reachable env sv'" using system_server [OF r] Task(2) by (rule reachable.step)
    ultimately show ?thesis
      using Task covering_task [OF Task(2-4) _ _ _ ok] reachable_inv system_server [OF r] by blast
  next
    case (Connect here s kind)
    then show ?thesis using ok asked [OF ids] by (fastforce simp: covering_def asked_by_def nth_append)
  next
    case (Session k s)
    have k: "session_ok w k (ss ! k)" using session_ok.always [OF r] Session(2) by blast
    have "ws_from (ss[k := s] ! j) = ws_from (ss ! j)" if "asked_by ss j All_Orders" for j
      using session_step_from [OF Session(3) k] that Session(2) by (auto simp: asked_by_def nth_list_update)
    then show ?thesis using ok asked [OF ids] Session session_step_server [OF Session(3)]
      by (auto simp: covering_def)
  qed
qed

end
