(* ===== verification/Clients.thy ===== *)
theory Clients
  imports Requests
begin

text \<open>
  What the clients of the server are told, in every state that the server and its sessions can
  reach: the properties of the handlers and of the state manager put together over the step
  relation of \<open>Sessions\<close>.
\<close>

section \<open>A session that loops\<close>

lemma open_all_orders_stayed:
  "all_orders_loop net ts parse f is c = (Open, c') \<Longrightarrow> WI_Disconnected \<notin> set is"
  by (induction net ts parse f "is" c rule: all_orders_loop.induct)
    (auto split: if_splits prod.splits bool.splits option.splits)

lemma looping_all_orders:
  assumes r: "system_reachable env w sv ss" and k: "k < length ss" "ws_kind (ss ! k) = All_Orders"
    "ws_phase (ss ! k) = Looping f" and run: "sv_manager_task sv = T_Running"
  obtains snapshot where "(k, snapshot) \<in> set (sm_snapshots (sv_manager sv))" "ws_snapshot (ss ! k) = Some snapshot"
    "handle_all_orders (wv_network w k) (wv_to_string w) (wv_parse w) True (Some snapshot)
       (ws_inputs (ss ! k)) connection_new = (Open, ws_conn (ss ! k))"
    "persistent (ws_inputs (ss ! k))"
proof -
  have a: "answers_ok sv k (ss ! k)" and h: "handler_run w k (ss ! k) = (Open, ws_conn (ss ! k))"
    using answers.always [OF r] k by (auto simp: session_ok_def)
  then obtain snapshot where snap: "ws_snapshot (ss ! k) = Some snapshot" "(k, snapshot) \<in> set (sm_snapshots (sv_manager sv))"
    using k run by (cases "ws_snapshot (ss ! k)") (auto simp: answers_ok_def task_over_def)
  have run: "handle_all_orders (wv_network w k) (wv_to_string w) (wv_parse w) True (Some snapshot)
       (ws_inputs (ss ! k)) connection_new = (Open, ws_conn (ss ! k))"
    using h k(2) snap(1)
    by (cases "ws_asked (ss ! k)") (auto simp: handler_run_def handle_all_orders_def all_orders_session_def split: session.splits)
  then have "WI_Disconnected \<notin> set (ws_inputs (ss ! k))"
    by (auto simp: handle_all_orders_def all_orders_session_def Let_def
        dest: open_all_orders_stayed split: prod.splits session.splits bool.splits)
  moreover have "WI_Updates_Closed \<notin> set (ws_inputs (ss ! k))"
    using positioned.always [OF r] k(1) by (auto simp: positioned_def)
  ultimately show thesis using that snap run by (simp add: persistent_def)
qed

text \<open>What an unfiltered session that has caught up has sent.\<close>

lemma caught_up_sent:
  assumes r: "system_reachable env w sv ss" and k: "k < length ss" "ws_kind (ss ! k) = All_Orders"
    "ws_phase (ss ! k) = Looping f" and run: "sv_manager_task sv = T_Running"
    and rel: "reliable (wv_network w k) (wv_to_string w)"
    and nofilter: "\<forall>text. WI_Text text \<in> set (ws_inputs (ss ! k)) \<longrightarrow> wv_parse w text = None"
    and never: "never_lagged (ss ! k)" and pos: "ws_pos (ss ! k) = length (sm_updates (sv_manager sv))"
  obtains sts where "cn_sent (ws_conn (ss ! k)) = texts (wv_to_string w) sts"
    "set sts \<subseteq> set (sm_updates (sv_manager sv))"
    "\<And>h t. (h, t) \<in> set (sm_tracked_orders (sv_manager sv)) \<Longrightarrow> last_update h sts = Some (to_status t)"
proof -
  let ?m = "sv_manager sv" and ?s = "ss ! k"
  obtain snapshot where snap: "(k, snapshot) \<in> set (sm_snapshots ?m)" and
    h: "handle_all_orders (wv_network w k) (wv_to_string w) (wv_parse w) True (Some snapshot)
       (ws_inputs ?s) connection_new = (Open, ws_conn ?s)" and per: "persistent (ws_inputs ?s)"
    by (rule looping_all_orders [OF r k run])
  have "positioned (sm_updates ?m) ?s" using positioned.always [OF r] k(1) by blast
  then have ups: "updates_of (ws_inputs ?s) = drop (ws_from ?s) (sm_updates ?m)"
    using never pos by (simp add: positioned_def)
  have "forwarded (wv_parse w) order_filter_default (ws_inputs ?s) = drop (ws_from ?s) (sm_updates ?m)"
    using forwarded_unparsed [OF nofilter] by (simp add: matches_filter_def order_filter_default_def ups)
  then have sent: "cn_sent (ws_conn ?s) = texts (wv_to_string w) (snapshot @ drop (ws_from ?s) (sm_updates ?m))"
    using handle_all_orders_effect [OF rel per, of "wv_parse w" snapshot connection_new] h
    by (simp add: connection_new_def)
  have cov: "covers ?m (ws_from ?s) snapshot" using covering.always [OF r] snap by (simp add: covering_def)
  have wf: "hm_wf (sm_tracked_orders ?m)"
    using reachable_inv [OF system_server [OF r]] by (simp add: sm_inv_def sm_wf_def)
  show thesis
  proof (rule that [OF sent])
    show "set (snapshot @ drop (ws_from ?s) (sm_updates ?m)) \<subseteq> set (sm_updates ?m)"
      using cov by (auto simp: covers_def dest: in_set_dropD)
    show "last_update h (snapshot @ drop (ws_from ?s) (sm_updates ?m)) = Some (to_status t)"
      if "(h, t) \<in> set (sm_tracked_orders ?m)" for h t
      using cov that by (simp add: covers_def hm_get_in_set [OF wf])
  qed
qed

lemma positioned_updates: "positioned history s \<Longrightarrow> set (updates_of (ws_inputs s)) \<subseteq> set (drop (ws_from s) history)"
proof
  fix x
  assume p: "positioned history s" and x: "x \<in> set (updates_of (ws_inputs s))"
  from p have "subseq (updates_of (ws_inputs s)) (drop (ws_from s) (take (ws_pos s) history))"
    by (simp add: positioned_def)
  then have "x \<in> set (drop (ws_from s) (take (ws_pos s) history))" using x by (auto elim: list_emb_set)
  then show "x \<in> set (drop (ws_from s) history)" by (auto simp: drop_take dest: in_set_takeD)
qed

text \<open>A single-order session about whose order nothing is received sends nothing after its report.\<close>

lemma single_order_loop_quiet:
  "single_order_loop net ts h is c = (x, c') \<Longrightarrow> \<forall>st \<in> set (updates_of is). status_order_hash st \<noteq> h \<Longrightarrow>
     WI_Updates_Closed \<notin> set is \<Longrightarrow> cn_sent c' = cn_sent c"
  by (induction net ts h "is" c rule: single_order_loop.induct) auto

text \<open>What a later state keeps of a session that has subscribed.\<close>

definition system_moves :: "'w env \<Rightarrow> ws_world \<Rightarrow> 'w server \<times> ws_session list \<Rightarrow> 'w server \<times> ws_session list \<Rightarrow> bool" where
  "system_moves env w x y \<longleftrightarrow> system_step env w (fst x) (snd x) (fst y) (snd y)"

definition settled :: "ws_session \<Rightarrow> bool" where
  "settled s \<longleftrightarrow> ws_phase s \<notin> {Asking, Waiting, Subscribing}"

lemma session_step_settled:
  "session_step w sv k s sv' s' \<Longrightarrow> settled s \<Longrightarrow>
     settled s' \<and> ws_kind s' = ws_kind s \<and> ws_from s' = ws_from s \<and> ws_report s' = ws_report s \<and> ws_asked s' = ws_asked s"
  by (induction rule: session_step.induct) (auto simp: settled_def loop_once_fields)

lemma system_moves_settled:
  assumes "(system_moves env w)\<^sup>*\<^sup>* (sv, ss) y" "system_reachable env w sv ss" "k < length ss" "settled (ss ! k)"
  shows "system_reachable env w (fst y) (snd y) \<and> k < length (snd y) \<and> settled (snd y ! k) \<and>
    ws_kind (snd y ! k) = ws_kind (ss ! k) \<and> ws_from (snd y ! k) = ws_from (ss ! k) \<and>
    ws_report (snd y ! k) = ws_report (ss ! k) \<and> ws_asked (snd y ! k) = ws_asked (ss ! k)"
  using assms(1)
proof (induction rule: rtranclp_induct)
  case base
  then show ?case using assms(2-4) by simp
next
  case (step y z)
  then have step': "system_step env w (fst y) (snd y) (fst z) (snd z)" by (simp add: system_moves_def)
  have "k < length (snd z) \<and> settled (snd z ! k) \<and> ws_kind (snd z ! k) = ws_kind (snd y ! k) \<and>
    ws_from (snd z ! k) = ws_from (snd y ! k) \<and> ws_report (snd z ! k) = ws_report (snd y ! k) \<and>
    ws_asked (snd z ! k) = ws_asked (snd y ! k)"
    using step'
  proof cases
    case (Session j s)
    then show ?thesis using step.IH session_step_settled [OF Session(3)] by (cases "j = k") auto
  qed (use step.IH in \<open>auto simp: nth_append\<close>)
  then show ?case using step.IH system_reachable.step [OF _ step'] by simp
qed

section \<open>A system that has been started\<close>

definition demo_world :: "(order_status \<Rightarrow> string option) \<Rightarrow> ws_world" where
  "demo_world ts = \<lparr>wv_network = \<lambda>_ _. True, wv_to_string = ts, wv_parse = \<lambda>_. None, wv_not_found = ''none''\<rparr>"

definition demo_start :: "int list server" where
  "demo_start = server_new demo_env [1000, 3000] [] [] \<lparr>bt_rollup = 498, bt_host = 499\<rparr>"

abbreviation demo_kind :: ws_kind where "demo_kind \<equiv> Single_Order 5 [Inr (bare_order 5)]"

definition demo_request :: track_order_request where
  "demo_request = \<lparr>tr_order = bare_order 5, tr_initial_report_sender = Some 1\<rparr>"

lemma system_session_step:
  "session_step w sv k s sv' s' \<Longrightarrow> k < length ss \<Longrightarrow> ss ! k = s \<Longrightarrow> ss' = ss[k := s'] \<Longrightarrow>
     system_step env w sv ss sv' ss'"
  by (auto intro: system_step.Session)

text \<open>The manager handles a message.\<close>

lemma system_manager_step:
  assumes "sv_manager_task sv = T_Running" "select_input (manager_readiness sv) = Some i"
    and "handle_input env i ((sv_manager sv)\<lparr>sm_all_order_hashes := od_all_hashes (sv_discovery sv)\<rparr>) = Some m"
    and "i \<noteq> In_Cancelled" "\<forall>msg. i \<noteq> In_Closed msg"
  shows "system_step env w sv ss ((take_message i sv)\<lparr>sv_manager := m, sv_taken := sv_taken sv @ [i],
    sv_before := length (sm_updates (sv_manager sv))\<rparr>) ss"
proof -
  have "rd_all_order_hashes (manager_readiness sv) = od_all_hashes (sv_discovery sv)" by (simp add: manager_readiness_def)
  then have "run_inner env [manager_readiness sv] (sv_manager sv) = (Running, m)"
    using assms(2-5) by (cases i) (auto simp: Let_def simp del: handle_input.simps)
  from server_step.Manager [OF assms(1,2) this refl] select_takes [OF assms(2)] show ?thesis
    by (intro system_step.Task) simp_all
qed

text \<open>Two clients have connected, and the order of the second has been registered.\<close>

definition demo_serving :: "int list server" where
  "demo_serving = demo_start\<lparr>sv_manager := demo_tracked\<lparr>sm_all_order_hashes := {}\<rparr>, sv_taken := [In_Track demo_request]\<rparr>"

lemma demo_start_reachable: "system_reachable demo_env w demo_start []"
  by (rule system_reachable.start [of _ "replicate 5 (Inr ())" "[1000, 3000]" "[0, 0]" "[]"], unfold startup_def demo_joined)
    (simp add: block_watcher_new_def wrap_err_def demo_env_def demo_start_def)

lemma demo_found: "found_order 5 [Inr (bare_order 5)] = Some (bare_order 5)"
  by (simp add: found_order_def bare_order_def demo_order_def)

lemma demo_registered_uncached:
  "register_order demo_env (bare_order 5) (Some 1) ((demo_manager [1000, 3000])\<lparr>sm_all_order_hashes := {}\<rparr>) =
     Some (demo_tracked\<lparr>sm_all_order_hashes := {}\<rparr>)"
proof -
  have "so_hash (bare_order 5) = 5" by (simp add: bare_order_def demo_order_def)
  then show ?thesis
    by (simp add: register_order_def demo_manager_def state_manager_new_def tracker_new_def bare_pending
      demo_tracked_def broadcast_def send_report_def update_store_metrics_def hm_insert_def
      set_tracked_orders_def set_event_store_filled_def set_event_store_order_def metrics_new_def
      event_store_new_def chain_events_new_def filled_count_def ce_filled_count_def order_count_def
      bt_values_def tracked_order_new_def)
qed

lemma demo_updates [simp]:
  "sm_updates (state_manager_new tracker n) = []" "length (sm_updates demo_tracked) = 1"
  by (simp_all add: state_manager_new_def demo_tracked_def)

lemma demo_serving_reachable:
  "system_reachable demo_env w demo_serving [new_session All_Orders 0, ask (new_session demo_kind 0)]"
proof -
  let ?all = "new_session All_Orders 0" and ?one = "new_session demo_kind 0"
  have new: "sm_updates (sv_manager demo_start) = []" "sv_http_task demo_start = T_Running" "sv_tracks demo_start = []"
    "sv_manager_task demo_start = T_Running"
    by (simp_all add: demo_start_def server_new_def state_manager_new_def)
  have "system_step demo_env w demo_start [] demo_start ([] @ [?all])"
    using new by (intro system_step.Connect [of _ 0 _ _ _ All_Orders])
      (simp_all add: open_session_def broadcast_so_far_def demo_start_def server_new_def)
  note r1 = system_reachable.step [OF demo_start_reachable this]
  have "system_step demo_env w demo_start ([] @ [?all]) demo_start (([] @ [?all]) @ [?one])"
    using new demo_found by (intro system_step.Connect [of _ 0 _ _ _ demo_kind])
      (simp_all add: open_session_def broadcast_so_far_def demo_start_def server_new_def)
  note r2 = system_reachable.step [OF r1 this]
  let ?sv = "demo_start\<lparr>sv_tracks := sv_tracks demo_start @ [demo_request]\<rparr>"
  have "session_step w demo_start 1 (([] @ [?all, ?one]) ! 1) ?sv (ask ?one)"
    using session_step.Ask_Report [OF _ _ demo_found, of ?one demo_start w 1] new
    by (simp add: new_session_def task_over_def request_capacity_def demo_request_def)
  from system_step.Session [OF _ this] have
    "system_step demo_env w demo_start ([] @ [?all, ?one]) ?sv ([?all, ?one][1 := ask ?one])" by simp
  then have "system_reachable demo_env w ?sv [?all, ask ?one]"
    using system_reachable.step [OF r2, of ?sv "[?all, ask ?one]"] by simp
  note r3 = this
  have sel: "select_input (manager_readiness ?sv) = Some (In_Track demo_request)"
    by (simp add: select_input_def manager_readiness_def demo_start_def server_new_def block_numbers_changed_def task_over_def)
  have "system_step demo_env w ?sv [?all, ask ?one] demo_serving [?all, ask ?one]"
    using system_manager_step [OF _ sel, of demo_env "demo_tracked\<lparr>sm_all_order_hashes := {}\<rparr>" w "[?all, ask ?one]"] demo_registered_uncached
    by (simp add: demo_request_def demo_serving_def demo_start_def server_new_def discovery_new_def demo_manager_def retention_blocks_def)
  from system_reachable.step [OF r3 this] show ?thesis .
qed

abbreviation demo_pending :: order_status where "demo_pending \<equiv> Pending 5 7 (bare_diagnostics 1000)"

lemma demo_serving_parts [simp]:
  "sv_manager_task demo_serving = T_Running" "sv_snapshots demo_serving = []" "sv_tracks demo_serving = []"
  "sm_updates (sv_manager demo_serving) = [demo_pending]" "sm_reports (sv_manager demo_serving) = [(1, demo_pending)]"
  "sm_tracked_orders (sv_manager demo_serving) = [(5, \<lparr>to_order = bare_order 5, to_status = demo_pending\<rparr>)]"
  "sv_manager demo_serving = demo_tracked\<lparr>sm_all_order_hashes := {}\<rparr>"
  "od_all_hashes (sv_discovery demo_serving) = {}"
  by (simp_all add: demo_serving_def demo_start_def server_new_def demo_tracked_def discovery_new_def)

text \<open>The first client has got its snapshot and the status broadcast before it.\<close>

lemma demo_informed:
  assumes total: "\<forall>st. ts st \<noteq> None"
  obtains sv s where "system_reachable demo_env (demo_world ts) sv [s, ask (new_session demo_kind 0)]"
    "ws_kind s = All_Orders" "ws_phase s = Looping order_filter_default" "ws_inputs s = [WI_Update demo_pending]"
    "ws_pos s = length (sm_updates (sv_manager sv))" "sv_manager_task sv = T_Running"
    "sm_updates (sv_manager sv) = [demo_pending]"
    "sm_tracked_orders (sv_manager sv) = [(5, \<lparr>to_order = bare_order 5, to_status = demo_pending\<rparr>)]"
    "cn_sent (ws_conn s) = [WM_Text (the (ts demo_pending)), WM_Text (the (ts demo_pending))]"
proof -
  let ?w = "demo_world ts" and ?one = "ask (new_session demo_kind 0)" and ?all = "new_session All_Orders 0"
  let ?sv1 = "demo_serving\<lparr>sv_snapshots := [0]\<rparr>"
  let ?m = "send_snapshot demo_env 0 (demo_tracked\<lparr>sm_all_order_hashes := {}\<rparr>)"
  let ?sv2 = "(take_message (In_Snapshot 0) ?sv1)\<lparr>sv_manager := ?m, sv_taken := sv_taken ?sv1 @ [In_Snapshot 0], sv_before := 1\<rparr>"
  have "session_step ?w demo_serving 0 ?all ?sv1 (ask ?all)"
    using session_step.Ask_Snapshot [of ?all demo_serving ?w 0]
    by (simp add: new_session_def task_over_def request_capacity_def)
  then have "system_step demo_env ?w demo_serving [?all, ?one] ?sv1 [ask ?all, ?one]" by (rule system_session_step) simp_all
  note r1 = system_reachable.step [OF demo_serving_reachable this]
  have "select_input (manager_readiness ?sv1) = Some (In_Snapshot 0)"
    by (simp add: select_input_def manager_readiness_def demo_serving_def demo_start_def server_new_def
        block_numbers_changed_def task_over_def)
  then have "system_step demo_env ?w ?sv1 [ask ?all, ?one] ?sv2 [ask ?all, ?one]"
    using system_manager_step [of ?sv1 "In_Snapshot 0" demo_env ?m ?w "[ask ?all, ?one]"] by simp
  note r2 = system_reachable.step [OF r1 this]
  have snap: "sm_snapshots (sv_manager ?sv2) = [(0, [demo_pending])]" "sm_updates (sv_manager ?sv2) = [demo_pending]"
    "sv_manager_task ?sv2 = T_Running"
    "sm_tracked_orders (sv_manager ?sv2) = [(5, \<lparr>to_order = bare_order 5, to_status = demo_pending\<rparr>)]"
    by (simp_all add: send_snapshot_def sm_iter_def hm_iter_def demo_tracked_def demo_manager_def state_manager_new_def)
  have arrived: "(0, [demo_pending]) \<in> set (sm_snapshots (sv_manager ?sv2))" unfolding snap by simp
  let ?s1 = "receive_snapshot ?w 0 [demo_pending] (ask ?all)"
  have "session_step ?w ?sv2 0 (ask ?all) ?sv2 ?s1"
    by (rule session_step.Snapshot_Arrives [OF _ _ arrived]) (simp_all add: new_session_def)
  then have "system_step demo_env ?w ?sv2 [ask ?all, ?one] ?sv2 [?s1, ?one]" by (rule system_session_step) simp_all
  note r3 = system_reachable.step [OF r2 this]
  obtain json where json: "ts demo_pending = Some json" using total by auto
  have s1: "ws_phase ?s1 = Looping order_filter_default" "ws_pos ?s1 = 0" "ws_kind ?s1 = All_Orders" "ws_inputs ?s1 = []"
    "cn_sent (ws_conn ?s1) = [WM_Text json]"
    by (simp_all add: receive_snapshot_def ask_def new_session_def send_status_def timed_send_def demo_world_def json
        guard_new_def connection_new_def)
  let ?s2 = "(loop_once ?w 0 order_filter_default (session_input (Received demo_pending)) ?s1)\<lparr>ws_pos := 1\<rparr>"
  have "session_step ?w ?sv2 0 ?s1 ?sv2 ?s2"
    by (rule session_step.Update [of _ _ _ 1])
      (simp_all only: s1 snap broadcast_so_far_def, simp_all add: recv_def update_capacity_def)
  then have "system_step demo_env ?w ?sv2 [?s1, ?one] ?sv2 [?s2, ?one]" by (rule system_session_step) simp_all
  note r4 = system_reachable.step [OF r3 this]
  have "ws_phase ?s2 = Looping order_filter_default" "cn_sent (ws_conn ?s2) = [WM_Text json, WM_Text json]"
    using s1 by (simp_all add: loop_once_def send_status_def timed_send_def demo_world_def json matches_filter_def
        order_filter_default_def)
  then show thesis using r4 s1 snap
    by (intro that [OF r4]) (simp_all add: loop_once_fields json del: take_message.simps)
qed

text \<open>
  A new block has expired the order and evicted it between the report to the second client and
  its subscription.
\<close>

definition demo_missed :: order_status where
  "demo_missed = Expired 5 7 ((bare_diagnostics 3000)\<lparr>od_is_in_cache := MB_False\<rparr>)"

lemma bare_expired_uncached:
  "status_for_order demo_env (bare_order 5) False (cache, [3000]) = Some (demo_missed, (cache, [3000]))"
  by (simp add: status_for_order_def now_unix_def check_deadline_def pretty_duration_new_def
      duration_from_secs_def is_nonce_consumed_def check_balances_def check_allowances_def
      bare_order_def demo_order_def demo_env_def bare_diagnostics_def maybe_bool_from_def demo_missed_def)

lemma demo_lost:
  obtains sv s where "system_reachable demo_env (demo_world demo_printer) sv [new_session All_Orders 0, s]"
    "ws_kind s = demo_kind" "ws_phase s = Looping order_filter_default" "ws_report s = Some demo_pending"
    "ws_from s = length (sm_updates (sv_manager sv))" "sm_tracked_orders (sv_manager sv) = []"
    "last_update 5 (sm_updates (sv_manager sv)) = Some demo_missed"
    "cn_sent (ws_conn s) = [WM_Text ''pending'']" "ws_asked s" "ws_inputs s = []"
proof -
  let ?w = "demo_world demo_printer" and ?one = "ask (new_session demo_kind 0)" and ?all = "new_session All_Orders 0"
  let ?s1 = "receive_report ?w 1 demo_pending ?one"
  have "session_step ?w demo_serving 1 ?one demo_serving ?s1"
    by (rule session_step.Report_Arrives [of _ 5 "[Inr (bare_order 5)]"])
      (simp_all add: new_session_def demo_tracked_def)
  then have "system_step demo_env ?w demo_serving [?all, ?one] demo_serving [?all, ?s1]" by (rule system_session_step) simp_all
  note r1 = system_reachable.step [OF demo_serving_reachable this]
  let ?tip = "\<lparr>bt_rollup = 501, bt_host = 500\<rparr>"
  obtain bw where bw: "watch_blocks_loop demo_env [Block_Header 501 [Poll_Tick]] (sv_block_watcher demo_serving) = (None, bw)"
    "bw_tip bw = ?tip" "bw_published bw = [?tip]"
    by (simp add: demo_serving_def demo_start_def server_new_def demo_env_def send_replace_def)
  let ?sv1 = "demo_serving\<lparr>sv_block_watcher := bw\<rparr>"
  have "server_step demo_env demo_serving ?sv1"
    using server_step.Block [OF _ _ _ bw(1) refl]
    by (simp add: demo_serving_def demo_start_def server_new_def block_input_possible_def demo_env_def)
  then have "system_step demo_env ?w demo_serving [?all, ?s1] ?sv1 [?all, ?s1]" by (rule system_step.Task) simp_all
  note r2 = system_reachable.step [OF r1 this]
  obtain m where m: "handle_new_blocks demo_env ?tip (demo_tracked\<lparr>sm_all_order_hashes := {}\<rparr>) = Some m"
    "sm_tracked_orders m = []" "sm_updates m = [demo_pending, demo_missed]"
    by (simp add: handle_new_blocks_def Let_def pending_hashes_def sm_iter_def hm_iter_def demo_tracked_def
      demo_manager_def state_manager_new_def tracked_is_terminal_def refresh_order_def hm_get_def
      tracker_new_def bare_expired_uncached put_status_def broadcast_def hm_modify_def set_status_def
      hm_retain_def) (simp add: demo_missed_def broadcast_def)
  have sel: "select_input (manager_readiness ?sv1) = Some (In_Blocks ?tip)"
    using bw by (simp add: select_input_def manager_readiness_def demo_serving_def demo_start_def server_new_def
        block_numbers_changed_def)
  let ?sv2 = "(take_message (In_Blocks ?tip) ?sv1)\<lparr>sv_manager := m, sv_taken := sv_taken ?sv1 @ [In_Blocks ?tip], sv_before := 1\<rparr>"
  have "system_step demo_env ?w ?sv1 [?all, ?s1] ?sv2 [?all, ?s1]"
    using system_manager_step [OF _ sel, of demo_env m ?w "[?all, ?s1]"] by (simp add: m)
  note r3 = system_reachable.step [OF r2 this]
  have s1: "ws_phase ?s1 = Subscribing" "ws_kind ?s1 = demo_kind" "ws_report ?s1 = Some demo_pending"
    "cn_sent (ws_conn ?s1) = [WM_Text ''pending'']" "ws_asked ?s1" "ws_inputs ?s1 = []"
    by (simp_all add: receive_report_def ask_def new_session_def send_status_def timed_send_def demo_world_def
        demo_printer_def status_label_def demo_found guard_new_def connection_new_def)
  let ?s2 = "subscribe (length (sm_updates (sv_manager ?sv2))) ?s1"
  have "session_step ?w ?sv2 1 ?s1 ?sv2 ?s2"
    by (rule session_step.Subscribe [OF s1(1)]) (simp add: broadcast_so_far_def m)
  then have "system_step demo_env ?w ?sv2 [?all, ?s1] ?sv2 [?all, ?s2]" by (rule system_session_step) simp_all
  note r4 = system_reachable.step [OF r3 this]
  show thesis
    by (rule that [OF r4])
      (simp_all add: subscribe_def s1 [unfolded One_nat_def] m last_update_def demo_missed_def)
qed

section \<open>Properties\<close>

text \<open>
  C6: every session in the server is a run of its handler, whatever happens around it. In every
  reachable state, a session in its loop has done what the handler does on the answer that the
  manager sent to it and the inputs it has selected, one that is over what the handler has done
  when it ends; the statuses among those inputs are a part, in order, of what was broadcast
  between its subscription and the position of its receiver, all of it when it never lagged; and
  it has never seen the broadcast channel closed.
\<close>

theorem sessions_run_handlers:
  assumes "system_reachable env w sv ss" "k < length ss"
  shows "(\<forall>f. ws_phase (ss ! k) = Looping f \<longrightarrow> handler_run w k (ss ! k) = (Open, ws_conn (ss ! k))) \<and>
    (ws_phase (ss ! k) = Over \<longrightarrow> handler_run w k (ss ! k) = (Ended, ws_conn (ss ! k))) \<and>
    (\<forall>snapshot. ws_snapshot (ss ! k) = Some snapshot \<longrightarrow> (k, snapshot) \<in> set (sm_snapshots (sv_manager sv))) \<and>
    (\<forall>report. ws_report (ss ! k) = Some report \<longrightarrow> (k, report) \<in> set (sm_reports (sv_manager sv))) \<and>
    ws_from (ss ! k) \<le> ws_pos (ss ! k) \<and> ws_pos (ss ! k) \<le> length (sm_updates (sv_manager sv)) \<and>
    subseq (updates_of (ws_inputs (ss ! k)))
      (drop (ws_from (ss ! k)) (take (ws_pos (ss ! k)) (sm_updates (sv_manager sv)))) \<and>
    (never_lagged (ss ! k) \<longrightarrow> updates_of (ws_inputs (ss ! k)) =
       drop (ws_from (ss ! k)) (take (ws_pos (ss ! k)) (sm_updates (sv_manager sv)))) \<and>
    WI_Updates_Closed \<notin> set (ws_inputs (ss ! k))"
proof -
  have "session_ok w k (ss ! k)" "answers_ok sv k (ss ! k)" "positioned (sm_updates (sv_manager sv)) (ss ! k)"
    using answers.always [OF assms(1)] positioned.always [OF assms(1)] assms(2) by blast+
  then show ?thesis
    by (intro conjI allI impI) (simp_all add: session_ok_def answers_ok_def positioned_def)
qed

theorem sessions_run_handlers_witness:
  "\<exists>sv ss c. system_reachable demo_env (demo_world demo_printer) sv ss \<and>
     handle_single_order (\<lambda>_. True) demo_printer ''none'' 5 [Inr (bare_order 5)] (ws_asked (ss ! 1))
       (ws_report (ss ! 1)) (ws_inputs (ss ! 1)) connection_new = (Open, c) \<and> cn_sent c = [WM_Text ''pending'']"
proof -
  obtain sv s where r: "system_reachable demo_env (demo_world demo_printer) sv [new_session All_Orders 0, s]"
    and s: "ws_kind s = demo_kind" "ws_phase s = Looping order_filter_default" "cn_sent (ws_conn s) = [WM_Text ''pending'']"
    by (rule demo_lost) (rule that; assumption)
  have "handler_run (demo_world demo_printer) 1 s = (Open, ws_conn s)"
    using sessions_run_handlers [OF r, of 1] s(2) by simp
  then show ?thesis using r s
    by (intro exI [of _ sv] exI [of _ "[new_session All_Orders 0, s]"] exI [of _ "ws_conn s"])
      (simp add: handler_run_def demo_world_def)
qed

text \<open>
  C5: a request is answered once, to the session that made it, and none is left hanging. In every
  reachable state no session has been sent two reports or two snapshots; a report went to a
  single-order session and is about its order, a snapshot to an all-orders session; a session
  that waits has its request in the channel or its answer on the way as long as the manager runs;
  and when the manager is over, each session that waits, or still has to ask, can go on.
\<close>

theorem requests_answered:
  assumes "system_reachable env w sv ss"
  shows "distinct (map fst (sm_reports (sv_manager sv))) \<and> distinct (map fst (sm_snapshots (sv_manager sv))) \<and>
    (\<forall>(k, report) \<in> set (sm_reports (sv_manager sv)). k < length ss \<and>
       (\<exists>stream. ws_kind (ss ! k) = Single_Order (status_order_hash report) stream)) \<and>
    (\<forall>(k, snapshot) \<in> set (sm_snapshots (sv_manager sv)). k < length ss \<and> ws_kind (ss ! k) = All_Orders) \<and>
    (\<forall>k < length ss. ws_phase (ss ! k) = Waiting \<and> \<not> task_over (sv_manager_task sv) \<longrightarrow>
       Some k \<in> tr_initial_report_sender ` set (sv_tracks sv) \<or> k \<in> set (sv_snapshots sv) \<or>
       k \<in> fst ` set (sm_reports (sv_manager sv)) \<or> k \<in> fst ` set (sm_snapshots (sv_manager sv))) \<and>
    (\<forall>k < length ss. ws_phase (ss ! k) \<in> {Asking, Waiting} \<and> task_over (sv_manager_task sv) \<longrightarrow>
       (\<exists>s. session_step w sv k (ss ! k) sv s))"
proof -
  have ok: "requests_ok sv ss" by (rule requests.always [OF assms])
  then have d: "distinct (map fst (sm_reports (sv_manager sv)))" "distinct (map fst (sm_snapshots (sv_manager sv)))"
    by (simp_all add: requests_ok_def report_ids_def snapshot_ids_def distinct_map flip: map_map)
  have rep: "k < length ss \<and> (\<exists>stream. ws_kind (ss ! k) = Single_Order (status_order_hash report) stream)"
    if "(k, report) \<in> set (sm_reports (sv_manager sv))" for k report
    using ok that by (auto simp: requests_ok_def asked_by_def)
  have snap: "k < length ss \<and> ws_kind (ss ! k) = All_Orders" if "(k, snapshot) \<in> set (sm_snapshots (sv_manager sv))" for k snapshot
  proof -
    have "k \<in> set (snapshot_ids sv)" using that by (force simp: snapshot_ids_def)
    then show ?thesis using ok by (simp add: requests_ok_def asked_by_def)
  qed
  have pending: "Some k \<in> tr_initial_report_sender ` set (sv_tracks sv) \<or> k \<in> set (sv_snapshots sv) \<or>
       k \<in> fst ` set (sm_reports (sv_manager sv)) \<or> k \<in> fst ` set (sm_snapshots (sv_manager sv))"
    if "k < length ss" "ws_phase (ss ! k) = Waiting" "\<not> task_over (sv_manager_task sv)" for k
    using ok that by (auto simp: requests_ok_def report_ids_def snapshot_ids_def)
  have go: "\<exists>s. session_step w sv k (ss ! k) sv s"
    if "ws_phase (ss ! k) \<in> {Asking, Waiting}" "task_over (sv_manager_task sv)" for k
  proof (cases "ws_phase (ss ! k) = Asking")
    case False
    then have w: "ws_phase (ss ! k) = Waiting" using that(1) by simp
    consider snapshot where "(k, snapshot) \<in> set (sm_snapshots (sv_manager sv))"
      | report where "(k, report) \<in> set (sm_reports (sv_manager sv))"
      | "k \<notin> fst ` set (sm_snapshots (sv_manager sv))" "k \<notin> fst ` set (sm_reports (sv_manager sv))"
      by fastforce
    then show ?thesis
    proof cases
      case 1
      then have "session_step w sv k (ss ! k) sv (receive_snapshot w k snapshot (ss ! k))"
        using snap w by (intro session_step.Snapshot_Arrives) auto
      then show ?thesis ..
    next
      case 2
      then obtain stream where "ws_kind (ss ! k) = Single_Order (status_order_hash report) stream" using rep by blast
      then have "session_step w sv k (ss ! k) sv (receive_report w k report (ss ! k))"
        using 2 w by (intro session_step.Report_Arrives)
      then show ?thesis ..
    next
      case 3
      then have "session_step w sv k (ss ! k) sv (miss_answer w k (ss ! k))"
        using w that(2) by (intro session_step.Answer_Dropped)
      then show ?thesis ..
    qed
  qed (use that(2) in \<open>blast intro: session_step.Ask_Refused\<close>)
  show ?thesis using d rep snap pending go by (intro conjI) auto
qed

theorem requests_answered_witness:
  "system_reachable demo_env (demo_world demo_printer) demo_serving [new_session All_Orders 0, ask (new_session demo_kind 0)] \<and>
   sm_reports (sv_manager demo_serving) \<noteq> [] \<and>
   distinct (map fst (sm_reports (sv_manager demo_serving)))"
  using requests_answered [OF demo_serving_reachable, of "demo_world demo_printer"] demo_serving_reachable
  by (auto simp: demo_tracked_def)

text \<open>
  C2: an all-orders client that misses nothing knows every tracked order. In every state that the
  server and its sessions can reach with the manager running: when an all-orders session to a
  client that accepts everything has set no filter, has never lagged and has received all that
  was broadcast, then the last status its client was sent about any tracked order is the order's
  current one, and every tracked order is among them.
\<close>

theorem all_orders_client_informed:
  assumes "system_reachable env w sv ss" "k < length ss" "ws_kind (ss ! k) = All_Orders" "ws_phase (ss ! k) = Looping f"
    and "sv_manager_task sv = T_Running" "\<forall>n. wv_network w k n" "\<forall>st. wv_to_string w st \<noteq> None"
    and "\<forall>text. WI_Text text \<in> set (ws_inputs (ss ! k)) \<longrightarrow> wv_parse w text = None"
    and "\<forall>n. WI_Lagged n \<notin> set (ws_inputs (ss ! k))" "ws_pos (ss ! k) = length (sm_updates (sv_manager sv))"
  shows "\<exists>sts. cn_sent (ws_conn (ss ! k)) = map (\<lambda>st. WM_Text (the (wv_to_string w st))) sts \<and>
    (\<forall>(h, t) \<in> set (sm_tracked_orders (sv_manager sv)). last_update h sts = Some (to_status t))"
proof -
  have rel: "reliable (wv_network w k) (wv_to_string w)" using assms(6,7) by (simp add: reliable_def)
  have never: "never_lagged (ss ! k)" using assms(9) by (simp add: never_lagged_def)
  show ?thesis
    by (rule caught_up_sent [OF assms(1-5) rel assms(8) never assms(10)]) (auto simp: texts_def)
qed

theorem all_orders_client_informed_witness:
  "\<exists>sv s sts. system_reachable demo_env (demo_world demo_printer) sv [s, ask (new_session demo_kind 0)] \<and>
     sm_tracked_orders (sv_manager sv) \<noteq> [] \<and> cn_sent (ws_conn s) = map (\<lambda>st. WM_Text (the (demo_printer st))) sts \<and>
     last_update 5 sts = Some demo_pending"
proof -
  have total: "\<forall>st. demo_printer st \<noteq> None" by (simp add: demo_printer_def)
  obtain sv s where r: "system_reachable demo_env (demo_world demo_printer) sv [s, ask (new_session demo_kind 0)]"
    and s: "ws_kind s = All_Orders" "ws_phase s = Looping order_filter_default" "ws_inputs s = [WI_Update demo_pending]"
      "ws_pos s = length (sm_updates (sv_manager sv))"
    and m: "sv_manager_task sv = T_Running"
      "sm_tracked_orders (sv_manager sv) = [(5, \<lparr>to_order = bare_order 5, to_status = demo_pending\<rparr>)]"
    by (rule demo_informed [OF total]) (rule that; assumption)
  show ?thesis
    using all_orders_client_informed [OF r, of 0 order_filter_default] r s m
    by (intro exI [of _ sv] exI [of _ s]) (simp add: demo_world_def demo_printer_def)
qed

text \<open>
  C39: a single-order client can miss the end of its order, whatever happens afterwards. There is
  a reachable state in which the client of such a session has been sent its order as pending, the
  order has expired, its expiry has been broadcast and the order been evicted, but the session
  subscribed only then (it subscribes after it has sent the initial report). Whatever steps the
  server, the session, other sessions and the clients take from there on, the client is sent
  nothing more unless something new is broadcast about an order that is no longer tracked.
\<close>

theorem single_order_lost_update:
  "\<exists>sv ss st. system_reachable demo_env (demo_world demo_printer) sv ss \<and> 1 < length ss \<and>
     ws_kind (ss ! 1) = Single_Order 5 [Inr (bare_order 5)] \<and> cn_sent (ws_conn (ss ! 1)) = [WM_Text ''pending''] \<and>
     sm_tracked_orders (sv_manager sv) = [] \<and> last_update 5 (sm_updates (sv_manager sv)) = Some st \<and> is_terminal st \<and>
     (\<forall>sv' ss'. (system_moves demo_env (demo_world demo_printer))\<^sup>*\<^sup>* (sv, ss) (sv', ss') \<and>
        (\<forall>st \<in> set (drop (length (sm_updates (sv_manager sv))) (sm_updates (sv_manager sv'))). status_order_hash st \<noteq> 5) \<longrightarrow>
        cn_sent (ws_conn (ss' ! 1)) = [WM_Text ''pending''])"
proof -
  let ?w = "demo_world demo_printer"
  obtain sv s where r: "system_reachable demo_env ?w sv [new_session All_Orders 0, s]" and
    s: "ws_kind s = demo_kind" "ws_phase s = Looping order_filter_default" "ws_report s = Some demo_pending"
      "ws_from s = length (sm_updates (sv_manager sv))" and
    m: "sm_tracked_orders (sv_manager sv) = []" "last_update 5 (sm_updates (sv_manager sv)) = Some demo_missed" and
    sent: "cn_sent (ws_conn s) = [WM_Text ''pending'']" and asked: "ws_asked s"
    by (rule demo_lost) (rule that; assumption)
  have "cn_sent (ws_conn (ss' ! 1)) = [WM_Text ''pending'']"
    if moves: "(system_moves demo_env ?w)\<^sup>*\<^sup>* (sv, [new_session All_Orders 0, s]) (sv', ss')" and
      quiet: "\<forall>st \<in> set (drop (length (sm_updates (sv_manager sv))) (sm_updates (sv_manager sv'))). status_order_hash st \<noteq> 5"
    for sv' ss'
  proof -
    let ?s = "ss' ! 1"
    have "settled s" using s(2) by (simp add: settled_def)
    with system_moves_settled [OF moves r, of 1] s have
      r': "system_reachable demo_env ?w sv' ss'" "1 < length ss'" and set: "settled ?s" and
      keep: "ws_kind ?s = demo_kind" "ws_from ?s = length (sm_updates (sv_manager sv))" "ws_report ?s = Some demo_pending" "ws_asked ?s"
      using asked by simp_all
    have "positioned (sm_updates (sv_manager sv')) ?s" "session_ok ?w 1 ?s"
      using positioned.always [OF r'(1)] session_ok.always [OF r'(1)] r'(2) by blast+
    then have ups: "set (updates_of (ws_inputs ?s)) \<subseteq> set (drop (ws_from ?s) (sm_updates (sv_manager sv')))"
      "WI_Updates_Closed \<notin> set (ws_inputs ?s)" and run: "snd (handler_run ?w 1 ?s) = ws_conn ?s"
      using set positioned_updates
      by (blast, auto simp: positioned_def session_ok_def settled_def split: ws_phase.splits)
    let ?c = "guard_new WS_Single connection_new\<lparr>cn_requests := [bare_order 5]\<rparr>"
    obtain c1 where c1: "send_status (\<lambda>_. True) demo_printer WS_Single demo_pending ?c = (True, c1)" "cn_sent c1 = [WM_Text ''pending'']"
      by (simp add: send_status_def timed_send_def demo_printer_def status_label_def guard_new_def connection_new_def)
    obtain x c2 where c2: "single_order_loop (\<lambda>_. True) demo_printer 5 (ws_inputs ?s) c1 = (x, c2)" by (rule prod.exhaust)
    have "cn_sent c2 = cn_sent c1"
      by (rule single_order_loop_quiet [OF c2 _ ups(2)]) (use ups(1) quiet keep(2) in auto)
    moreover have "cn_sent (ws_conn ?s) = cn_sent c2"
      using c1 c2 keep demo_found unfolding run [symmetric]
      by (cases x) (auto simp: handler_run_def handle_single_order_def single_order_session_def demo_world_def
          found_order_def Let_def guard_new_def guard_drop_def connection_new_def split: sum.splits)
    ultimately show ?thesis using c1(2) by simp
  qed
  then have "\<forall>sv' ss'. (system_moves demo_env ?w)\<^sup>*\<^sup>* (sv, [new_session All_Orders 0, s]) (sv', ss') \<and>
      (\<forall>st \<in> set (drop (length (sm_updates (sv_manager sv))) (sm_updates (sv_manager sv'))). status_order_hash st \<noteq> 5) \<longrightarrow>
      cn_sent (ws_conn (ss' ! 1)) = [WM_Text ''pending'']" by blast
  moreover have "is_terminal demo_missed" by (simp add: demo_missed_def)
  ultimately show ?thesis using r s(1) m sent
    by (intro exI [of _ sv] exI [of _ "[new_session All_Orders 0, s]"] exI [of _ demo_missed] conjI) simp_all
qed

theorem single_order_lost_update_witness:
  "\<exists>sv ss st. system_reachable demo_env (demo_world demo_printer) sv ss \<and>
     last_update 5 (sm_updates (sv_manager sv)) = Some st \<and> is_terminal st \<and>
     (system_moves demo_env (demo_world demo_printer))\<^sup>*\<^sup>* (sv, ss) (sv, ss) \<and>
     cn_sent (ws_conn (ss ! 1)) = [WM_Text ''pending'']"
  using single_order_lost_update by fastforce

end
