(* ===== verification/Lifecycle.thy ===== *)
theory Lifecycle
  imports Clients
begin

text \<open>
  The life of an order as the manager shows it to the outside: a small automaton over the statuses
  broadcast about it, which every run of the manager, within every run of the server, refines.
\<close>

section \<open>The automaton\<close>

datatype life = L_Untracked | L_Pending | L_Settled

definition life_after :: "order_status \<Rightarrow> life" where
  "life_after st = (if is_terminal st then L_Settled else L_Pending)"

text \<open>
  The statuses announced so far, the number of times that tracking has begun, and where the order
  is now: tracking begins with a first status, a pending order is refreshed, a settled one evicted.
\<close>

inductive lifecycle :: "order_status list \<Rightarrow> nat \<Rightarrow> life \<Rightarrow> bool" where
  Start: "lifecycle [] 0 L_Untracked"
| Begin: "lifecycle us n L_Untracked \<Longrightarrow> lifecycle (us @ [st]) (Suc n) (life_after st)"
| Refresh: "lifecycle us n L_Pending \<Longrightarrow> lifecycle (us @ [st]) n (life_after st)"
| Evict: "lifecycle us n L_Settled \<Longrightarrow> lifecycle us n L_Untracked"

text \<open>Each time that tracking has begun ends with one terminal status, the running one excepted.\<close>

lemma lifecycle_count:
  "lifecycle us n l \<Longrightarrow> n = length (filter is_terminal us) + (if l = L_Pending then 1 else 0)"
  by (induction rule: lifecycle.induct) (auto simp: life_after_def)

text \<open>After a terminal status nothing is announced unless tracking begins anew.\<close>

lemma lifecycle_terminal_last:
  "lifecycle us n l \<Longrightarrow> l \<noteq> L_Pending \<Longrightarrow> us = [] \<or> is_terminal (last us)"
  by (induction rule: lifecycle.induct) (auto simp: life_after_def split: if_splits)

section \<open>The manager refines it\<close>

definition about :: "b256 \<Rightarrow> order_status list \<Rightarrow> order_status list" where
  "about h us = filter (\<lambda>st. status_order_hash st = h) us"

definition life_of :: "tracked_order option \<Rightarrow> life" where
  "life_of t = (case t of None \<Rightarrow> L_Untracked | Some t \<Rightarrow> life_after (to_status t))"

definition lives :: "b256 \<Rightarrow> nat \<Rightarrow> 'w state_manager \<Rightarrow> bool" where
  "lives h n s \<longleftrightarrow> lifecycle (about h (sm_updates s)) n (life_of (tracked s h))"

lemma about_simps [simp]:
  "about h [] = []"
  "about h (us @ vs) = about h us @ about h vs"
  "about h (st # us) = (if status_order_hash st = h then st # about h us else about h us)"
  by (simp_all add: about_def)

lemma about_none: "h \<notin> status_order_hash ` set us \<Longrightarrow> about h us = []"
  by (auto simp: about_def filter_empty_conv)

lemma about_one: "distinct (map status_order_hash us) \<Longrightarrow> st \<in> set us \<Longrightarrow> about (status_order_hash st) us = [st]"
  by (induction us) (auto simp: about_none)

lemma lives_parts [simp]:
  "lives h n (s\<lparr>sm_all_order_hashes := H\<rparr>) = lives h n s"
  "lives h n (send_snapshot env k s) = lives h n s"
  by (simp_all add: lives_def send_snapshot_def)

lemma lives_new: "lives h 0 (state_manager_new tracker n)"
  by (simp add: lives_def state_manager_new_def life_of_def lifecycle.Start)

text \<open>A loop that publishes at most one status per pending order.\<close>

lemma lifecycle_published:
  assumes "lifecycle us n (life_of t)" "distinct (map status_order_hash sts)"
    and "h \<in> status_order_hash ` set sts \<Longrightarrow> \<exists>t'. t = Some t' \<and> \<not> is_terminal (to_status t')"
  shows "lifecycle (us @ about h sts) n (life_of (map_option (refreshed sts h) t))"
proof (cases "h \<in> status_order_hash ` set sts")
  case True
  then obtain st where st: "st \<in> set sts" "h = status_order_hash st" by blast
  from assms(3) [OF True] obtain t' where t': "t = Some t'" "\<not> is_terminal (to_status t')" by blast
  have "life_of (map_option (refreshed sts h) t) = life_after st"
    using last_update_distinct [OF assms(2) st(1)] st(2) t' by (simp add: life_of_def refreshed_def sm_simps)
  moreover have "life_of t = L_Pending" using t' by (simp add: life_of_def life_after_def)
  ultimately show ?thesis using assms(1) about_one [OF assms(2) st(1)] st(2) by (simp add: lifecycle.Refresh)
next
  case False
  then show ?thesis using assms(1) by (simp add: about_none refreshed_id option.map_id)
qed

lemma lives_new_blocks:
  assumes inv: "sm_inv s" and l: "lives h n s" and step: "handle_new_blocks env tip s = Some s'"
  shows "lives h n s'"
proof -
  have wf: "hm_wf (sm_tracked_orders s)" using inv by (simp add: sm_inv_def sm_wf_def)
  obtain sts where hashes: "map status_order_hash sts = pending_hashes env s"
    and ups: "sm_updates s' = sm_updates s @ sts"
    and tr: "\<And>j. tracked s' j = (case map_option (refreshed sts j) (tracked s j) of
        None \<Rightarrow> None | Some t \<Rightarrow> if is_terminal (to_status t) then None else Some t)"
    by (rule handle_new_blocks_effect [OF inv step]) (rule that; assumption)
  let ?t = "map_option (refreshed sts h) (tracked s h)"
  have "h \<in> status_order_hash ` set sts \<Longrightarrow> \<exists>t. tracked s h = Some t \<and> \<not> is_terminal (to_status t)"
    using pending_hashes_set [OF wf, of h env] hashes by (metis list.set_map)
  from lifecycle_published [OF l [unfolded lives_def] _ this] pending_hashes_distinct [OF wf, of env] hashes
  have "lifecycle (about h (sm_updates s')) n (life_of ?t)" by (simp add: ups)
  then show ?thesis
    by (cases ?t) (auto simp: lives_def life_of_def life_after_def tr split: if_splits intro: lifecycle.Evict)
qed

lemma lives_chain_event:
  assumes inv: "sm_inv s" and l: "lives h n s" and step: "handle_chain_event env event s = Some s'"
  shows "lives h n s'"
proof (cases event)
  case (CE_Filled filled)
  let ?s1 = "s\<lparr>sm_metrics := record_chain_event Kind_Filled (sm_metrics s),
      sm_event_store := insert_filled filled (sm_event_store s)\<rparr>"
  from step CE_Filled obtain s2 where c: "check_fills_against_pending env filled ?s1 = Some s2"
    and s': "s' = update_store_metrics s2"
    by (auto simp: handle_chain_event_def split: Option.bind_splits)
  have inv1: "sm_inv ?s1" using inv by (simp add: sm_inv_def sm_wf_def coherent_def es_wf_insert_filled)
  obtain sts tr where eff: "refreshed_by sts tr ?s1 s2" and d: "distinct (map status_order_hash sts)"
    and pend: "\<And>st. st \<in> set sts \<Longrightarrow> \<exists>t. tracked ?s1 (status_order_hash st) = Some t \<and> \<not> is_terminal (to_status t)"
    by (rule check_fills_effect [OF inv1 c]) blast
  have "lifecycle (about h (sm_updates s) @ about h sts) n (life_of (map_option (refreshed sts h) (tracked s h)))"
    by (rule lifecycle_published [OF l [unfolded lives_def] d]) (use pend in auto)
  then show ?thesis using eff by (simp add: s' lives_def refreshed_by_def sm_simps)
qed (use l step in \<open>auto simp: handle_chain_event_def lives_def sm_simps\<close>)

lemma lives_register:
  assumes l: "lives h n s" and inv: "sm_inv s" and step: "register_order env order sender s = Some s'"
  shows "\<exists>m. lives h m s' \<and> m \<le> (if so_hash order = h then Suc n else n)"
proof (cases "tracked s (so_hash order)")
  case (Some t)
  with step have "s' = send_report sender (to_status t) s" by (simp add: register_order_def)
  then show ?thesis using l by (intro exI [of _ n]) (simp add: lives_def sm_simps)
next
  case None
  from register_order_new [OF this step] obtain st tr where
    st: "status_for_order env order True (sm_tracker s) = Some (st, tr)" and
    s': "s' = update_store_metrics (broadcast st (send_report sender st (s\<lparr>sm_tracker := tr,
       sm_tracked_orders := hm_insert (so_hash order) (tracked_order_new order st) (sm_tracked_orders s)\<rparr>)))" .
  have id: "status_order_hash st = so_hash order" using status_for_order_identity [OF st] by auto
  have get: "tracked s' j = (if j = so_hash order then Some (tracked_order_new order st) else tracked s j)" for j
    using inv by (auto simp: s' sm_simps hm.get_put sm_inv_def sm_wf_def)
  have ups: "sm_updates s' = sm_updates s @ [st]" by (simp add: s' sm_simps)
  show ?thesis
  proof (cases "so_hash order = h")
    case True
    with l None have "lifecycle (about h (sm_updates s)) n L_Untracked" by (simp add: lives_def life_of_def)
    from lifecycle.Begin [OF this, of st] have "lives h (Suc n) s'"
      using True id by (simp add: lives_def get ups life_of_def sm_simps)
    then show ?thesis using True by auto
  next
    case False
    then show ?thesis using l id by (intro exI [of _ n]) (simp add: lives_def get ups)
  qed
qed

text \<open>The messages that ask for an order.\<close>

fun registers :: "b256 \<Rightarrow> input \<Rightarrow> bool" where
  "registers h (In_Order order) = (so_hash order = h)"
| "registers h (In_Track request) = (so_hash (tr_order request) = h)"
| "registers h _ = False"

lemma lives_input:
  assumes "sm_inv s" "lives h n s" "handle_input env i s = Some s'"
  shows "\<exists>m. lives h m s' \<and> m \<le> n + (if registers h i then 1 else 0)"
proof (cases i)
  case (In_Order order)
  then show ?thesis using lives_register [OF assms(2,1), of env order None s'] assms(3) by auto
next
  case (In_Track request)
  then show ?thesis using lives_register [OF assms(2,1)] assms(3) by fastforce
next
  case (In_Blocks tip)
  then show ?thesis using lives_new_blocks [OF assms(1,2)] assms(3) by auto
next
  case (In_Event event)
  then show ?thesis using lives_chain_event [OF assms(1,2)] assms(3) by auto
qed (use assms in auto)

lemma lives_panicked:
  assumes "sm_inv s" "lives h n s"
  shows "lives h n (panicked_state env i s)"
proof -
  from panicked_effect [OF assms(1), of env i] obtain sts where p: "partly_refreshed sts s (panicked_state env i s)" by blast
  then have "lifecycle (about h (sm_updates s) @ about h sts) n (life_of (map_option (refreshed sts h) (tracked s h)))"
    by (intro lifecycle_published [OF assms(2) [unfolded lives_def]]) (auto simp: partly_refreshed_def)
  then show ?thesis using p by (simp add: lives_def partly_refreshed_def)
qed

section \<open>In the server\<close>

definition order_lives :: "b256 \<Rightarrow> 'w server \<Rightarrow> bool" where
  "order_lives h sv \<longleftrightarrow> (\<exists>n \<le> length (filter (registers h) (sv_taken sv)). lives h n (sv_manager sv))"

lemma order_lives_step:
  assumes "server_step env sv sv'" "order_lives h sv" "sm_inv (sv_manager sv)"
  shows "order_lives h sv'"
  using assms
proof (induction rule: server_step.induct)
  case (Block sv i exit bw sv1)
  then show ?case by (cases exit) (simp_all add: order_lives_def task_ends)
next
  case (Manager sv i e m sv1)
  let ?m = "(sv_manager sv)\<lparr>sm_all_order_hashes := rd_all_order_hashes (manager_readiness sv)\<rparr>"
  from Manager.prems obtain n where n: "n \<le> length (filter (registers h) (sv_taken sv))" "lives h n ?m"
    by (auto simp: order_lives_def)
  from manager_once [OF Manager.hyps(3,2)]
  have "\<exists>k. lives h k m \<and> k \<le> n + (if registers h i then 1 else 0)"
  proof (elim disjE conjE)
    assume "handle_input env i ?m = Some m"
    from lives_input [OF manager_hashes(2) [OF Manager.prems(2)] n(2) this] show ?thesis .
  next
    assume "m = ?m"
    then show ?thesis using n(2) by auto
  next
    assume "m = panicked_state env i ?m"
    then show ?thesis using lives_panicked [OF manager_hashes(2) [OF Manager.prems(2)] n(2)]
      by (intro exI [of _ n]) simp
  qed
  then obtain k where "lives h k m" "k \<le> n + (if registers h i then 1 else 0)" by blast
  then have "order_lives h sv1"
    using n(1) unfolding order_lives_def by (intro exI [of _ k]) (auto simp: Manager.hyps(4))
  then show ?case by (cases e) (simp_all add: order_lives_def task_ends)
qed (simp_all add: order_lives_def task_ends)

interpretation order_lives: server_invariant env "order_lives h" for env :: "'w env" and h
  by unfold_locales
    (auto simp: order_lives_def server_new_def lives_new intro: order_lives_step [unfolded order_lives_def] dest: reachable_inv)

section \<open>Properties\<close>

text \<open>
  C7: what is announced about an order is the life of an order. In every reachable state of the
  server, and for every hash, the statuses broadcast about it are a run of the automaton that ends
  where the manager has the order: tracking begins with a first status, goes on with further
  ones while they are not terminal, ends with one terminal status and an eviction, and can only
  then begin again. So each of the times that the order was asked for is announced as ended at
  most once, and the number of the endings is that of the beginnings, but for an order that is
  pending now.
\<close>

theorem order_lifecycle:
  assumes "reachable env sv"
  shows "\<exists>n. lifecycle (about h (sm_updates (sv_manager sv))) n (life_of (tracked (sv_manager sv) h)) \<and>
    n \<le> length (filter (registers h) (sv_taken sv)) \<and>
    n = length (filter is_terminal (about h (sm_updates (sv_manager sv)))) +
      (if life_of (tracked (sv_manager sv) h) = L_Pending then 1 else 0)"
  using order_lives.always [OF assms, of h] lifecycle_count
  by (fastforce simp: order_lives_def lives_def)

theorem order_lifecycle_witness:
  "\<exists>sv n. reachable demo_env sv \<and> lifecycle (about 5 (sm_updates (sv_manager sv))) n L_Untracked \<and>
     0 < n \<and> n \<le> length (filter (registers 5) (sv_taken sv))"
proof -
  obtain sv s where r: "system_reachable demo_env (demo_world demo_printer) sv [new_session All_Orders 0, s]"
    and gone: "sm_tracked_orders (sv_manager sv) = []"
    and ended: "last_update 5 (sm_updates (sv_manager sv)) = Some demo_missed"
    by (rule demo_lost) (rule that; assumption)
  have "is_terminal demo_missed" by (simp add: demo_missed_def)
  then have "filter is_terminal (about 5 (sm_updates (sv_manager sv))) \<noteq> []"
    using last_update_in [OF ended] by (auto simp: about_def filter_empty_conv)
  then show ?thesis
    using order_lifecycle [OF system_server [OF r], of 5] system_server [OF r]
    by (force simp: gone life_of_def)
qed

end
