(* ===== verification/SingleOrder.thy ===== *)
theory SingleOrder
  imports Lifecycle
begin

text \<open>
  What the client of a single order is told in the server with all its sessions: the counterpart
  of \<open>all_orders_client_informed\<close>, with the life cycle of the order.
\<close>

section \<open>A session that loops\<close>

lemma open_single_order_stayed:
  "single_order_loop net ts h is c = (Open, c') \<Longrightarrow> WI_Disconnected \<notin> set is"
  by (induction net ts h "is" c rule: single_order_loop.induct)
    (auto simp: Let_def split: if_splits prod.splits bool.splits)

lemma looping_single_order:
  assumes r: "system_reachable env w sv ss" and k: "k < length ss" "ws_kind (ss ! k) = Single_Order h stream"
    "ws_phase (ss ! k) = Looping f"
  obtains order report where "try_next_order (\<lambda>order. so_hash order = h) stream = Inr (Some order)"
    "ws_report (ss ! k) = Some report" "(k, report) \<in> set (sm_reports (sv_manager sv))"
    "handle_single_order (wv_network w k) (wv_to_string w) (wv_not_found w) h stream True (Some report)
       (ws_inputs (ss ! k)) connection_new = (Open, ws_conn (ss ! k))"
    "persistent (ws_inputs (ss ! k))"
proof -
  let ?s = "ss ! k"
  have a: "answers_ok sv k ?s" and h: "handler_run w k ?s = (Open, ws_conn ?s)"
    using answers.always [OF r] k by (auto simp: session_ok_def)
  then obtain order report where found: "try_next_order (\<lambda>order. so_hash order = h) stream = Inr (Some order)"
    and rep: "ws_report ?s = Some report" and asked: "ws_asked ?s"
    using k(2) by (auto simp: handler_run_def handle_single_order_def single_order_session_def Let_def
        split: sum.splits option.splits prod.splits session.splits if_splits)
  then have run: "handle_single_order (wv_network w k) (wv_to_string w) (wv_not_found w) h stream True (Some report)
       (ws_inputs ?s) connection_new = (Open, ws_conn ?s)"
    using h k(2) by (simp add: handler_run_def)
  then have "WI_Disconnected \<notin> set (ws_inputs ?s)"
    using found by (auto simp: handle_single_order_def single_order_session_def Let_def
        dest: open_single_order_stayed split: prod.splits session.splits bool.splits if_splits)
  moreover have "WI_Updates_Closed \<notin> set (ws_inputs ?s)"
    using positioned.always [OF r] k(1) by (auto simp: positioned_def)
  moreover have "(k, report) \<in> set (sm_reports (sv_manager sv))" using a rep by (simp add: answers_ok_def)
  ultimately show thesis using that [OF found rep _ run] by (simp add: persistent_def)
qed

text \<open>An order whose last announcement is not terminal is tracked with that status.\<close>

lemma announced_tracked:
  assumes r: "reachable env sv" and ne: "about h (sm_updates (sv_manager sv)) \<noteq> []"
    and live: "\<not> is_terminal (last (about h (sm_updates (sv_manager sv))))"
  obtains t where "tracked (sv_manager sv) h = Some t" "to_status t = last (about h (sm_updates (sv_manager sv)))"
proof -
  let ?m = "sv_manager sv"
  from order_lives.always [OF r, of h] obtain n where
    "lifecycle (about h (sm_updates ?m)) n (life_of (tracked ?m h))" by (auto simp: order_lives_def lives_def)
  then have "life_of (tracked ?m h) = L_Pending" using lifecycle_terminal_last ne live by blast
  then obtain t where t: "tracked ?m h = Some t" by (auto simp: life_of_def split: option.splits)
  then have "last_update h (sm_updates ?m) = Some (to_status t)"
    using reachable_inv [OF r] by (simp add: sm_inv_def coherent_def)
  moreover have "last_update h us = (if about h us = [] then None else Some (last (about h us)))" for us
    by (induction us rule: rev_induct) (simp_all add: last_update_snoc)
  ultimately show thesis using that [OF t] ne by simp
qed

section \<open>Properties\<close>

text \<open>
  C3: a single-order client that misses nothing is told the life of its order. In every state that
  the server and its sessions can reach: when a single-order session to a client that accepts
  everything is open, has never lagged and has received all that was broadcast, then its client
  has been sent the report that answered its request and every status broadcast about its order
  since the session subscribed, in order, none of them terminal; and if there was one, then the
  order is tracked and the last status sent is its current one.
\<close>

theorem single_order_client_informed:
  assumes "system_reachable env w sv ss" "k < length ss" "ws_kind (ss ! k) = Single_Order h stream"
    and "ws_phase (ss ! k) = Looping f" "\<forall>n. wv_network w k n" "\<forall>st. wv_to_string w st \<noteq> None"
    and "\<forall>n. WI_Lagged n \<notin> set (ws_inputs (ss ! k))" "ws_pos (ss ! k) = length (sm_updates (sv_manager sv))"
  shows "\<exists>report since. (k, report) \<in> set (sm_reports (sv_manager sv)) \<and>
    since = about h (drop (ws_from (ss ! k)) (sm_updates (sv_manager sv))) \<and>
    cn_sent (ws_conn (ss ! k)) = map (\<lambda>st. WM_Text (the (wv_to_string w st))) (report # since) \<and>
    list_all (\<lambda>st. \<not> is_terminal st) (report # since) \<and>
    (since = [] \<or> (\<exists>t. tracked (sv_manager sv) h = Some t \<and> to_status t = last since))"
proof -
  let ?s = "ss ! k" and ?us = "sm_updates (sv_manager sv)"
  define since where "since = about h (drop (ws_from ?s) ?us)"
  have rel: "reliable (wv_network w k) (wv_to_string w)" using assms(5,6) by (simp add: reliable_def)
  obtain order report where found: "try_next_order (\<lambda>order. so_hash order = h) stream = Inr (Some order)"
    and rep: "(k, report) \<in> set (sm_reports (sv_manager sv))"
    and run: "handle_single_order (wv_network w k) (wv_to_string w) (wv_not_found w) h stream True (Some report)
       (ws_inputs ?s) connection_new = (Open, ws_conn ?s)" and per: "persistent (ws_inputs ?s)"
    by (rule looping_single_order [OF assms(1-4)]) (rule that; assumption)
  have "updates_of (ws_inputs ?s) = drop (ws_from ?s) ?us"
    using positioned.always [OF assms(1)] assms(2,7,8) by (auto simp: positioned_def never_lagged_def)
  then have mine: "filter (\<lambda>st. status_order_hash st = h) (updates_of (ws_inputs ?s)) = since"
    by (simp add: since_def about_def)
  from handle_single_order_effect [OF rel per found, of "wv_not_found w" report connection_new, unfolded mine run]
  have live: "\<not> list_ex is_terminal (report # since)" and
    sent: "cn_sent (ws_conn ?s) = texts (wv_to_string w) (until_terminal (report # since)) @ closing (report # since)"
    by (auto simp: connection_new_def split: if_splits)
  from live have all: "list_all (\<lambda>st. \<not> is_terminal st) (report # since)"
    by (simp add: list_all_iff list_ex_iff)
  have "cn_sent (ws_conn ?s) = map (\<lambda>st. WM_Text (the (wv_to_string w st))) (report # since)"
    using sent live until_terminal_all [OF all] by (simp add: closing_def texts_def)
  moreover have "since = [] \<or> (\<exists>t. tracked (sv_manager sv) h = Some t \<and> to_status t = last since)"
  proof (cases "since = []")
    case False
    have "about h ?us = about h (take (ws_from ?s) ?us) @ since"
      unfolding since_def by (metis about_simps(2) append_take_drop_id)
    then have l: "about h ?us \<noteq> []" "last (about h ?us) = last since" using False by simp_all
    have "\<not> is_terminal (last since)" using all False by (simp add: list_all_iff)
    with announced_tracked [OF system_server [OF assms(1)] l(1)] l(2) show ?thesis by metis
  qed simp
  ultimately show ?thesis using rep all by (intro exI [of _ report] exI [of _ since] conjI) (simp_all add: since_def)
qed

theorem single_order_client_informed_witness:
  "\<exists>sv s report. system_reachable demo_env (demo_world demo_printer) sv [new_session All_Orders 0, s] \<and>
     (1, report) \<in> set (sm_reports (sv_manager sv)) \<and> cn_sent (ws_conn s) = [WM_Text (the (demo_printer report))] \<and>
     \<not> is_terminal report"
proof -
  obtain sv s where r: "system_reachable demo_env (demo_world demo_printer) sv [new_session All_Orders 0, s]"
    and s: "ws_kind s = demo_kind" "ws_phase s = Looping order_filter_default"
      "ws_from s = length (sm_updates (sv_manager sv))" "ws_inputs s = []"
    by (rule demo_lost) (rule that; assumption)
  have "positioned (sm_updates (sv_manager sv)) s" using positioned.always [OF r] by fastforce
  then have pos: "ws_pos s = length (sm_updates (sv_manager sv))" using s(3) by (simp add: positioned_def)
  show ?thesis
    using single_order_client_informed [OF r, of 1 5 "[Inr (bare_order 5)]" order_filter_default] r s pos
    by (simp add: demo_world_def demo_printer_def) blast
qed

end
