(* ===== verification/HttpApi.thy ===== *)
theory HttpApi
  imports Service Sessions
begin

text \<open>
  The requests of clients (the router of \<open>service.rs\<close> with the upgrade handlers of
  \<open>ws/handlers.rs\<close>): which method and path are answered by the service itself, and which request
  starts a WebSocket session of \<open>Sessions\<close>.
\<close>

section \<open>Handlers\<close>

text \<open>
  A request, with its path in segments, and the extractors of the HTTP library, which run before a
  handler does: \<open>Path\<close> decodes the parameter of the path, \<open>WebSocketUpgrade\<close> checks the request for
  an upgrade. Each may reject the request with an answer of its own.
\<close>

record request =
  rq_method :: string
  rq_uri :: string
  rq_path :: "string list"

record extractors =
  ex_path :: "string \<Rightarrow> response + string"
  ex_upgrade :: "request \<Rightarrow> response + unit"

text \<open>
  \<open>single_order_ws\<close> and \<open>all_orders_ws\<close>: an answer, or the upgrade to a session. \<open>stream\<close> is
  what the cache will answer to the session's look-up.
\<close>

definition single_order_ws ::
  "(string \<Rightarrow> string + b256) \<Rightarrow> string \<Rightarrow> (ext_error + signed_order) list \<Rightarrow> response + ws_kind" where
  "single_order_ws from_str raw_hash stream =
     (case parse_order_hash from_str raw_hash of
        Inl response \<Rightarrow> Inl response
      | Inr order_hash \<Rightarrow> Inr (Single_Order order_hash stream))"

definition all_orders_ws :: "response + ws_kind" where
  "all_orders_ws = Inr All_Orders"

text \<open>
  \<open>get(handler)\<close>: the handler serves \<open>GET\<close> and \<open>HEAD\<close>; another method on the same path is answered
  with 405. Whatever answers a \<open>HEAD\<close>, its body is left out.
\<close>

definition method_not_allowed :: response where
  "method_not_allowed = \<lparr>rs_status = 405, rs_body = Body_Empty\<rparr>"

definition without_body :: "response + ws_kind \<Rightarrow> response + ws_kind" where
  "without_body answer = map_sum (\<lambda>response. response\<lparr>rs_body := Body_Empty\<rparr>) id answer"

text \<open>
  The endpoint of a matched path, extractors first. The tracker of the service is its own
  (\<open>AppState::tracker\<close>); only the status endpoint uses it.
\<close>

definition call_endpoint ::
  "'w env \<Rightarrow> extractors \<Rightarrow> (string \<Rightarrow> string + b256) \<Rightarrow> (b256 \<Rightarrow> string) \<Rightarrow> nat \<Rightarrow> (ext_error + signed_order) list \<Rightarrow>
     request \<Rightarrow> 'w tracker \<Rightarrow> metrics \<Rightarrow> ((response + ws_kind) \<times> 'w tracker \<times> metrics) option" where
  "call_endpoint env ex from_str show elapsed stream rq t m =
     (case route (rq_path rq) of
        EP_Healthcheck \<Rightarrow> Some (Inl healthcheck, t, m)
      | EP_Order_Status param \<Rightarrow>
          (case ex_path ex param of
             Inl rejection \<Rightarrow> Some (Inl rejection, t, m)
           | Inr raw_hash \<Rightarrow> do {
               (response, t', m') \<leftarrow> order_status_get env from_str show elapsed raw_hash t m;
               Some (Inl response, t', m')
             })
      | EP_Single_Order_Ws param \<Rightarrow>
          (case ex_path ex param of
             Inl rejection \<Rightarrow> Some (Inl rejection, t, m)
           | Inr raw_hash \<Rightarrow>
               (case ex_upgrade ex rq of
                  Inl rejection \<Rightarrow> Some (Inl rejection, t, m)
                | Inr _ \<Rightarrow> Some (single_order_ws from_str raw_hash stream, t, m)))
      | EP_All_Orders_Ws \<Rightarrow>
          (case ex_upgrade ex rq of
             Inl rejection \<Rightarrow> Some (Inl rejection, t, m)
           | Inr _ \<Rightarrow> Some (all_orders_ws, t, m))
      | EP_Not_Found \<Rightarrow> Some (Inl (route_not_found (rq_uri rq)), t, m))"

text \<open>The fallback serves every method on a path that matches no route.\<close>

definition handle_request ::
  "'w env \<Rightarrow> extractors \<Rightarrow> (string \<Rightarrow> string + b256) \<Rightarrow> (b256 \<Rightarrow> string) \<Rightarrow> nat \<Rightarrow> (ext_error + signed_order) list \<Rightarrow>
     request \<Rightarrow> 'w tracker \<Rightarrow> metrics \<Rightarrow> ((response + ws_kind) \<times> 'w tracker \<times> metrics) option" where
  "handle_request env ex from_str show elapsed stream rq t m =
     (if route (rq_path rq) \<noteq> EP_Not_Found \<and> rq_method rq \<notin> {''GET'', ''HEAD''}
      then Some (Inl method_not_allowed, t, m)
      else map_option (\<lambda>(answer, s). (if rq_method rq = ''HEAD'' then without_body answer else answer, s))
        (call_endpoint env ex from_str show elapsed stream rq t m))"

section \<open>Lemmas\<close>

text \<open>Which paths the router sends where.\<close>

lemma route_iff:
  "route path = EP_Healthcheck \<longleftrightarrow> path = [''healthcheck'']"
  "route path = EP_All_Orders_Ws \<longleftrightarrow> path = [''orders'', ''ws'']"
  "route path = EP_Order_Status raw \<longleftrightarrow> path = [''orders'', raw] \<and> raw \<noteq> ''ws'' \<and> raw \<noteq> []"
  "route path = EP_Single_Order_Ws raw \<longleftrightarrow> path = [''orders'', raw, ''ws''] \<and> raw \<noteq> []"
  by (cases path rule: route.cases; auto)+

lemma route_not_found_iff:
  "route path = EP_Not_Found \<longleftrightarrow> path \<noteq> [''healthcheck''] \<and>
     (\<forall>raw. raw \<noteq> [] \<longrightarrow> path \<noteq> [''orders'', raw] \<and> path \<noteq> [''orders'', raw, ''ws''])"
  by (cases path rule: route.cases) auto

lemma single_order_ws_upgrade:
  "single_order_ws from_str raw stream = Inr kind \<longleftrightarrow> (\<exists>h. from_str raw = Inr h \<and> kind = Single_Order h stream)"
  by (auto simp: single_order_ws_def parse_order_hash_def split: sum.split)

lemma without_body_upgrade [simp]: "without_body answer = Inr kind \<longleftrightarrow> answer = Inr kind"
  by (cases answer) (simp_all add: without_body_def)

lemma call_endpoint_upgrade:
  "call_endpoint env ex from_str show elapsed stream rq t m = Some (Inr kind, t', m') \<longleftrightarrow>
     t' = t \<and> m' = m \<and> ex_upgrade ex rq = Inr () \<and>
     (rq_path rq = [''orders'', ''ws''] \<and> kind = All_Orders \<or>
      (\<exists>param raw h. rq_path rq = [''orders'', param, ''ws''] \<and> param \<noteq> [] \<and> ex_path ex param = Inr raw \<and>
         from_str raw = Inr h \<and> kind = Single_Order h stream))"
  by (cases "route (rq_path rq)")
    (auto simp: call_endpoint_def route_iff all_orders_ws_def single_order_ws_upgrade
      split: Option.bind_splits sum.splits)

lemma handle_request_upgrade:
  "(\<exists>t' m'. handle_request env ex from_str show elapsed stream rq t m = Some (Inr kind, t', m')) \<longleftrightarrow>
     rq_method rq \<in> {''GET'', ''HEAD''} \<and>
     (\<exists>t' m'. call_endpoint env ex from_str show elapsed stream rq t m = Some (Inr kind, t', m'))"
proof (cases "route (rq_path rq) \<noteq> EP_Not_Found \<and> rq_method rq \<notin> {''GET'', ''HEAD''}")
  case False
  have "route (rq_path rq) = EP_Not_Found \<Longrightarrow> call_endpoint env ex from_str show elapsed stream rq t m \<noteq> Some (Inr kind, t', m')"
    for t' m' by (simp add: call_endpoint_def)
  with False show ?thesis by (auto simp: handle_request_def)
qed (simp add: handle_request_def)

lemma order_status_malformed:
  "from_str raw = Inl e \<Longrightarrow> order_status_get env from_str show elapsed raw t m =
     Some (\<lparr>rs_status = 400, rs_body = Body_Error (''malformed order hash: '' @ e)\<rparr>, t, m)"
  by (simp add: order_status_get_def parse_order_hash_def)

text \<open>Only a status request with a well-formed hash can change the service's state.\<close>

lemma call_endpoint_same:
  assumes "\<forall>param raw h. rq_path rq = [''orders'', param] \<and> param \<noteq> ''ws'' \<and> ex_path ex param = Inr raw \<longrightarrow> from_str raw \<noteq> Inr h"
  shows "\<exists>answer. call_endpoint env ex from_str show elapsed stream rq t m = Some (answer, t, m)"
proof (cases "route (rq_path rq)")
  case (EP_Order_Status param)
  show ?thesis
  proof (cases "ex_path ex param")
    case (Inr raw)
    then obtain e where "from_str raw = Inl e" using assms EP_Order_Status by (cases "from_str raw") (auto simp: route_iff)
    then show ?thesis using EP_Order_Status Inr by (simp add: call_endpoint_def order_status_malformed)
  qed (simp add: call_endpoint_def EP_Order_Status)
qed (simp_all add: call_endpoint_def split: sum.split)

section \<open>Properties\<close>

text \<open>
  C26: which requests do what. A session is opened exactly by a \<open>GET\<close> (or a \<open>HEAD\<close>, which the
  upgrade extractor never accepts) whose upgrade is accepted, for all orders or for one order with
  a well-formed hash, and is of that kind. A path that no route matches, an empty hash included, is
  answered with 404 and itself whatever the method; another method on a path that a route matches
  with 405. A \<open>GET\<close> of the health check is answered with 200, a malformed hash with 400 by both
  endpoints that take one, and an upgrade that is refused with the refusal; a \<open>GET\<close> of one order's
  status gets what the status endpoint answers, and nothing else touches the service's tracker or
  its metrics.
\<close>

theorem requests_dispatched:
  "((\<exists>t' m'. handle_request env ex from_str show elapsed stream rq t m = Some (Inr kind, t', m')) \<longleftrightarrow>
      rq_method rq \<in> {''GET'', ''HEAD''} \<and> ex_upgrade ex rq = Inr () \<and>
      (rq_path rq = [''orders'', ''ws''] \<and> kind = All_Orders \<or>
       (\<exists>param raw h. rq_path rq = [''orders'', param, ''ws''] \<and> param \<noteq> [] \<and> ex_path ex param = Inr raw \<and>
          from_str raw = Inr h \<and> kind = Single_Order h stream))) \<and>
   (if rq_path rq \<noteq> [''healthcheck''] \<and>
        (\<nexists>param. param \<noteq> [] \<and> (rq_path rq = [''orders'', param] \<or> rq_path rq = [''orders'', param, ''ws'']))
    then handle_request env ex from_str show elapsed stream rq t m = Some (Inl \<lparr>rs_status = 404, rs_body =
        (if rq_method rq = ''HEAD'' then Body_Empty else Body_Error (''No route for '' @ rq_uri rq))\<rparr>, t, m)
    else rq_method rq \<notin> {''GET'', ''HEAD''} \<longrightarrow>
      handle_request env ex from_str show elapsed stream rq t m = Some (Inl \<lparr>rs_status = 405, rs_body = Body_Empty\<rparr>, t, m)) \<and>
   (rq_method rq = ''GET'' \<and> rq_path rq = [''healthcheck''] \<longrightarrow>
      handle_request env ex from_str show elapsed stream rq t m = Some (Inl \<lparr>rs_status = 200, rs_body = Body_Health ''ok''\<rparr>, t, m)) \<and>
   (\<forall>param raw e. rq_method rq = ''GET'' \<and> param \<noteq> [] \<and> ex_path ex param = Inr raw \<and> from_str raw = Inl e \<and>
      (rq_path rq = [''orders'', param] \<and> param \<noteq> ''ws'' \<or>
       rq_path rq = [''orders'', param, ''ws''] \<and> ex_upgrade ex rq = Inr ()) \<longrightarrow>
      handle_request env ex from_str show elapsed stream rq t m =
        Some (Inl \<lparr>rs_status = 400, rs_body = Body_Error (''malformed order hash: '' @ e)\<rparr>, t, m)) \<and>
   (\<forall>rejection. rq_method rq = ''GET'' \<and> rq_path rq = [''orders'', ''ws''] \<and> ex_upgrade ex rq = Inl rejection \<longrightarrow>
      handle_request env ex from_str show elapsed stream rq t m = Some (Inl rejection, t, m)) \<and>
   (\<forall>param raw. rq_method rq = ''GET'' \<and> rq_path rq = [''orders'', param] \<and> param \<notin> {[], ''ws''} \<and> ex_path ex param = Inr raw \<longrightarrow>
      handle_request env ex from_str show elapsed stream rq t m =
        map_option (\<lambda>(response, s). (Inl response, s)) (order_status_get env from_str show elapsed raw t m)) \<and>
   ((\<forall>param raw h. rq_path rq = [''orders'', param] \<and> param \<noteq> ''ws'' \<and> ex_path ex param = Inr raw \<longrightarrow> from_str raw \<noteq> Inr h) \<longrightarrow>
      (\<exists>answer. handle_request env ex from_str show elapsed stream rq t m = Some (answer, t, m)))"
  (is "?opens \<and> ?routes \<and> ?health \<and> ?malformed \<and> ?refused \<and> ?status \<and> ?same")
proof (intro conjI)
  show ?opens unfolding handle_request_upgrade call_endpoint_upgrade by auto
  show ?routes
  proof (cases "route (rq_path rq) = EP_Not_Found")
    case True
    then have "handle_request env ex from_str show elapsed stream rq t m = Some (Inl \<lparr>rs_status = 404, rs_body =
        (if rq_method rq = ''HEAD'' then Body_Empty else Body_Error (''No route for '' @ rq_uri rq))\<rparr>, t, m)"
      by (simp add: handle_request_def call_endpoint_def route_not_found_def without_body_def)
    then show ?thesis using True [unfolded route_not_found_iff] by auto
  next
    case False
    then have "rq_method rq \<notin> {''GET'', ''HEAD''} \<longrightarrow>
      handle_request env ex from_str show elapsed stream rq t m = Some (Inl \<lparr>rs_status = 405, rs_body = Body_Empty\<rparr>, t, m)"
      by (simp add: handle_request_def method_not_allowed_def)
    then show ?thesis using False [unfolded route_not_found_iff] by auto
  qed
  show ?health by (simp add: handle_request_def call_endpoint_def healthcheck_def)
  show ?malformed
    by (cases t) (auto simp: handle_request_def call_endpoint_def order_status_malformed single_order_ws_def
        parse_order_hash_def)
  show ?refused by (simp add: handle_request_def call_endpoint_def)
  show ?status
    by (auto simp: handle_request_def call_endpoint_def map_option_case split: option.split Option.bind_split)
  show ?same
  proof
    assume "\<forall>param raw h. rq_path rq = [''orders'', param] \<and> param \<noteq> ''ws'' \<and> ex_path ex param = Inr raw \<longrightarrow> from_str raw \<noteq> Inr h"
    from call_endpoint_same [OF this, of env "show" elapsed stream t m] show
      "\<exists>answer. handle_request env ex from_str show elapsed stream rq t m = Some (answer, t, m)"
      by (cases t) (auto simp: handle_request_def)
  qed
qed

text \<open>Extractors that take a parameter as it is, and upgrade every \<open>GET\<close>.\<close>

definition demo_extractors :: extractors where
  "demo_extractors = \<lparr>ex_path = Inr, ex_upgrade = (\<lambda>rq. if rq_method rq = ''GET'' then Inr ()
     else Inl \<lparr>rs_status = 405, rs_body = Body_Text ''Request method must be GET''\<rparr>)\<rparr>"

theorem requests_dispatched_witness:
  "(\<exists>t' m'. handle_request demo_env demo_extractors (\<lambda>_. Inr 5) (\<lambda>_. ''0x5'') 3 []
       \<lparr>rq_method = ''GET'', rq_uri = ''/orders/0x5/ws'', rq_path = [''orders'', ''0x5'', ''ws'']\<rparr>
       (tracker_new demo_env []) metrics_new = Some (Inr (Single_Order 5 []), t', m')) \<and>
   handle_request demo_env demo_extractors (\<lambda>_. Inr 5) (\<lambda>_. ''0x5'') 3 []
       \<lparr>rq_method = ''GET'', rq_uri = ''/orders/'', rq_path = [''orders'', []]\<rparr>
       (tracker_new demo_env []) metrics_new =
     Some (Inl \<lparr>rs_status = 404, rs_body = Body_Error (''No route for /orders/'')\<rparr>, tracker_new demo_env [], metrics_new)"
proof -
  let ?rq = "\<lparr>rq_method = ''GET'', rq_uri = ''/orders/0x5/ws'', rq_path = [''orders'', ''0x5'', ''ws'']\<rparr>"
  let ?rq' = "\<lparr>rq_method = ''GET'', rq_uri = ''/orders/'', rq_path = [''orders'', []]\<rparr>"
  note d = requests_dispatched [of demo_env demo_extractors "\<lambda>_. Inr 5" "\<lambda>_. ''0x5''" 3 "[]" _ "tracker_new demo_env []" metrics_new]
  show ?thesis
    using d [of ?rq "Single_Order 5 []", THEN conjunct1] d [of ?rq' All_Orders, THEN conjunct2, THEN conjunct1]
    by (simp add: demo_extractors_def)
qed

end
