(* ===== verification/UnitTests.thy ===== *)
theory UnitTests
  imports Json FillSearch
begin

text \<open>
  The unit tests that the library's files carry (\<open>mod tests\<close> of \<open>fill_search.rs\<close>, \<open>amount.rs\<close>,
  \<open>timestamp.rs\<close>, \<open>pretty_duration.rs\<close>, \<open>order_diagnostics.rs\<close> and \<open>order_status.rs\<close>), run on
  the model. A test that fails panics, so a test is a computation that returns or not; JSON text
  is its tree.
\<close>

section \<open>Assertions\<close>

definition assert :: "bool \<Rightarrow> unit option" where
  "assert b = (if b then Some () else None)"

lemma assert_Some [simp]: "assert b = Some u \<longleftrightarrow> b"
  by (simp add: assert_def)

text \<open>Most encoders do not panic; as computations that may, they are \<open>total\<close>.\<close>

abbreviation total :: "('a \<Rightarrow> json) \<Rightarrow> 'a \<Rightarrow> json option" where
  "total encode \<equiv> \<lambda>x. Some (encode x)"

definition assert_json_roundtrip :: "('a \<Rightarrow> json option) \<Rightarrow> (json \<Rightarrow> 'a option) \<Rightarrow> 'a \<Rightarrow> unit option" where
  "assert_json_roundtrip encode decode val = do {
     json \<leftarrow> encode val;
     deserialized \<leftarrow> decode json;
     json2 \<leftarrow> encode deserialized;
     assert (json = json2)
   }"

text \<open>The tests of the wrapper types also compare the values.\<close>

definition assert_value_roundtrip :: "('a \<Rightarrow> json option) \<Rightarrow> (json \<Rightarrow> 'a option) \<Rightarrow> 'a \<Rightarrow> unit option" where
  "assert_value_roundtrip encode decode val = do {
     json \<leftarrow> encode val;
     deserialized \<leftarrow> decode json;
     assert (val = deserialized)
   }"

context partial_codec
begin

lemma json_passes: "ok x \<Longrightarrow> assert_json_roundtrip encode decode x = Some ()"
  using encodes [of x] by (auto simp: assert_json_roundtrip_def)

lemma value_passes: "ok x \<Longrightarrow> assert_value_roundtrip encode decode x = Some ()"
  using encodes [of x] by (auto simp: assert_value_roundtrip_def)

end

section \<open>\<open>fill_search.rs\<close>\<close>

text \<open>\<open>Address::repeat_byte\<close> belongs to \<open>alloy\<close>: it is a parameter.\<close>

definition test_output :: "(byte \<Rightarrow> address) \<Rightarrow> byte \<Rightarrow> u64 \<Rightarrow> byte \<Rightarrow> u32 \<Rightarrow> ru_output" where
  "test_output repeat_byte token amount recipient chain_id = \<lparr>out_token = repeat_byte token, out_amount = ucast amount,
     out_recipient = repeat_byte recipient, out_chain_id = chain_id\<rparr>"

definition exact_match_is_superset :: "(byte \<Rightarrow> address) \<Rightarrow> unit option" where
  "exact_match_is_superset repeat_byte =
     (let output = test_output repeat_byte; fill = [output 1 100 2 1, output 1 100 2 1]; order = fill
      in assert (fill_outputs_are_superset_of_order_outputs fill order))"

definition extra_fill_outputs_is_superset :: "(byte \<Rightarrow> address) \<Rightarrow> unit option" where
  "extra_fill_outputs_is_superset repeat_byte =
     (let output = test_output repeat_byte; fill = [output 1 100 2 1, output 3 200 4 2]; order = [output 1 100 2 1]
      in assert (fill_outputs_are_superset_of_order_outputs fill order))"

definition missing_fill_output_is_not_superset :: "(byte \<Rightarrow> address) \<Rightarrow> unit option" where
  "missing_fill_output_is_not_superset repeat_byte =
     (let output = test_output repeat_byte; fill = [output 1 100 2 1]; order = [output 1 100 2 1, output 3 200 4 2]
      in assert (\<not> fill_outputs_are_superset_of_order_outputs fill order))"

definition different_amount_is_not_superset :: "(byte \<Rightarrow> address) \<Rightarrow> unit option" where
  "different_amount_is_not_superset repeat_byte =
     (let output = test_output repeat_byte; fill = [output 1 99 2 1]; order = [output 1 100 2 1]
      in assert (\<not> fill_outputs_are_superset_of_order_outputs fill order))"

definition duplicate_order_output_not_satisfied_by_single_fill :: "(byte \<Rightarrow> address) \<Rightarrow> unit option" where
  "duplicate_order_output_not_satisfied_by_single_fill repeat_byte =
     (let output = test_output repeat_byte; fill = [output 1 100 2 1]; order = [output 1 100 2 1, output 1 100 2 1]
      in assert (\<not> fill_outputs_are_superset_of_order_outputs fill order))"

definition duplicate_fills_with_single_order_output_is_superset :: "(byte \<Rightarrow> address) \<Rightarrow> unit option" where
  "duplicate_fills_with_single_order_output_is_superset repeat_byte =
     (let output = test_output repeat_byte; fill = [output 1 100 2 1, output 1 100 2 1]; order = [output 1 100 2 1]
      in assert (fill_outputs_are_superset_of_order_outputs fill order))"

definition both_empty_is_superset :: "unit option" where
  "both_empty_is_superset = assert (fill_outputs_are_superset_of_order_outputs [] [])"

definition empty_fill_with_order_outputs_is_not_superset :: "(byte \<Rightarrow> address) \<Rightarrow> unit option" where
  "empty_fill_with_order_outputs_is_not_superset repeat_byte =
     (let output = test_output repeat_byte; order = [output 1 100 2 1]
      in assert (\<not> fill_outputs_are_superset_of_order_outputs [] order))"

definition empty_order_outputs_with_fill_is_superset :: "(byte \<Rightarrow> address) \<Rightarrow> unit option" where
  "empty_order_outputs_with_fill_is_superset repeat_byte =
     (let output = test_output repeat_byte; fill = [output 1 100 2 1]
      in assert (fill_outputs_are_superset_of_order_outputs fill []))"

definition fill_search_tests :: "(byte \<Rightarrow> address) \<Rightarrow> unit option list" where
  "fill_search_tests repeat_byte = [exact_match_is_superset repeat_byte, extra_fill_outputs_is_superset repeat_byte,
     missing_fill_output_is_not_superset repeat_byte,
     different_amount_is_not_superset repeat_byte, duplicate_order_output_not_satisfied_by_single_fill repeat_byte,
     duplicate_fills_with_single_order_output_is_superset repeat_byte, both_empty_is_superset,
     empty_fill_with_order_outputs_is_not_superset repeat_byte, empty_order_outputs_with_fill_is_superset repeat_byte]"

lemmas fill_search_test_defs = exact_match_is_superset_def extra_fill_outputs_is_superset_def
  missing_fill_output_is_not_superset_def different_amount_is_not_superset_def
  duplicate_order_output_not_satisfied_by_single_fill_def duplicate_fills_with_single_order_output_is_superset_def
  both_empty_is_superset_def empty_fill_with_order_outputs_is_not_superset_def empty_order_outputs_with_fill_is_superset_def

lemma fill_search_tests_pass: "set (fill_search_tests repeat_byte) \<subseteq> {Some ()}"
  by (simp add: fill_search_tests_def fill_search_test_defs assert_def Let_def
      fill_outputs_are_superset_of_order_outputs_def test_output_def same_output_def swap_remove_def)

section \<open>\<open>amount.rs\<close>, \<open>timestamp.rs\<close>\<close>

definition amount_roundtrip :: "printers \<Rightarrow> unit option" where
  "amount_roundtrip P = do {
     let amount = Amount 123456789;
     assert_value_roundtrip (total (amount_to_json P)) (amount_of_json P) amount;
     assert_json_roundtrip (total (amount_to_json P)) (amount_of_json P) amount
   }"

definition amount_roundtrip_zero :: "printers \<Rightarrow> unit option" where
  "amount_roundtrip_zero P = assert_value_roundtrip (total (amount_to_json P)) (amount_of_json P) (Amount 0)"

definition amount_roundtrip_max :: "printers \<Rightarrow> unit option" where
  "amount_roundtrip_max P = assert_value_roundtrip (total (amount_to_json P)) (amount_of_json P) (Amount (- 1))"

definition timestamp_roundtrip :: "printers \<Rightarrow> unit option" where
  "timestamp_roundtrip P = do {
     let ts = Timestamp 1700000000;
     assert_value_roundtrip (total (timestamp_to_json P)) timestamp_of_json ts;
     assert_json_roundtrip (total (timestamp_to_json P)) timestamp_of_json ts
   }"

definition timestamp_roundtrip_zero :: "printers \<Rightarrow> unit option" where
  "timestamp_roundtrip_zero P = assert_value_roundtrip (total (timestamp_to_json P)) timestamp_of_json (Timestamp 0)"

section \<open>\<open>pretty_duration.rs\<close>\<close>

definition duration_from_millis :: "u64 \<Rightarrow> nat" where
  "duration_from_millis ms = unat ms * 10 ^ 6"

definition duration_roundtrip_seconds :: "printers \<Rightarrow> 'w env \<Rightarrow> unit option" where
  "duration_roundtrip_seconds P env = do {
     duration \<leftarrow> pretty_duration_new env (duration_from_secs 30);
     assert_value_roundtrip (pretty_duration_to_json P) (pretty_duration_of_json P (e_from_nanos env)) duration;
     assert_json_roundtrip (pretty_duration_to_json P) (pretty_duration_of_json P (e_from_nanos env)) duration
   }"

definition duration_roundtrip_millis :: "printers \<Rightarrow> 'w env \<Rightarrow> unit option" where
  "duration_roundtrip_millis P env = do {
     duration \<leftarrow> pretty_duration_new env (duration_from_millis 1500);
     assert_value_roundtrip (pretty_duration_to_json P) (pretty_duration_of_json P (e_from_nanos env)) duration;
     assert_json_roundtrip (pretty_duration_to_json P) (pretty_duration_of_json P (e_from_nanos env)) duration
   }"

definition duration_roundtrip_zero :: "printers \<Rightarrow> 'w env \<Rightarrow> unit option" where
  "duration_roundtrip_zero P env = do {
     duration \<leftarrow> pretty_duration_new env 0;
     assert_value_roundtrip (pretty_duration_to_json P) (pretty_duration_of_json P (e_from_nanos env)) duration
   }"

definition negative_roundtrip_is_stable :: "printers \<Rightarrow> 'w env \<Rightarrow> unit option" where
  "negative_roundtrip_is_stable P env = do {
     let json = J_Str ''-PT5m'';
     deserialized \<leftarrow> pretty_duration_of_json P (e_from_nanos env) json;
     reserialized \<leftarrow> pretty_duration_to_json P deserialized;
     deserialized2 \<leftarrow> pretty_duration_of_json P (e_from_nanos env) reserialized;
     assert (deserialized = deserialized2)
   }"

section \<open>\<open>order_diagnostics.rs\<close>\<close>

definition sample_deadline_check :: "'w env \<Rightarrow> u64 \<Rightarrow> u64 \<Rightarrow> deadline_check option" where
  "sample_deadline_check env secs deadline = do {
     expires_in \<leftarrow> pretty_duration_new env (duration_from_secs secs);
     Some \<lparr>dc_expires_in = expires_in, dc_deadline = Timestamp deadline, dc_checked_at = Timestamp 1700000000\<rparr>
   }"

definition sample_allowance_check :: allowance_check where
  "sample_allowance_check = \<lparr>ac_sufficient = True, ac_token_contract = 0, ac_token_symbol = ''WETH'',
     ac_allowance = Amount 1000000, ac_required = Amount 500000\<rparr>"

definition sample_diagnostics :: "'w env \<Rightarrow> balance_checks \<Rightarrow> order_diagnostics option" where
  "sample_diagnostics env balance_checks = do {
     deadline_check \<leftarrow> sample_deadline_check env 30 1700000030;
     Some \<lparr>od_is_in_cache = MB_True, od_deadline_check = deadline_check,
       od_allowance_checks = \<lparr>acs_all_sufficient = MB_True, acs_checked_at = Timestamp 1700000000,
         acs_checks = [sample_allowance_check]\<rparr>,
       od_balance_checks = balance_checks\<rparr>
   }"

definition diagnostics_sample :: "'w env \<Rightarrow> order_diagnostics option" where
  "diagnostics_sample env = sample_diagnostics env
     \<lparr>bcs_all_sufficient = MB_False, bcs_checked_at = Timestamp 1700000000,
      bcs_checks = [\<lparr>bc_sufficient = False, bc_token_contract = 0, bc_token_symbol = ''WETH'',
        bc_balance = Amount 100000, bc_required = Amount 500000\<rparr>]\<rparr>"

definition maybe_bool_roundtrip :: "unit option" where
  "maybe_bool_roundtrip =
     for_each (\<lambda>val _. assert_json_roundtrip (total maybe_bool_to_json) maybe_bool_of_json val) [MB_True, MB_False, MB_Unknown] ()"

definition deadline_check_roundtrip :: "printers \<Rightarrow> 'w env \<Rightarrow> unit option" where
  "deadline_check_roundtrip P env = do {
     check \<leftarrow> sample_deadline_check env 90 1700000090;
     assert_json_roundtrip (deadline_check_to_json P) (deadline_check_of_json P (e_from_nanos env)) check
   }"

definition allowance_check_roundtrip :: "printers \<Rightarrow> unit option" where
  "allowance_check_roundtrip P =
     assert_json_roundtrip (total (allowance_check_to_json P)) (allowance_check_of_json P) sample_allowance_check"

definition allowance_checks_roundtrip :: "printers \<Rightarrow> unit option" where
  "allowance_checks_roundtrip P = assert_json_roundtrip (total (allowance_checks_to_json P)) (allowance_checks_of_json P)
     \<lparr>acs_all_sufficient = MB_Unknown, acs_checked_at = Timestamp 1700000000, acs_checks = []\<rparr>"

definition balance_check_roundtrip :: "printers \<Rightarrow> unit option" where
  "balance_check_roundtrip P = assert_json_roundtrip (total (balance_check_to_json P)) (balance_check_of_json P)
     \<lparr>bc_sufficient = False, bc_token_contract = 0, bc_token_symbol = ''USDC'', bc_balance = Amount 100,
      bc_required = Amount 1000\<rparr>"

definition balance_checks_roundtrip :: "printers \<Rightarrow> unit option" where
  "balance_checks_roundtrip P = assert_json_roundtrip (total (balance_checks_to_json P)) (balance_checks_of_json P)
     \<lparr>bcs_all_sufficient = MB_True, bcs_checked_at = Timestamp 1700000000,
      bcs_checks = [\<lparr>bc_sufficient = True, bc_token_contract = 0, bc_token_symbol = ''WETH'',
        bc_balance = Amount 999, bc_required = Amount 100\<rparr>]\<rparr>"

text \<open>Diagnostics by themselves are an object of their fields.\<close>

definition diagnostics_to_json :: "printers \<Rightarrow> order_diagnostics \<Rightarrow> json option" where
  "diagnostics_to_json P d = map_option J_Obj (diagnostics_to_fields P d)"

definition diagnostics_of_json :: "printers \<Rightarrow> (int \<Rightarrow> int option) \<Rightarrow> json \<Rightarrow> order_diagnostics option" where
  "diagnostics_of_json P from_nanos j = Option.bind (object j) (diagnostics_of_fields P from_nanos)"

interpretation diagnostics: partial_codec "diagnostics_to_json P" "diagnostics_of_json P from_nanos"
  "\<lambda>d. printers_ok P from_nanos \<and> friendly_duration (dc_expires_in (od_deadline_check d))" for P from_nanos
proof unfold_locales
  fix d :: order_diagnostics
  assume ok: "printers_ok P from_nanos \<and> friendly_duration (dc_expires_in (od_deadline_check d))"
  show "\<exists>j. diagnostics_to_json P d = Some j \<and> diagnostics_of_json P from_nanos j = Some d"
  proof (rule diagnostics_round [OF conjunct1 [OF ok] conjunct2 [OF ok]])
    fix j
    assume "diagnostics_to_fields P d = Some (diagnostics_fields P d j)"
      and "\<And>pre. lookups ''is_in_cache'' pre = [] \<Longrightarrow> lookups ''deadline_check'' pre = [] \<Longrightarrow>
        lookups ''allowance_checks'' pre = [] \<Longrightarrow> lookups ''balance_checks'' pre = [] \<Longrightarrow>
        diagnostics_of_fields P from_nanos (pre @ diagnostics_fields P d j) = Some d"
    from this(1) this(2) [of "[]"] show ?thesis by (simp add: diagnostics_to_json_def diagnostics_of_json_def)
  qed
qed

definition order_diagnostics_roundtrip :: "printers \<Rightarrow> 'w env \<Rightarrow> unit option" where
  "order_diagnostics_roundtrip P env = do {
     diagnostics \<leftarrow> diagnostics_sample env;
     assert_json_roundtrip (diagnostics_to_json P) (diagnostics_of_json P (e_from_nanos env)) diagnostics
   }"

section \<open>\<open>order_status.rs\<close>\<close>

definition status_sample :: "'w env \<Rightarrow> order_diagnostics option" where
  "status_sample env = sample_diagnostics env
     \<lparr>bcs_all_sufficient = MB_True, bcs_checked_at = Timestamp 1700000000, bcs_checks = []\<rparr>"

definition sample_fill_output :: "chain \<Rightarrow> fill_output" where
  "sample_fill_output c = \<lparr>fo_token_contract = 0, fo_token_symbol = ''WETH'', fo_amount = Amount 1000000,
     fo_recipient = 0, fo_chain = c\<rparr>"

definition chain_roundtrip :: "unit option" where
  "chain_roundtrip = for_each (\<lambda>chain _. assert_json_roundtrip (total chain_to_json) chain_of_json chain) [Rollup, Host] ()"

definition chain_transaction_roundtrip :: "printers \<Rightarrow> unit option" where
  "chain_transaction_roundtrip P = assert_json_roundtrip (total (chain_transaction_to_json P)) (chain_transaction_of_json P)
     \<lparr>ct_chain = Rollup, ct_tx_hash = 0\<rparr>"

definition fill_output_roundtrip :: "printers \<Rightarrow> unit option" where
  "fill_output_roundtrip P =
     assert_json_roundtrip (total (fill_output_to_json P)) (fill_output_of_json P) (sample_fill_output Host)"

definition fill_info_full_roundtrip :: "printers \<Rightarrow> unit option" where
  "fill_info_full_roundtrip P = assert_json_roundtrip (total (fill_info_to_json P)) (fill_info_of_json P)
     \<lparr>fi_block_number = 42, fi_rollup_initiation_tx = Some 0, fi_fill_tx = Some \<lparr>ct_chain = Rollup, ct_tx_hash = 0\<rparr>,
      fi_outputs = [sample_fill_output Rollup]\<rparr>"

definition fill_info_minimal_roundtrip :: "printers \<Rightarrow> unit option" where
  "fill_info_minimal_roundtrip P = assert_json_roundtrip (total (fill_info_to_json P)) (fill_info_of_json P)
     \<lparr>fi_block_number = 1, fi_rollup_initiation_tx = None, fi_fill_tx = None, fi_outputs = []\<rparr>"

definition order_status_pending_roundtrip :: "printers \<Rightarrow> 'w env \<Rightarrow> unit option" where
  "order_status_pending_roundtrip P env = do {
     diagnostics \<leftarrow> status_sample env;
     assert_json_roundtrip (order_status_to_json P) (order_status_of_json P (e_from_nanos env)) (Pending 0 0 diagnostics)
   }"

definition order_status_filled_roundtrip :: "printers \<Rightarrow> 'w env \<Rightarrow> unit option" where
  "order_status_filled_roundtrip P env =
     assert_json_roundtrip (order_status_to_json P) (order_status_of_json P (e_from_nanos env))
       (Filled 0 0 (Some \<lparr>fi_block_number = 99, fi_rollup_initiation_tx = Some 0,
          fi_fill_tx = Some \<lparr>ct_chain = Host, ct_tx_hash = 0\<rparr>, fi_outputs = []\<rparr>))"

definition order_status_filled_no_info_roundtrip :: "printers \<Rightarrow> 'w env \<Rightarrow> unit option" where
  "order_status_filled_no_info_roundtrip P env =
     assert_json_roundtrip (order_status_to_json P) (order_status_of_json P (e_from_nanos env)) (Filled 0 0 None)"

definition order_status_expired_roundtrip :: "printers \<Rightarrow> 'w env \<Rightarrow> unit option" where
  "order_status_expired_roundtrip P env = do {
     diagnostics \<leftarrow> status_sample env;
     assert_json_roundtrip (order_status_to_json P) (order_status_of_json P (e_from_nanos env)) (Expired 0 0 diagnostics)
   }"

section \<open>All of them\<close>

text \<open>
  What the last test of \<open>pretty_duration.rs\<close> asks of \<open>jiff\<close> beyond \<open>printers_ok\<close>: \<open>PT5m\<close> are
  five minutes, and a negative duration also prints, without a leading sign, as text that
  reads back (\<open>5m ago\<close>).
\<close>

definition signed_printers :: "printers \<Rightarrow> (int \<Rightarrow> int option) \<Rightarrow> bool" where
  "signed_printers P from_nanos \<longleftrightarrow>
     (\<exists>span. r_span P ''PT5m'' = Some span \<and> span_nanos span = 300 * 10 ^ 9) \<and>
     (\<forall>d. friendly_duration d \<longrightarrow> round_millis P (- pd_nanos d) = Some (- pd_nanos d) \<and>
        from_nanos (- pd_nanos d) = Some (- pd_nanos d) \<and>
        (\<exists>c rest span. p_friendly P (- pd_nanos d) = c # rest \<and> c \<noteq> CHR ''-'' \<and>
          r_span P (c # rest) = Some span \<and> span_nanos span = - pd_nanos d))"

definition wire_tests :: "printers \<Rightarrow> 'w env \<Rightarrow> unit option list" where
  "wire_tests P env = [amount_roundtrip P, amount_roundtrip_zero P, amount_roundtrip_max P,
     timestamp_roundtrip P, timestamp_roundtrip_zero P,
     duration_roundtrip_seconds P env, duration_roundtrip_millis P env, duration_roundtrip_zero P env,
     negative_roundtrip_is_stable P env,
     maybe_bool_roundtrip, deadline_check_roundtrip P env, allowance_check_roundtrip P, allowance_checks_roundtrip P,
     balance_check_roundtrip P, balance_checks_roundtrip P, order_diagnostics_roundtrip P env,
     chain_roundtrip, chain_transaction_roundtrip P, fill_output_roundtrip P, fill_info_full_roundtrip P,
     fill_info_minimal_roundtrip P, order_status_pending_roundtrip P env, order_status_filled_roundtrip P env,
     order_status_filled_no_info_roundtrip P env, order_status_expired_roundtrip P env]"

lemma wrapper_tests_pass:
  assumes "printers_ok P from_nanos"
  shows "set [amount_roundtrip P, amount_roundtrip_zero P, amount_roundtrip_max P,
     timestamp_roundtrip P, timestamp_roundtrip_zero P] \<subseteq> {Some ()}"
  using assms
  by (simp add: amount_roundtrip_def amount_roundtrip_zero_def amount_roundtrip_max_def timestamp_roundtrip_def
      timestamp_roundtrip_zero_def amt.total.json_passes amt.total.value_passes ts.total.json_passes ts.total.value_passes)

text \<open>Durations of less than a day are admissible everywhere.\<close>

lemma short_duration:
  assumes "printers_ok P (e_from_nanos env)" "n mod 10 ^ 6 = 0" "n \<le> 86400 * 10 ^ 9"
  shows "pretty_duration_new env n = Some (PrettyDuration (int n))" "friendly_duration (PrettyDuration (int n))"
proof -
  have "int n mod 10 ^ 6 = int (n mod 10 ^ 6)" by (simp add: of_nat_mod)
  then have "int n mod 10 ^ 6 = 0" using assms(2) by simp
  then show f: "friendly_duration (PrettyDuration (int n))"
    using assms(3) by (simp add: friendly_duration_def friendly_limit_def)
  show "pretty_duration_new env n = Some (PrettyDuration (int n))"
    using assms(1) f by (fastforce simp: printers_ok_def pretty_duration_new_def)
qed

lemma from_secs_short: "unat s \<le> 86400 \<Longrightarrow> duration_from_secs s mod 10 ^ 6 = 0 \<and> duration_from_secs s \<le> 86400 * 10 ^ 9"
  using mod_mult_self2_is_0 [of "unat s * 1000" "10 ^ 6"] by (simp add: duration_from_secs_def)

lemma duration_tests_pass:
  assumes ok: "printers_ok P (e_from_nanos env)" and signed: "signed_printers P (e_from_nanos env)"
  shows "set [duration_roundtrip_seconds P env, duration_roundtrip_millis P env, duration_roundtrip_zero P env,
     negative_roundtrip_is_stable P env] \<subseteq> {Some ()}"
proof -
  have passes: "assert_value_roundtrip (pretty_duration_to_json P) (pretty_duration_of_json P (e_from_nanos env)) (PrettyDuration (int n)) = Some ()"
    "assert_json_roundtrip (pretty_duration_to_json P) (pretty_duration_of_json P (e_from_nanos env)) (PrettyDuration (int n)) = Some ()"
    if "n mod 10 ^ 6 = 0" "n \<le> 86400 * 10 ^ 9" for n
    using dur.value_passes dur.json_passes ok short_duration(2) [OF ok that] by blast+
  have f: "friendly_duration (PrettyDuration (300 * 10 ^ 9))" by (simp add: friendly_duration_def friendly_limit_def)
  have "negative_roundtrip_is_stable P env = Some ()"
    using signed [unfolded signed_printers_def] f
    by (fastforce simp: negative_roundtrip_is_stable_def pretty_duration_of_json_def pretty_duration_to_json_def
        pretty_duration_display_def Let_def)
  moreover have "duration_roundtrip_millis P env = Some ()"
    using short_duration(1) [OF ok, of "duration_from_millis 1500"] passes [of "duration_from_millis 1500"]
    by (simp add: duration_roundtrip_millis_def duration_from_millis_def)
  moreover have "duration_roundtrip_seconds P env = Some ()"
    using short_duration(1) [OF ok, of "duration_from_secs 30"] passes [of "duration_from_secs 30"] from_secs_short [of 30]
    by (simp add: duration_roundtrip_seconds_def)
  moreover have "duration_roundtrip_zero P env = Some ()"
    using short_duration(1) [OF ok, of 0] passes [of 0] by (simp add: duration_roundtrip_zero_def)
  ultimately show ?thesis by simp
qed

lemma sample_deadline:
  assumes "printers_ok P (e_from_nanos env)" "unat secs \<le> 86400"
  obtains check where "sample_deadline_check env secs deadline = Some check" "friendly_duration (dc_expires_in check)"
proof
  note d = short_duration [OF assms(1), of "duration_from_secs secs"]
  let ?d = "PrettyDuration (int (duration_from_secs secs))"
  show "sample_deadline_check env secs deadline =
      Some \<lparr>dc_expires_in = ?d, dc_deadline = Timestamp deadline, dc_checked_at = Timestamp 1700000000\<rparr>"
    using d(1) from_secs_short [OF assms(2)] by (simp add: sample_deadline_check_def)
  show "friendly_duration (dc_expires_in
      \<lparr>dc_expires_in = ?d, dc_deadline = Timestamp deadline, dc_checked_at = Timestamp 1700000000\<rparr>)"
    using d(2) from_secs_short [OF assms(2)] by simp
qed

lemma sample_diagnostics:
  assumes "printers_ok P (e_from_nanos env)"
  obtains d where "sample_diagnostics env balance_checks = Some d" "friendly_duration (dc_expires_in (od_deadline_check d))"
  by (rule sample_deadline [OF assms, of 30 1700000030]) (auto simp: sample_diagnostics_def intro: that)

lemma diagnostics_tests_pass:
  assumes ok: "printers_ok P (e_from_nanos env)"
  shows "set [maybe_bool_roundtrip, deadline_check_roundtrip P env, allowance_check_roundtrip P, allowance_checks_roundtrip P,
     balance_check_roundtrip P, balance_checks_roundtrip P, order_diagnostics_roundtrip P env] \<subseteq> {Some ()}"
proof -
  obtain check where "sample_deadline_check env 90 1700000090 = Some check" "friendly_duration (dc_expires_in check)"
    by (rule sample_deadline [OF ok, of 90 1700000090]) simp_all
  then have "deadline_check_roundtrip P env = Some ()"
    using ok by (simp add: deadline_check_roundtrip_def dlc.json_passes)
  moreover obtain d where "diagnostics_sample env = Some d" "friendly_duration (dc_expires_in (od_deadline_check d))"
    unfolding diagnostics_sample_def by (rule sample_diagnostics [OF ok])
  then have "order_diagnostics_roundtrip P env = Some ()"
    using ok by (simp add: order_diagnostics_roundtrip_def diagnostics.json_passes)
  ultimately show ?thesis
    by (simp add: maybe_bool_roundtrip_def mb.total.json_passes allowance_check_roundtrip_def alc.total.json_passes [OF ok]
        allowance_checks_roundtrip_def alcs.total.json_passes [OF ok] balance_check_roundtrip_def blc.total.json_passes [OF ok]
        balance_checks_roundtrip_def blcs.total.json_passes [OF ok])
qed

lemma status_tests_pass:
  assumes ok: "printers_ok P (e_from_nanos env)"
  shows "set [chain_roundtrip, chain_transaction_roundtrip P, fill_output_roundtrip P, fill_info_full_roundtrip P,
     fill_info_minimal_roundtrip P, order_status_pending_roundtrip P env, order_status_filled_roundtrip P env,
     order_status_filled_no_info_roundtrip P env, order_status_expired_roundtrip P env] \<subseteq> {Some ()}"
proof -
  obtain d where d: "status_sample env = Some d" "friendly_duration (dc_expires_in (od_deadline_check d))"
    unfolding status_sample_def by (rule sample_diagnostics [OF ok])
  have st: "assert_json_roundtrip (order_status_to_json P) (order_status_of_json P (e_from_nanos env)) st = Some ()"
    if "status_duration_ok st" for st using ost.json_passes ok that by blast
  have "set [order_status_pending_roundtrip P env, order_status_filled_roundtrip P env,
      order_status_filled_no_info_roundtrip P env, order_status_expired_roundtrip P env] \<subseteq> {Some ()}"
    using d by (simp add: order_status_pending_roundtrip_def order_status_filled_roundtrip_def
        order_status_filled_no_info_roundtrip_def order_status_expired_roundtrip_def st status_duration_ok_def)
  then show ?thesis
    by (simp add: chain_roundtrip_def chn.total.json_passes chain_transaction_roundtrip_def ctx.total.json_passes [OF ok]
        fill_output_roundtrip_def fo.total.json_passes [OF ok] fill_info_full_roundtrip_def fi.total.json_passes [OF ok]
        fill_info_minimal_roundtrip_def)
qed

text \<open>
  The model passes the library's own unit tests. Each of the nine tests of the output
  comparison and each of the twenty-five round trips over JSON returns, whatever the test
  addresses and the printers and parsers of \<open>alloy\<close> and \<open>jiff\<close> that invert each other, on
  positive and on negative durations.
\<close>

theorem unit_tests_pass:
  assumes "printers_ok P (e_from_nanos env)" "signed_printers P (e_from_nanos env)"
  shows "set (fill_search_tests repeat_byte @ wire_tests P env) \<subseteq> {Some ()}"
  using fill_search_tests_pass wrapper_tests_pass [OF assms(1)] duration_tests_pass [OF assms]
    diagnostics_tests_pass [OF assms(1)] status_tests_pass [OF assms(1)]
  by (simp add: wire_tests_def)

text \<open>The unary printers of \<open>Json\<close>, with a letter in front of a negative duration.\<close>

definition signed_demo_printers :: printers where
  "signed_demo_printers = demo_printers\<lparr>p_friendly := (\<lambda>n. (if n < 0 then CHR ''n'' else CHR ''+'') # replicate (nat \<bar>n\<bar>) CHR ''1''),
     r_span := (\<lambda>s. Some \<lparr>sp_hours = 0, sp_minutes = (if s = ''PT5m'' then 5 else 0), sp_seconds = 0, sp_milliseconds = 0,
       sp_microseconds = 0, sp_nanoseconds = (if s = ''PT5m'' then 0 else if hd s = CHR ''n'' then 1 - int (length s)
         else int (length s) - 1)\<rparr>)\<rparr>"

lemma signed_demo_printers_ok:
  "printers_ok signed_demo_printers (e_from_nanos demo_env)" "signed_printers signed_demo_printers (e_from_nanos demo_env)"
  by (auto simp: printers_ok_def signed_printers_def signed_demo_printers_def demo_printers_def demo_env_def unary_def
      friendly_duration_def friendly_limit_def span_nanos_def div_less_iff_less_mult)

theorem unit_tests_pass_witness:
  "length (wire_tests signed_demo_printers demo_env) = 25 \<and>
   set (fill_search_tests (\<lambda>b. ucast b) @ wire_tests signed_demo_printers demo_env) \<subseteq> {Some ()}"
  by (intro conjI unit_tests_pass [OF signed_demo_printers_ok]) (simp add: wire_tests_def)

end
