(* ===== verification/Spec2Isabelle.thy ===== *)
theory Spec2Isabelle
  imports Program Service TuiView Clients SingleOrder HttpApi ErrorDisplay UnitTests
begin

text \<open>
  A model of the Signet order tracker (\<open>src/crates/tracker\<close>, the library;
  \<open>src/crates/tracker-server\<close>, the server with its example terminal client) and what is
  proved of it.

  The program. An order is signed off chain, waits in a transaction cache, and is settled by a
  fill on one of two chains, the rollup or the host, before its deadline. The library answers
  what became of an order: it asks whether the Permit2 nonce is consumed, compares the deadline
  with the clock, and looks for the fill in the logs of the chains (\<open>order_tracker.rs\<close>,
  \<open>fill_search.rs\<close>). The server runs five tasks joined by channels and a cancellation token
  (\<open>run\<close> in \<open>lib.rs\<close>): the block watcher publishes the tips of both chains, the event
  watcher forwards the rollup's order events, order discovery polls the cache, the state manager
  owns the tracked orders and broadcasts every status it computes, and the HTTP server answers
  queries and hands the broadcasts to WebSocket sessions.

  The theories, in the order in which they build on each other, with what they model:
  \<^item> Prelude: vectors, iterators, loops that may panic (\<open>for_each\<close>) and the interfaces
    \<open>loop_body\<close> and \<open>total_body\<close> of such loops. Collections: hash maps with an arbitrary
    iteration order and ordered maps, as the standard library has them.
  \<^item> Domain: orders, logs and the environment \<open>env\<close>: everything the code asks of nodes, the
    cache, the clock, the ABI decoder and number conversions, as functions of a world. Status:
    the output types (\<open>order_status.rs\<close>, \<open>order_diagnostics.rs\<close> and the wrapper types).
    ErrorDisplay: \<open>error.rs\<close>. TokenSymbols: \<open>token_symbol_cache.rs\<close>, a look-up as one operation and
    as the two steps that concurrent requests interleave. FillSearch: \<open>fill_search.rs\<close>. OrderTracker, OrderTrackerProps: \<open>order_tracker.rs\<close>. Json: the wire
    format of all of them (the hand-written and the derived \<open>Serialize\<close> and \<open>Deserialize\<close>).
  \<^item> Tasks: exits of tasks, one operation on the token at a time, and their join (\<open>lib.rs\<close>). Metrics: \<open>metrics.rs\<close>. EventStore:
    \<open>state/event_store.rs\<close>. StateManager, StateManagerProps, ManagerGuarantees, Broadcasts:
    \<open>state/state_manager.rs\<close> and \<open>state/tracked_order.rs\<close>. BlockWatcher, EventWatcher,
    OrderDiscovery: the files of \<open>ingestion/\<close>. WsHandlers: \<open>ws/\<close>, each handler by itself. Subscribers: the broadcast
    channel between the manager and the sessions. Service: \<open>service.rs\<close>.
    Config: \<open>config.rs\<close>. Server, ServerProps: \<open>run\<close> of \<open>lib.rs\<close>, all tasks together.
    Program: \<open>main.rs\<close>, the configuration and the signals.
  \<^item> Sessions, SessionProps, Requests, Clients: the WebSocket sessions as tasks beside those of
    the server, interleaved with them. Lifecycle, SingleOrder: what is announced about one order. HttpApi: the router, from a request (method,
    path, extractors) to its answer or its session.
  \<^item> Tui, TuiView: the example client (\<open>examples/tui/\<close>): its state and loop, and what it draws.
  \<^item> UnitTests: the unit tests of the library's files, run on the model (a check of the model, not
    a property of the program).
  \<^item> This theory: the properties that span components.

  How the code is rendered. A struct is a record, an enum a datatype, \<open>u64\<close> and \<open>U256\<close> are
  words, an error is the left of a sum, a panic is \<^term>\<open>None\<close>. A query takes the world and
  returns its answer with the next world, so that no two answers need agree. What a
  \<open>select!\<close> may find ready is a list of inputs, and every list is a possible history, so the
  loops of the tasks are recursive functions over lists and need no fuel: a list that is used up
  means that the task is still waiting. What leaves the manager (broadcasts, reports, snapshots)
  is kept in its state, oldest first. The server is the inductive relation \<open>server_step\<close>, in
  which any task that can take a step may take it, with the channels as bounded queues;
  \<open>reachable\<close> are the states that a started server can get to. A task that leaves its loop then
  looks at the token, cancels it and returns in separate steps (\<open>task\<close>, \<open>exit_step\<close>), so two
  tasks can both find it not cancelled and both fail. An iteration of the manager is one step, as
  the manager alone writes its state and looks at the token between iterations only; what it
  broadcasts is seen one status after the other (\<open>sv_before\<close>, \<open>broadcast_so_far\<close>), so a session
  can take its snapshot of the history in the middle of a handler. A handler that panics leaves
  the state and the broadcasts that it had got to (\<open>panicked_state\<close>). \<open>system_step\<close> adds the sessions:
  one may be opened at any time, and a session takes the stretch of its handler from one point
  where it waits to the next (\<open>session_step\<close>) whenever what it waits for is there;
  \<open>system_reachable\<close> are the states of both together.

  What the lemmas show.
  \<^item> Interfaces. A loop over orders that may panic is an instance of \<open>loop_body\<close> (an invariant)
    and \<open>total_body\<close> (no panic); both loops of the manager over its orders are instances of
    \<open>update_loop\<close> (compute, store, broadcast); a run of the manager is one of \<open>run_invariant\<close>
    and \<open>run_total\<close>; each JSON format is a \<open>codec\<close>; each invariant of the server is a
    \<open>server_invariant\<close>, each of the server with its sessions a \<open>system_invariant\<close>, which a property
    of each session by itself (\<open>session_invariant\<close>) gives. Every interface is interpreted on the definitions of the model.
  \<^item> The library: which status an order gets on every branch; that it panics on no admissible
    order (its deadline fits in 64 bits) and on no answer of a node; where the information about
    a fill comes from; that the search for covering outputs decides multiset inclusion.
  \<^item> The event store refines bags of events and a map of initiations (\<open>store_abs\<close>) under
    insertion and under pruning by the new tips.
  \<^item> The manager: the invariant \<open>sm_inv\<close> (each order once, under its hash, with the status that
    was last broadcast for it) through every handler; the exact effect of new blocks, of a fill
    and of a registration; no panic on admissible orders.
  \<^item> The server: delivery in order and once, capacities, shutdown within a bound under every
    schedule with a result that is decided when the token is cancelled, and no panic of any task on
    admissible orders and logs.
  \<^item> Tasks by themselves: what the event watcher forwards, what a poll discovers, how the host tip
    advances, what a token look-up keeps when others run at the same time.
  \<^item> The life of an order: whatever the schedule, the statuses announced about an order are a run
    of a small automaton (\<open>lifecycle\<close>), so no order ends twice unless it is asked for again.
  \<^item> The sessions: in every reachable state of the system a session is a run of its handler, its
    receiver accounts for the broadcast history, and its request has been answered once or still
    can be.
  \<^item> End to end: in every reachable state of the system, an all-orders client that has lost nothing
    and read everything shows every tracked order as it is, through the session, the JSON text and
    the client's own state.
  \<^item> Where the code does not do what its documentation says, the theorem states what it does:
    lost updates of single-order sessions and of sessions that lag, orders lost by an interrupted poll, fill information
    discarded by an unrelated error, symbols forgotten, crashes by wide deadlines, and others.

  Bounds. Words wrap as in the code; capacities (1024, 256, 64) and the retention of 300 blocks
  are the constants of \<open>run\<close>. Lengths, counters and indices are naturals: the code's \<open>usize\<close>
  counts elements in memory and does not overflow.

  What is assumed of other crates is named where it is used, as a hypothesis:
  \<open>to_u64_checked\<close> and \<open>from_nanos_checked\<close> (conversions fail exactly out of range),
  \<open>clock_after_epoch\<close>, \<open>printers_ok\<close> (printed values read back), \<open>displays_ok\<close> (hashes print
  in ASCII), \<open>rounding_ok\<close> (a duration in range can be rounded; printing one that cannot
  panics) and \<open>render_ok\<close> (drawing keeps a valid selection). Shutdown rests on the queries
  returning: a query is one step of its task.

  Not modelled. Logging and tracing, which change nothing the code reads. The passing of time
  between the ticks of timers and the attempts of a backoff: either may come at any time. HTTP and WebSocket protocols below the messages,
  the layout of the terminal, the ABI and JSON text formats: they belong to other crates. The
  reading of environment variables, which a derive macro generates, and the static web page. The
  HTTP library lets open connections finish before its server ends; that, and when it does, is one
  step that may come at any time, with any result (\<open>Http_End\<close>). A session that panics while
  it prints a status: no status that the manager computes has a duration out of range
  (\<open>status_for_order_in_range\<close>).
\<close>

section \<open>From the event watcher to the event store\<close>

definition no_host_fills :: "'w state_manager \<Rightarrow> bool" where
  "no_host_fills s \<longleftrightarrow> es_wf (sm_event_store s) \<and> sp_host (store_abs (sm_event_store s)) = {#}"

fun rollup_only :: "input \<Rightarrow> bool" where
  "rollup_only (In_Event (CE_Filled filled)) = (fe_chain filled = Rollup)"
| "rollup_only _ = True"

lemma es_host_update_tips:
  "es_wf es \<Longrightarrow> sp_host (store_abs es) = {#} \<Longrightarrow> sp_host (store_abs (update_tips tip es)) = {#}"
  by (simp add: store_abs_update_tips spec_update_tips_def)

text \<open>The handlers change the event store through its operations only.\<close>

lemma refresh_order_store: "refresh_order env H h s = Some s' \<Longrightarrow> sm_event_store s' = sm_event_store s"
  by (auto simp: refresh_order_def Let_def sm_simps split: option.splits Option.bind_splits if_splits)

lemma check_fill_store: "check_fill env filled h s = Some s' \<Longrightarrow> sm_event_store s' = sm_event_store s"
  by (auto simp: check_fill_def Let_def sm_simps
      split: option.splits Option.bind_splits prod.splits sum.splits bool.splits)

interpretation refresh_store: loop_body "refresh_order env H" "\<lambda>s. sm_event_store s = es" "\<lambda>_. True"
  for env :: "'w env" and H es
  by unfold_locales (auto dest: refresh_order_store)

interpretation fill_store: loop_body "check_fill env filled" "\<lambda>s. sm_event_store s = es" "\<lambda>_. True"
  for env :: "'w env" and filled es
  by unfold_locales (auto dest: check_fill_store)

lemma handle_input_store:
  assumes "handle_input env i s = Some s'"
  shows "sm_event_store s' = (case i of
      In_Blocks tip \<Rightarrow> update_tips tip (sm_event_store s)
    | In_Event (CE_Filled filled) \<Rightarrow> insert_filled filled (sm_event_store s)
    | In_Event (CE_Order order_event) \<Rightarrow> insert_order order_event (sm_event_store s)
    | _ \<Rightarrow> sm_event_store s)"
proof (cases i)
  case (In_Blocks tip)
  with assms obtain s2 where
    "for_each (refresh_order env (sm_all_order_hashes s))
       (pending_hashes env (s\<lparr>sm_event_store := update_tips tip (sm_event_store s)\<rparr>))
       (s\<lparr>sm_event_store := update_tips tip (sm_event_store s)\<rparr>) = Some s2"
    and s': "sm_event_store s' = sm_event_store s2"
    by (auto simp: handle_new_blocks_def Let_def split: Option.bind_splits)
  from refresh_store.loop_inv [OF _ _ this(1), of "update_tips tip (sm_event_store s)"] s' In_Blocks
  show ?thesis by simp
next
  case (In_Event event)
  show ?thesis
  proof (cases event)
    case (CE_Filled filled)
    let ?s1 = "s\<lparr>sm_metrics := record_chain_event Kind_Filled (sm_metrics s),
      sm_event_store := insert_filled filled (sm_event_store s)\<rparr>"
    from assms In_Event CE_Filled obtain s2 where
      "for_each (check_fill env filled) (candidate_hashes env filled ?s1) ?s1 = Some s2"
      and s': "sm_event_store s' = sm_event_store s2"
      by (auto simp: handle_chain_event_def check_fills_against_pending_def sm_simps split: Option.bind_splits)
    from fill_store.loop_inv [OF _ _ this(1), of "insert_filled filled (sm_event_store s)"] s' In_Event CE_Filled
    show ?thesis by simp
  qed (use assms In_Event in \<open>auto simp: handle_chain_event_def sm_simps\<close>)
qed (use assms in \<open>auto simp: register_order_def Let_def sm_simps send_snapshot_def
      split: option.splits Option.bind_splits\<close>)

lemma panicked_state_store:
  "sm_event_store (panicked_state env i s) = (case i of
      In_Blocks tip \<Rightarrow> update_tips tip (sm_event_store s)
    | In_Event (CE_Filled filled) \<Rightarrow> insert_filled filled (sm_event_store s)
    | _ \<Rightarrow> sm_event_store s)"
proof -
  have blocks: "sm_event_store (loop_state (refresh_order env H) hs s1) = sm_event_store s1" for H hs s1
    using loop_state_prefix [of hs "refresh_order env H" s1] refresh_store.loop_inv by blast
  have fills: "sm_event_store (loop_state (check_fill env filled) hs s1) = sm_event_store s1" for filled hs s1
    using loop_state_prefix [of hs "check_fill env filled" s1] fill_store.loop_inv by blast
  show ?thesis by (simp add: panicked_state_def Let_def blocks fills split: input.split chain_event.split)
qed

interpretation rollup_run: run_invariant env no_host_fills rollup_only for env :: "'w env"
proof unfold_locales
  fix s s' :: "'w state_manager" and i
  assume inv: "no_host_fills s" and ok: "rollup_only i" and step: "handle_input env i s = Some s'"
  then have wf: "es_wf (sm_event_store s)" and empty: "sp_host (store_abs (sm_event_store s)) = {#}"
    by (simp_all add: no_host_fills_def)
  show "no_host_fills s'"
    using ok wf empty unfolding no_host_fills_def handle_input_store [OF step]
    by (auto simp: es_wf_intros es_host_update_tips store_abs_insert_filled store_abs_insert_order
        spec_insert_filled_def spec_insert_order_def split: input.split chain_event.split)
next
  show "no_host_fills s \<Longrightarrow> no_host_fills (s\<lparr>sm_all_order_hashes := H\<rparr>)" for s :: "'w state_manager" and H
    by (simp add: no_host_fills_def)
  show "no_host_fills (panicked_state env i s)" if inv: "no_host_fills s" and ok: "rollup_only i" for s :: "'w state_manager" and i
  proof -
    from inv have wf: "es_wf (sm_event_store s)" and empty: "sp_host (store_abs (sm_event_store s)) = {#}"
      by (simp_all add: no_host_fills_def)
    show ?thesis
      using ok wf empty unfolding no_host_fills_def panicked_state_store
      by (auto simp: es_wf_intros es_host_update_tips store_abs_insert_filled spec_insert_filled_def
          split: input.split chain_event.split)
  qed
qed

lemma no_host_fills_new: "no_host_fills (state_manager_new tracker n)"
  by (simp add: no_host_fills_def state_manager_new_def es_wf_new)
    (simp add: store_abs_def event_store_new_def chain_events_new_def ce_items_def bt_values_def)

lemma events_in_mem: "In_Event event \<in> set is \<Longrightarrow> event \<in> set (events_in is)"
  by (induction "is" rule: events_in.induct) auto

lemma log_events_rollup: "CE_Filled filled \<in> set (log_events env logs) \<Longrightarrow> fe_chain filled = Rollup"
  by (auto simp: log_events_def decode_log_Filled dest!: sym [of "Some (Some (CE_Filled filled))"] split: option.splits)

section \<open>Properties across components\<close>

text \<open>
  C32: the event store never learns of a host fill. In every reachable state of the server the
  host side of the state manager's event store is empty, since the only event watcher is the
  rollup's: a fill on the host is only found by the queries of a refresh.
\<close>

theorem host_store_stays_empty:
  assumes "reachable env sv"
  shows "sp_host (store_abs (sm_event_store (sv_manager sv))) = {#}"
proof -
  from manager_run.always [OF assms] obtain w rds exit where
    r: "run_inner env rds (state_manager_new (tracker_new env w) retention_blocks) = (exit, sv_manager sv)"
    and taken: "map select_input rds = map Some (sv_taken sv)" by (auto simp: manager_run_def)
  have "prefix (events_in (sv_taken sv)) (log_events env (sv_logs sv))"
    using pipeline.always [OF assms] by (auto simp: pipeline_def dest: append_prefixD)
  then have events: "set (events_in (sv_taken sv)) \<subseteq> set (log_events env (sv_logs sv))"
    by (rule set_mono_prefix)
  have "rollup_only i" if "rd \<in> set rds" "select_input rd = Some i" for rd i
  proof (cases i rule: rollup_only.cases)
    case (1 filled)
    have "Some i \<in> set (map select_input rds)" using that by force
    then have "i \<in> set (sv_taken sv)" unfolding taken by auto
    then have "CE_Filled filled \<in> set (events_in (sv_taken sv))" using 1 by (auto intro: events_in_mem)
    then show ?thesis using events 1 log_events_rollup by auto
  qed simp_all
  then have "no_host_fills (sv_manager sv)"
    using rollup_run.run_inner_inv [OF no_host_fills_new _ r] by blast
  then show ?thesis by (simp add: no_host_fills_def)
qed

theorem host_store_stays_empty_witness:
  "\<exists>sv. reachable demo_env sv \<and> sv_events sv \<noteq> [] \<and> sp_host (store_abs (sm_event_store (sv_manager sv))) = {#}"
proof -
  note r = reachable.step [OF demo_reachable demo_step]
  show ?thesis by (rule exI, rule conjI [OF r], rule conjI [OF _ host_store_stays_empty [OF r]]) simp
qed

lemma all_default_forwarded: "forwarded parse order_filter_default (map WI_Update us) = us"
  by (induction us) (simp_all add: matches_filter_def order_filter_default_def)

text \<open>A run of the manager by itself, with a snapshot in the middle.\<close>

lemma all_orders_view:
  assumes "run_inner env rds (state_manager_new tracker n) = (Running, s1)"
    and "sm_snapshots (send_snapshot env i s1) = sm_snapshots s1 @ [(i, snapshot)]"
    and "run_inner env rds' (send_snapshot env i s1) = (exit, s2)"
    and "p \<le> length (sm_updates s1)"
  shows "covers s2 p snapshot"
proof -
  have inv1: "sm_inv s1" using coherent_run.run_inner_inv [OF sm_inv_new _ assms(1)] by blast
  let ?s = "send_snapshot env i s1"
  have "sm_inv ?s" using inv1 by (simp add: sm_inv_def sm_wf_def coherent_def send_snapshot_def)
  then have "sm_inv s2" "extends ?s s2"
    using history_run.run_inner_inv [of _ ?s, OF _ _ assms(3)] extends_refl by auto
  moreover have "snapshot = map (\<lambda>(_, t). to_status t) (sm_iter env s1)"
    using assms(2) by (simp add: send_snapshot_def)
  then have "covers ?s p snapshot" using covers_snapshot [OF inv1 assms(4)] by simp
  ultimately show ?thesis using covers_extends assms(4) by (fastforce simp: send_snapshot_def)
qed

text \<open>A run that registers one order, and the snapshot after it.\<close>

lemma demo_snapshot:
  "run_inner demo_env [idle\<lparr>rd_track := Some (Some \<lparr>tr_order = bare_order 5, tr_initial_report_sender = Some 1\<rparr>)\<rparr>]
     (state_manager_new (tracker_new demo_env [1000, 3000]) 300) = (Running, demo_tracked)"
  "run_inner demo_env [] (send_snapshot demo_env 2 demo_tracked) = (Running, send_snapshot demo_env 2 demo_tracked)"
  "sm_snapshots (send_snapshot demo_env 2 demo_tracked) =
     sm_snapshots demo_tracked @ [(2, [Pending 5 7 (bare_diagnostics 1000)])]"
  "1 \<le> length (sm_updates demo_tracked)"
  "sm_updates (send_snapshot demo_env 2 demo_tracked) = [Pending 5 7 (bare_diagnostics 1000)]"
  "sm_tracked_orders (send_snapshot demo_env 2 demo_tracked) =
     [(5, \<lparr>to_order = bare_order 5, to_status = Pending 5 7 (bare_diagnostics 1000)\<rparr>)]"
  using demo_registered
  by (simp_all add: select_input_def idle_def demo_manager_def send_snapshot_def sm_iter_def hm_iter_def demo_tracked_def)

text \<open>
  An all-orders client that misses nothing knows every tracked order. Take any run of the
  manager, a snapshot taken in the middle, and a session that subscribed no later than that
  (at position \<open>p\<close> of the broadcast history), sets no filter and loses no message: when it has
  received everything broadcast up to some later state, then for every order tracked in that
  state the last status the client was sent about it is the order's current one.
\<close>

theorem all_orders_view_complete:
  assumes "run_inner env rds (state_manager_new tracker n) = (Running, s1)"
    and "sm_snapshots (send_snapshot env i s1) = sm_snapshots s1 @ [(i, snapshot)]"
    and "run_inner env rds' (send_snapshot env i s1) = (exit, s2)"
    and "p \<le> length (sm_updates s1)"
    and "\<forall>n. net n" "\<forall>st. to_string st \<noteq> None"
  shows "\<exists>c' sts. handle_all_orders net to_string parse True (Some snapshot)
      (map WI_Update (drop p (sm_updates s2))) c = (Open, c') \<and>
    cn_sent c' = cn_sent c @ map (\<lambda>st. WM_Text (the (to_string st))) sts \<and>
    (\<forall>(h, t) \<in> set (sm_tracked_orders s2). last_update h sts = Some (to_status t))"
proof -
  have rel: "reliable net to_string" using assms(5,6) by (simp add: reliable_def)
  obtain c' where "handle_all_orders net to_string parse True (Some snapshot) (map WI_Update (drop p (sm_updates s2))) c = (Open, c')"
    "cn_sent c' = cn_sent c @ texts to_string (snapshot @ drop p (sm_updates s2))"
    using handle_all_orders_effect [OF rel, of "map WI_Update (drop p (sm_updates s2))" parse snapshot c]
    by (auto simp: all_default_forwarded)
  moreover have "hm_wf (sm_tracked_orders s2)"
    using coherent_run.run_inner_inv [OF _ _ assms(3)] coherent_run.run_inner_inv [OF sm_inv_new _ assms(1)]
    by (simp add: sm_inv_def sm_wf_def coherent_def send_snapshot_def)
  then have "last_update h (snapshot @ drop p (sm_updates s2)) = Some (to_status t)" if "(h, t) \<in> set (sm_tracked_orders s2)" for h t
    using all_orders_view [OF assms(1-4)] that by (simp add: covers_def hm_get_in_set)
  ultimately show ?thesis unfolding texts_def by blast
qed

theorem all_orders_view_complete_witness:
  "\<exists>c' sts. handle_all_orders (\<lambda>_. True) demo_printer (\<lambda>_. None) True (Some [Pending 5 7 (bare_diagnostics 1000)])
      (map WI_Update []) demo_connection = (Open, c') \<and>
    cn_sent c' = map (\<lambda>st. WM_Text (the (demo_printer st))) sts \<and>
    last_update 5 sts = Some (Pending 5 7 (bare_diagnostics 1000))"
  using all_orders_view_complete [OF demo_snapshot(1,3,2,4), of "\<lambda>_. True" demo_printer "\<lambda>_. None" demo_connection]
  unfolding demo_snapshot(5,6) by (simp add: demo_printer_def demo_connection_def)

text \<open>The times left that the tracker computes can be printed.\<close>

lemma duration_of_secs_in_range:
  assumes "from_nanos_checked env" "pretty_duration_new env (secs * 10 ^ 9) = Some d"
  shows "\<bar>pd_nanos d\<bar> \<le> duration_limit"
proof -
  from assms have d: "d = PrettyDuration (int secs * 10 ^ 9)" "(int secs * 10 ^ 9) div 10 ^ 9 < (2 :: int) ^ 63"
    by (auto simp: pretty_duration_new_def from_nanos_checked_def abs_mult split: if_splits)
  then have "int secs \<le> 2 ^ 63 - 1" by simp
  then show ?thesis by (simp add: d(1) duration_limit_def)
qed

lemma check_deadline_in_range:
  assumes "from_nanos_checked env" "check_deadline env order now = Some dc"
  shows "\<bar>pd_nanos (dc_expires_in dc)\<bar> \<le> duration_limit"
proof -
  from assms(2) obtain deadline where "pretty_duration_new env
      (if now < deadline then duration_from_secs (deadline - now) else 0) = Some (dc_expires_in dc)"
    by (auto simp: check_deadline_def Let_def split: Option.bind_splits)
  then have "pretty_duration_new env ((if now < deadline then unat (deadline - now) else 0) * 10 ^ 9) = Some (dc_expires_in dc)"
    by (simp add: duration_from_secs_def split: if_splits)
  then show ?thesis by (rule duration_of_secs_in_range [OF assms(1)])
qed

lemma status_for_order_in_range:
  assumes "from_nanos_checked env" "status_for_order env order is_in_cache s = Some (st, s')"
  shows "status_in_range st"
  using assms(2) check_deadline_in_range [OF assms(1)]
  by (auto simp: status_for_order_def status_in_range_def build_pending_unknown_nonce_def Let_def
      split: Option.bind_splits prod.splits sum.splits if_splits bool.splits)

text \<open>
  C1: from the chain to the client's screen. In every state that the server and its sessions can
  reach with the manager running: take an all-orders session that has never lagged and has
  received all that was broadcast, and the terminal client at its other end (which sets no
  filter). When the client has read every message sent, among whatever keys its user pressed, it
  shows the current status of every order that is tracked. Statuses travel as JSON text that
  reads back (\<open>serde_json\<close>, which returns no error), with printers that invert and times left in
  whole milliseconds, so that printing them does not panic.
\<close>

theorem client_shows_every_order:
  assumes "system_reachable env w sv ss" "k < length ss" "ws_kind (ss ! k) = All_Orders" "ws_phase (ss ! k) = Looping f"
    and "sv_manager_task sv = T_Running" "\<forall>n. wv_network w k n"
    and "\<forall>st. wv_to_string w st \<noteq> None"
    and "\<forall>text. WI_Text text \<in> set (ws_inputs (ss ! k)) \<longrightarrow> wv_parse w text = None"
    and "\<forall>n. WI_Lagged n \<notin> set (ws_inputs (ss ! k))" "ws_pos (ss ! k) = length (sm_updates (sv_manager sv))"
    and "printers_ok P from_nanos" "render_ok render"
    and "\<forall>st \<in> set (sm_updates (sv_manager sv)). status_duration_ok st \<and>
      wv_to_string w st = map_option print_text (order_status_to_json P st) \<and>
      (\<forall>j. order_status_to_json P st = Some j \<longrightarrow> read_text (print_text j) = Some j)"
    and "tui_loop render (\<lambda>s. Option.bind (read_text s) (order_status_of_json P from_nanos)) its app_new = (TE_Running, a)"
    and "map WM_Text (text_inputs (map it_input its)) = cn_sent (ws_conn (ss ! k))"
  shows "\<forall>(h, t) \<in> set (sm_tracked_orders (sv_manager sv)).
    find (\<lambda>st. status_order_hash st = h) (ap_orders a) = Some (to_status t)"
proof -
  let ?from_str = "\<lambda>s. Option.bind (read_text s) (order_status_of_json P from_nanos)"
  have rel: "reliable (wv_network w k) (wv_to_string w)" using assms(6,7) by (simp add: reliable_def)
  have never: "never_lagged (ss ! k)" using assms(9) by (simp add: never_lagged_def)
  obtain sts where sent: "cn_sent (ws_conn (ss ! k)) = texts (wv_to_string w) sts" and
    sub: "set sts \<subseteq> set (sm_updates (sv_manager sv))" and
    last: "\<And>h t. (h, t) \<in> set (sm_tracked_orders (sv_manager sv)) \<Longrightarrow> last_update h sts = Some (to_status t)"
    by (rule caught_up_sent [OF assms(1-5) rel assms(8) never assms(10)]) (rule that; assumption)
  have "map WM_Text (text_inputs (map it_input its)) = map WM_Text (map (\<lambda>st. the (wv_to_string w st)) sts)"
    using sent assms(15) by (simp add: comp_def texts_def)
  then have texts: "text_inputs (map it_input its) = map (\<lambda>st. the (wv_to_string w st)) sts"
    by (rule map_injective) (simp add: inj_def)
  have "?from_str (the (wv_to_string w st)) = Some st" if "st \<in> set sts" for st
  proof -
    have ok: "printers_ok P from_nanos \<and> status_duration_ok st" using that sub assms(11,13) by blast
    with ost.encodes obtain j where "order_status_to_json P st = Some j" "order_status_of_json P from_nanos j = Some st"
      by blast
    then show ?thesis using that sub assms(13) by auto
  qed
  then have "map ?from_str (text_inputs (map it_input its)) = map Some sts" unfolding texts by simp
  then have rec: "received ?from_str (map it_input its) = sts" by (rule received_texts)
  from tui_loop_effect [OF assms(12) app_wf_new assms(14)] have
    "shown a h = (case last_update h sts of None \<Rightarrow> shown app_new h | Some st \<Rightarrow> Some st)" for h
    by (auto simp: rec)
  then show ?thesis using last by (auto simp: shown_def)
qed

theorem client_shows_every_order_witness:
  "\<exists>sv s a. system_reachable demo_env (demo_world (\<lambda>_. Some ''{}'')) sv [s, ask (new_session demo_kind 0)] \<and>
    cn_sent (ws_conn s) = [WM_Text ''{}'', WM_Text ''{}''] \<and>
    tui_loop (\<lambda>_ s. s) (\<lambda>_. Option.bind (order_status_to_json demo_printers demo_pending) (order_status_of_json demo_printers Some))
      [draw_then (TI_Text ''{}''), draw_then (TI_Text ''{}'')] app_new = (TE_Running, a) \<and>
    find (\<lambda>st. status_order_hash st = 5) (ap_orders a) = Some demo_pending"
proof -
  have ok: "status_duration_ok demo_pending"
    by (simp add: status_duration_ok_def bare_diagnostics_def friendly_duration_def friendly_limit_def)
  then obtain j where j: "order_status_to_json demo_printers demo_pending = Some j"
    using ost.encodes demo_printers_ok by blast
  let ?its = "[draw_then (TI_Text ''{}''), draw_then (TI_Text ''{}'')]"
  let ?from = "\<lambda>s. Option.bind ((\<lambda>_. Some j) s) (order_status_of_json demo_printers Some)"
  have total: "\<forall>st. (\<lambda>_. Some ''{}'') (st :: order_status) \<noteq> None" by simp
  obtain sv s where r: "system_reachable demo_env (demo_world (\<lambda>_. Some ''{}'')) sv [s, ask (new_session demo_kind 0)]"
    and s: "ws_kind s = All_Orders" "ws_phase s = Looping order_filter_default" "ws_inputs s = [WI_Update demo_pending]"
      "ws_pos s = length (sm_updates (sv_manager sv))"
    and m: "sv_manager_task sv = T_Running" "sm_updates (sv_manager sv) = [demo_pending]"
      "sm_tracked_orders (sv_manager sv) = [(5, \<lparr>to_order = bare_order 5, to_status = demo_pending\<rparr>)]"
    and sent: "cn_sent (ws_conn s) = [WM_Text (the ((\<lambda>_. Some ''{}'') demo_pending)), WM_Text (the ((\<lambda>_. Some ''{}'') demo_pending))]"
    by (rule demo_informed [OF total]) (rule that; assumption)
  obtain e a where l: "tui_loop (\<lambda>_ s. s) ?from ?its app_new = (e, a)" by (rule prod.exhaust)
  then have e: "e = TE_Running" by (auto simp: draw_then_def app_new_def Let_def drawn_def update_order_def split: option.splits if_splits)
  have "\<forall>(h, t) \<in> set (sm_tracked_orders (sv_manager sv)).
      find (\<lambda>st. status_order_hash st = h) (ap_orders a) = Some (to_status t)"
    using client_shows_every_order [OF r _ _ _ m(1) _ _ _ _ _ demo_printers_ok, of 0 order_filter_default
        "\<lambda>_ s. s" "\<lambda>_. ''{}''" "\<lambda>_. Some j" ?its a] l e s m(2) sent ok j
    by (simp add: demo_world_def render_ok_def draw_then_def)
  then show ?thesis using r l e sent m(3) j by auto
qed

end
